(* ===== verification/KBase.thy ===== *)
theory KBase
  imports Main "HOL-Library.Word"
begin

text \<open>
  Prelude of the KiOS development: the machine integer types of
  \<^verbatim>\<open>src/kernel/types.h\<close> as words, C string literals as byte lists, the lemma
  collections of the development, and generic facts about words, alignment and bit
  masks that the memory components share.
\<close>

unbundle bit_operations_syntax

section \<open>Integer types of types.h\<close>

type_synonym u8 = "8 word"
type_synonym u16 = "16 word"
type_synonym u32 = "32 word"
type_synonym u64 = "64 word"

text \<open>
  A C string literal is the list of its bytes; the end of the list stands for the
  terminating NUL byte.
\<close>

definition cstr :: "string \<Rightarrow> u8 list" where
  "cstr = map of_char"

section \<open>Lemma collections\<close>

named_theorems frame_simps \<open>which state fields an operation leaves alone\<close>
named_theorems inv_intros \<open>operations preserve the invariant of their component\<close>

section \<open>Loops over an index range\<close>

text \<open>
  \<^verbatim>\<open>for (i = a; n more rounds; i++) s = body(i, s)\<close>. On a 64-bit index the body
  sees the wrapped value, as the C loop does.
\<close>

primrec for_up :: "nat \<Rightarrow> 'i::comm_semiring_1 \<Rightarrow> ('i \<Rightarrow> 's \<Rightarrow> 's) \<Rightarrow> 's \<Rightarrow> 's" where
  "for_up 0 i body s = s"
| "for_up (Suc n) i body s = for_up n (i + 1) body (body i s)"

lemma for_up_invariant:
  assumes "I 0 s"
    and "\<And>k t. k < n \<Longrightarrow> I k t \<Longrightarrow> I (Suc k) (body (i + of_nat k) t)"
  shows "I n (for_up n i body s)"
  using assms
proof (induction n arbitrary: i s I)
  case 0
  then show ?case by simp
next
  case (Suc n)
  have "I (Suc 0) (body i s)"
    using Suc.prems(2)[of 0 s] Suc.prems(1) by simp
  moreover have "I (Suc (Suc k)) (body ((i + 1) + of_nat k) t)"
    if "k < n" "I (Suc k) t" for k t
    using Suc.prems(2)[of "Suc k" t] that by (simp add: add.assoc)
  ultimately have "I (Suc n) (for_up n (i + 1) body (body i s))"
    using Suc.IH[of "\<lambda>k. I (Suc k)" "body i s" "i + 1"] by simp
  then show ?case by simp
qed

lemma for_up_Suc_last:
  "for_up (Suc n) i body s = body (i + of_nat n) (for_up n i body s)"
proof (induction n arbitrary: i s)
  case 0
  then show ?case by simp
next
  case (Suc n)
  have "for_up (Suc (Suc n)) i body s = for_up (Suc n) (i + 1) body (body i s)" by simp
  also have "\<dots> = body ((i + 1) + of_nat n) (for_up n (i + 1) body (body i s))"
    by (rule Suc.IH)
  finally show ?case by (simp add: add.assoc)
qed

lemma for_up_relation:
  assumes "\<And>x. R x x" and "\<And>x y z. R x y \<Longrightarrow> R y z \<Longrightarrow> R x z" and "\<And>i x. R x (body i x)"
  shows "R s (for_up n i body s)"
proof (induction n arbitrary: i s)
  case 0
  then show ?case by (simp add: assms(1))
next
  case (Suc n)
  then show ?case using assms(2)[OF assms(3) Suc.IH] by simp
qed

section \<open>Words\<close>

lemma unat_add_less:
  fixes a b :: "'w::len word"
  assumes "unat a + unat b < 2 ^ LENGTH('w)"
  shows "unat (a + b) = unat a + unat b"
  using assms by (simp add: unat_word_ariths)

lemma unat_of_nat_less:
  assumes "n < 2 ^ LENGTH('w)"
  shows "unat (of_nat n :: 'w::len word) = n"
  using assms by (simp add: unat_of_nat take_bit_nat_eq_self)

lemma u64_of_nat_less: "n < 18446744073709551616 \<Longrightarrow> unat (of_nat n :: u64) = n"
  using unat_of_nat_less[where 'w = 64] by simp

lemma unat_u64_less: "unat (x :: u64) < 18446744073709551616"
  using unsigned_less[of x] by simp

lemma word_u64_eq_iff: "(x :: u64) = y \<longleftrightarrow> unat x = unat y"
  by (simp add: word_unat_eq_iff)

lemma sint_mod:
  "sint (w :: 'w::len word)
     = (uint w + 2 ^ (LENGTH('w) - 1)) mod 2 ^ LENGTH('w) - 2 ^ (LENGTH('w) - 1)"
  by (metis int_word_sint word_of_int_uint)

lemma sint_u8: "sint (c :: u8) = (if uint c < 128 then uint c else uint c - 256)"
proof -
  have "(u + 128) mod 256 - 128 = (if u < 128 then u else u - 256)"
    if "0 \<le> u" "u < 256" for u :: int
  proof (cases "u < 128")
    case False
    have "(u + 128) mod 256 = ((u - 128) + 256) mod 256" by (rule arg_cong) simp
    also have "\<dots> = u - 128" using False that by (subst mod_add_self2) simp
    finally show ?thesis using False by simp
  qed (use that in simp)
  moreover have "0 \<le> uint c" "uint c < 256" using unsigned_less[of c] by simp_all
  ultimately show ?thesis by (simp add: sint_mod)
qed

lemma sint_u64:
  "sint (v :: u64) = (if uint v < 9223372036854775808 then uint v
                      else uint v - 18446744073709551616)"
proof -
  have "(u + 9223372036854775808) mod 18446744073709551616 - 9223372036854775808
      = (if u < 9223372036854775808 then u else u - 18446744073709551616)"
    if "0 \<le> u" "u < 18446744073709551616" for u :: int
  proof (cases "u < 9223372036854775808")
    case False
    have "(u + 9223372036854775808) mod 18446744073709551616
        = ((u - 9223372036854775808) + 18446744073709551616) mod 18446744073709551616" by (rule arg_cong) simp
    also have "\<dots> = u - 9223372036854775808" using False that by (subst mod_add_self2) simp
    finally show ?thesis using False by simp
  qed (use that in simp)
  moreover have "0 \<le> uint v" "uint v < 18446744073709551616"
    using unsigned_less[of v] by simp_all
  ultimately show ?thesis by (simp add: sint_mod)
qed

section \<open>Page alignment\<close>

text \<open>\<^verbatim>\<open>x & ~0xFFF\<close>, where the complement is sign-extended to 64 bits.\<close>

lemma unat_page_down: "unat ((x :: u64) AND NOT 0xFFF) = unat x div 4096 * 4096"
proof -
  have "x AND NOT (mask 12) = push_bit 12 (drop_bit 12 x)"
    by (rule bit_word_eqI) (auto simp: bit_simps)
  then have "unat (x AND NOT 0xFFF) = unat (push_bit 12 (drop_bit 12 x))"
    by (simp add: mask_numeral)
  also have "\<dots> = take_bit 64 (unat x div 4096 * 4096)"
    using unat_u64_less[of x]
    by (subst unsigned_push_bit_eq)
      (simp add: unsigned_drop_bit_eq push_bit_eq_mult drop_bit_nat_def take_bit_nat_def)
  also have "\<dots> = unat x div 4096 * 4096"
    using unat_u64_less[of x] by (simp add: take_bit_nat_def)
  finally show ?thesis .
qed

lemma page_down_le: "unat ((x :: u64) AND NOT 0xFFF) \<le> unat x"
  by (simp only: unat_page_down div_times_less_eq_dividend)

lemma unat_page_offset: "unat ((x :: u64) AND 0xFFF) = unat x mod 4096"
proof -
  have "x AND mask 12 = take_bit 12 x" by (simp add: take_bit_eq_mask)
  then have "unat (x AND 0xFFF) = unat (take_bit 12 x)" by (simp add: mask_numeral)
  then show ?thesis by (simp add: unsigned_take_bit_eq take_bit_nat_def)
qed

end
