(* ===== verification/Machine.thy ===== *)
theory Machine
  imports KBase
begin

text \<open>
  The machine the kernel runs on: byte-addressed physical memory (identity mapped by
  the boot loader, so a physical address is the address the kernel dereferences), and
  the sequence of privileged instructions it has executed. The port helpers are those
  of \<^verbatim>\<open>src/kernel/io.h\<close>; what a device answers to a port read is a
  parameter, a function of everything that happened on the bus before.
\<close>

section \<open>State\<close>

datatype hw_event =
    OutB u16 u8 | OutW u16 u16 | OutL u16 u32
  | InB u16 u8 | InW u16 u16 | InL u16 u32
  | Mfence | Invlpg u64 | SetCr3 u64
  | Cli | Sti | Hlt | Ud2
  | Lidt u64 | Lgdt u64 | Ltr u16 | ReloadSegments
  | Wrmsr u32 u64

record mach =
  mem :: "u64 \<Rightarrow> u8"
  hw_trace :: "hw_event list"

type_synonym device = "hw_event list \<Rightarrow> u16 \<Rightarrow> u32"

definition emit :: "hw_event \<Rightarrow> 'a mach_scheme \<Rightarrow> 'a mach_scheme" where
  "emit e s = s\<lparr>hw_trace := hw_trace s @ [e]\<rparr>"

section \<open>io.h\<close>

definition outb :: "u16 \<Rightarrow> u8 \<Rightarrow> 'a mach_scheme \<Rightarrow> 'a mach_scheme" where
  "outb port val s = emit (OutB port val) s"

definition inb :: "device \<Rightarrow> u16 \<Rightarrow> 'a mach_scheme \<Rightarrow> u8 \<times> 'a mach_scheme" where
  "inb dev port s = (let ret = ucast (dev (hw_trace s) port) in (ret, emit (InB port ret) s))"

definition outw :: "u16 \<Rightarrow> u16 \<Rightarrow> 'a mach_scheme \<Rightarrow> 'a mach_scheme" where
  "outw port val s = emit (OutW port val) s"

definition inw :: "device \<Rightarrow> u16 \<Rightarrow> 'a mach_scheme \<Rightarrow> u16 \<times> 'a mach_scheme" where
  "inw dev port s = (let ret = ucast (dev (hw_trace s) port) in (ret, emit (InW port ret) s))"

definition outl :: "u16 \<Rightarrow> u32 \<Rightarrow> 'a mach_scheme \<Rightarrow> 'a mach_scheme" where
  "outl port val s = emit (OutL port val) s"

definition inl :: "device \<Rightarrow> u16 \<Rightarrow> 'a mach_scheme \<Rightarrow> u32 \<times> 'a mach_scheme" where
  "inl dev port s = (let ret = dev (hw_trace s) port in (ret, emit (InL port ret) s))"

definition io_wait :: "'a mach_scheme \<Rightarrow> 'a mach_scheme" where
  "io_wait s = outb 0x80 0 s"

lemmas port_defs = outb_def inb_def outw_def inw_def outl_def inl_def io_wait_def emit_def

section \<open>Little-endian memory access\<close>

text \<open>
  Multi-byte loads and stores of the x86, least significant byte first. Addresses wrap
  at 64 bits, as they do in the machine.
\<close>

primrec load_le :: "nat \<Rightarrow> (u64 \<Rightarrow> u8) \<Rightarrow> u64 \<Rightarrow> 'w::len word" where
  "load_le 0 m a = 0"
| "load_le (Suc n) m a = ucast (m a) OR push_bit 8 (load_le n m (a + 1))"

primrec store_le :: "nat \<Rightarrow> 'w::len word \<Rightarrow> u64 \<Rightarrow> (u64 \<Rightarrow> u8) \<Rightarrow> (u64 \<Rightarrow> u8)" where
  "store_le 0 v a m = m"
| "store_le (Suc n) v a m = store_le n (drop_bit 8 v) (a + 1) (m(a := ucast v))"

abbreviation read16 :: "(u64 \<Rightarrow> u8) \<Rightarrow> u64 \<Rightarrow> u16" where "read16 \<equiv> load_le 2"
abbreviation read32 :: "(u64 \<Rightarrow> u8) \<Rightarrow> u64 \<Rightarrow> u32" where "read32 \<equiv> load_le 4"
abbreviation read64 :: "(u64 \<Rightarrow> u8) \<Rightarrow> u64 \<Rightarrow> u64" where "read64 \<equiv> load_le 8"
abbreviation write64 :: "u64 \<Rightarrow> u64 \<Rightarrow> (u64 \<Rightarrow> u8) \<Rightarrow> (u64 \<Rightarrow> u8)" where
  "write64 v \<equiv> store_le 8 v"

lemma bit_load_le:
  "bit (load_le n m a :: 'w::len word) k \<longleftrightarrow>
     k < 8 * n \<and> k < LENGTH('w) \<and> bit (m (a + of_nat (k div 8))) (k mod 8)"
proof (induction n arbitrary: a k)
  case 0
  then show ?case by simp
next
  case (Suc n)
  show ?case
  proof (cases "k < 8")
    case True
    then show ?thesis
      by (auto simp: bit_or_iff bit_push_bit_iff bit_ucast_iff)
  next
    case False
    then obtain j where k: "k = j + 8" by (metis add.commute le_add_diff_inverse not_le)
    have [simp]: "(j + 8) div 8 = Suc (j div 8)" by simp
    have "\<not> bit (m a) k" using False bit_imp_le_length[of "m a" k] by auto
    then show ?thesis
      by (auto simp: k bit_or_iff bit_push_bit_iff bit_ucast_iff Suc.IH add.assoc)
  qed
qed

lemma store_le_other: "(\<And>i. i < n \<Longrightarrow> b \<noteq> a + of_nat i) \<Longrightarrow> store_le n v a m b = m b"
proof (induction n arbitrary: v a m)
  case 0
  then show ?case by simp
next
  case (Suc n)
  have "b \<noteq> a" using Suc.prems[of 0] by simp
  moreover have "b \<noteq> (a + 1) + of_nat i" if "i < n" for i
    using Suc.prems[of "Suc i"] that by (simp add: add.assoc)
  ultimately show ?case using Suc.IH[of "a + 1"] by simp
qed

lemma store_le_same:
  assumes "i < n" and "n \<le> 256"
  shows "store_le n v a m (a + of_nat i) = ucast (drop_bit (8 * i) v)"
  using assms
proof (induction n arbitrary: v a m i)
  case 0
  then show ?case by simp
next
  case (Suc n)
  show ?case
  proof (cases i)
    case 0
    have "a \<noteq> (a + 1) + of_nat j" if "j < n" for j
    proof
      assume "a = a + 1 + of_nat j"
      then have "of_nat (Suc j) = (0 :: u64)" by (simp add: add.assoc)
      then have "unat (of_nat (Suc j) :: u64) = 0" by simp
      moreover have "Suc j < 18446744073709551616" using that Suc.prems by simp
      ultimately show False using u64_of_nat_less[of "Suc j"] by linarith
    qed
    then show ?thesis using 0 by (simp add: store_le_other)
  next
    case (Suc j)
    then have "store_le n (drop_bit 8 v) (a + 1) (m(a := ucast v)) ((a + 1) + of_nat j)
        = ucast (drop_bit (8 * j) (drop_bit 8 v))"
      using Suc.IH[of j] Suc.prems Suc by simp
    then show ?thesis using Suc by (simp add: add.assoc ac_simps)
  qed
qed

lemma load_store_same [simp]: "load_le n (store_le n v a m) a = (v :: 'w::len word)"
  if "LENGTH('w) \<le> 8 * n" and "n \<le> 256"
proof (rule bit_eqI)
  fix k assume "possible_bit TYPE('w word) k"
  then have k: "k < LENGTH('w)" by simp
  then have "k div 8 < n" using that by auto
  then have "store_le n v a m (a + of_nat (k div 8)) = ucast (drop_bit (8 * (k div 8)) v)"
    using that by (simp add: store_le_same)
  then show "bit (load_le n (store_le n v a m) a :: 'w word) k = bit v k"
    using k that by (auto simp: bit_load_le bit_ucast_iff bit_drop_bit_eq)
qed

lemma load_le_cong:
  "(\<And>i. i < n \<Longrightarrow> m (a + of_nat i) = m' (a + of_nat i)) \<Longrightarrow> load_le n m a = load_le n m' a"
proof (induction n arbitrary: a)
  case 0
  then show ?case by simp
next
  case (Suc n)
  have "m a = m' a" using Suc.prems[of 0] by simp
  moreover have "m ((a + 1) + of_nat i) = m' ((a + 1) + of_nat i)" if "i < n" for i
    using Suc.prems[of "Suc i"] that by (simp add: add.assoc)
  ultimately show ?case using Suc.IH[of "a + 1"] by simp
qed

end
