(* ===== verification/Vga.thy ===== *)
theory Vga
  imports Machine
begin

text \<open>
  The text-mode driver, \<^verbatim>\<open>src/kernel/vga.h\<close> and \<^verbatim>\<open>vga.c\<close>. The frame buffer at
  0xB8000 is device memory of 80 x 25 cells of 16 bits; it is an array of its own, not
  part of \<^term>\<open>mem\<close>. The cursor position is a C \<^verbatim>\<open>int\<close> whose value is bounded by
  the invariant \<open>vga_inv\<close>, so no overflow can happen; it is an \<open>int\<close> here. A C
  \<^verbatim>\<open>char\<close> is a byte that comparisons read as signed.
\<close>

section \<open>State\<close>

record vga_state = mach +
  vga_buffer :: "u16 list"
  vga_cursor_x :: int
  vga_cursor_y :: int
  vga_color :: u8

abbreviation VGA_WIDTH :: int where "VGA_WIDTH \<equiv> 80"
abbreviation VGA_HEIGHT :: int where "VGA_HEIGHT \<equiv> 25"
abbreviation VGA_CTRL_PORT :: u16 where "VGA_CTRL_PORT \<equiv> 0x3D4"
abbreviation VGA_DATA_PORT :: u16 where "VGA_DATA_PORT \<equiv> 0x3D5"

datatype vga_color_t =
    VGA_BLACK | VGA_BLUE | VGA_GREEN | VGA_CYAN | VGA_RED | VGA_MAGENTA | VGA_BROWN
  | VGA_LIGHT_GRAY | VGA_DARK_GRAY | VGA_LIGHT_BLUE | VGA_LIGHT_GREEN | VGA_LIGHT_CYAN
  | VGA_LIGHT_RED | VGA_LIGHT_MAGENTA | VGA_YELLOW | VGA_WHITE

fun vga_color_val :: "vga_color_t \<Rightarrow> u32" where
  "vga_color_val VGA_BLACK = 0"
| "vga_color_val VGA_BLUE = 1"
| "vga_color_val VGA_GREEN = 2"
| "vga_color_val VGA_CYAN = 3"
| "vga_color_val VGA_RED = 4"
| "vga_color_val VGA_MAGENTA = 5"
| "vga_color_val VGA_BROWN = 6"
| "vga_color_val VGA_LIGHT_GRAY = 7"
| "vga_color_val VGA_DARK_GRAY = 8"
| "vga_color_val VGA_LIGHT_BLUE = 9"
| "vga_color_val VGA_LIGHT_GREEN = 10"
| "vga_color_val VGA_LIGHT_CYAN = 11"
| "vga_color_val VGA_LIGHT_RED = 12"
| "vga_color_val VGA_LIGHT_MAGENTA = 13"
| "vga_color_val VGA_YELLOW = 14"
| "vga_color_val VGA_WHITE = 15"

definition vga_initial :: "'a vga_state_scheme \<Rightarrow> 'a vga_state_scheme" where
  "vga_initial s = s\<lparr>vga_cursor_x := 0, vga_cursor_y := 0, vga_color := 0x0F\<rparr>"

section \<open>Cells and colours\<close>

definition vga_make_color :: "vga_color_t \<Rightarrow> vga_color_t \<Rightarrow> u8" where
  "vga_make_color fg bg = ucast (vga_color_val fg OR push_bit 4 (vga_color_val bg))"

text \<open>\<^verbatim>\<open>(uint16_t)c\<close> of a signed \<^verbatim>\<open>char\<close> sign-extends.\<close>

definition vga_make_entry :: "u8 \<Rightarrow> u8 \<Rightarrow> u16" where
  "vga_make_entry c color = scast c OR push_bit 8 (ucast color)"

definition vga_set_color :: "vga_color_t \<Rightarrow> vga_color_t \<Rightarrow> 'a vga_state_scheme \<Rightarrow> 'a vga_state_scheme" where
  "vga_set_color fg bg s = s\<lparr>vga_color := vga_make_color fg bg\<rparr>"

definition vga_update_cursor :: "'a vga_state_scheme \<Rightarrow> 'a vga_state_scheme" where
  "vga_update_cursor s =
     (let pos = of_int (vga_cursor_y s * VGA_WIDTH + vga_cursor_x s) :: u16;
          s = outb VGA_CTRL_PORT 0x0F s;
          s = outb VGA_DATA_PORT (ucast (pos AND 0xFF)) s;
          s = outb VGA_CTRL_PORT 0x0E s
      in outb VGA_DATA_PORT (ucast (drop_bit 8 pos AND 0xFF)) s)"

section \<open>Scrolling, clearing, single characters\<close>

definition vga_scroll :: "'a vga_state_scheme \<Rightarrow> 'a vga_state_scheme" where
  "vga_scroll s =
     (let b = for_up ((25 - 1) * 80) 0 (\<lambda>i b. b[i := b ! (i + 80)]) (vga_buffer s);
          blank = vga_make_entry 32 (vga_color s);
          b = for_up 80 ((25 - 1) * 80) (\<lambda>i b. b[i := blank]) b
      in s\<lparr>vga_buffer := b, vga_cursor_y := VGA_HEIGHT - 1\<rparr>)"

text \<open>
  \<^verbatim>\<open>vga_make_entry(' ', VGA_BLACK)\<close> passes the enumerator as the attribute byte.
\<close>

definition vga_clear :: "'a vga_state_scheme \<Rightarrow> 'a vga_state_scheme" where
  "vga_clear s =
     (let b = for_up (80 * 25) 0
                (\<lambda>i b. b[i := vga_make_entry 32 (ucast (vga_color_val VGA_BLACK))])
                (vga_buffer s)
      in vga_update_cursor (s\<lparr>vga_buffer := b, vga_cursor_x := 0, vga_cursor_y := 0\<rparr>))"

definition vga_putchar_at :: "u8 \<Rightarrow> int \<Rightarrow> int \<Rightarrow> u8 \<Rightarrow> 'a vga_state_scheme \<Rightarrow> 'a vga_state_scheme" where
  "vga_putchar_at c x y color s =
     (if 0 \<le> x \<and> x < VGA_WIDTH \<and> 0 \<le> y \<and> y < VGA_HEIGHT
      then s\<lparr>vga_buffer := (vga_buffer s)[nat (y * VGA_WIDTH + x) := vga_make_entry c color]\<rparr>
      else s)"

text \<open>The \<^verbatim>\<open>switch\<close> of \<^verbatim>\<open>vga_putchar\<close>.\<close>

definition vga_put_switch :: "u8 \<Rightarrow> 'a vga_state_scheme \<Rightarrow> 'a vga_state_scheme" where
  "vga_put_switch c s =
     (if c = 10 then s\<lparr>vga_cursor_x := 0, vga_cursor_y := vga_cursor_y s + 1\<rparr>
      else if c = 13 then s\<lparr>vga_cursor_x := 0\<rparr>
      else if c = 9 then s\<lparr>vga_cursor_x := (vga_cursor_x s + 8) AND NOT 7\<rparr>
      else if c = 8 then
        (if vga_cursor_x s > 0
         then let s = s\<lparr>vga_cursor_x := vga_cursor_x s - 1\<rparr>
              in vga_putchar_at 32 (vga_cursor_x s) (vga_cursor_y s) (vga_color s) s
         else s)
      else if sint c \<ge> 32 then
        (let s = vga_putchar_at c (vga_cursor_x s) (vga_cursor_y s) (vga_color s) s
         in s\<lparr>vga_cursor_x := vga_cursor_x s + 1\<rparr>)
      else s)"

definition vga_putchar :: "u8 \<Rightarrow> 'a vga_state_scheme \<Rightarrow> 'a vga_state_scheme" where
  "vga_putchar c s =
     (let s = (if vga_cursor_y s \<ge> VGA_HEIGHT then vga_scroll s else s);
          s = vga_put_switch c s;
          s = (if vga_cursor_x s \<ge> VGA_WIDTH
               then s\<lparr>vga_cursor_x := 0, vga_cursor_y := vga_cursor_y s + 1\<rparr> else s);
          s = (if vga_cursor_y s \<ge> VGA_HEIGHT then vga_scroll s else s)
      in vga_update_cursor s)"

section \<open>Strings and numbers\<close>

fun vga_print :: "u8 list \<Rightarrow> 'a vga_state_scheme \<Rightarrow> 'a vga_state_scheme" where
  "vga_print [] s = s"
| "vga_print (c # str) s = (if c = 0 then s else vga_print str (vga_putchar c s))"

definition vga_println :: "u8 list \<Rightarrow> 'a vga_state_scheme \<Rightarrow> 'a vga_state_scheme" where
  "vga_println str s = vga_putchar 10 (vga_print str s)"

text \<open>
  The buffer of \<^verbatim>\<open>vga_print_hex\<close> holds 19 characters; the loop fills positions 17 down
  to 2. Skipping leading zeros stops before the last digit.
\<close>

definition hex_chars :: "u8 list" where
  "hex_chars = cstr ''0123456789ABCDEF''"

fun hex_fill :: "nat \<Rightarrow> nat \<Rightarrow> u64 \<Rightarrow> u8 list \<Rightarrow> u8 list" where
  "hex_fill 0 i v buf = buf"
| "hex_fill (Suc n) i v buf =
     hex_fill n (i + 1) (drop_bit 4 v) (buf[17 - i := hex_chars ! unat (v AND 0xF)])"

fun hex_skip :: "u8 list \<Rightarrow> u8 list" where
  "hex_skip (a # b # rest) = (if a = 48 \<and> b \<noteq> 0 then hex_skip (b # rest) else a # b # rest)"
| "hex_skip xs = xs"

definition hex_digits :: "u64 \<Rightarrow> u8 list" where
  "hex_digits v =
     (let buf = (replicate 19 0)[0 := 48, 1 := 120, 18 := 0];
          buf = hex_fill 16 0 v buf
      in hex_skip (drop 2 buf))"

definition vga_print_hex :: "u64 \<Rightarrow> 'a vga_state_scheme \<Rightarrow> 'a vga_state_scheme" where
  "vga_print_hex v s = vga_print (hex_digits v) (vga_print (cstr ''0x'') s)"

text \<open>
  \<^verbatim>\<open>vga_print_dec\<close> on a signed 64-bit value; \<^verbatim>\<open>-value\<close> is the wrapping negation. The
  first loop stores the digits, least significant first; the second prints them from
  the last one stored.
\<close>

function dec_fill :: "int \<Rightarrow> u8 list \<Rightarrow> u8 list" where
  "dec_fill v buf = (if v > 0 then dec_fill (v div 10) (buf @ [48 + of_int (v mod 10)]) else buf)"
  by pat_completeness auto
termination
  by (relation "measure (\<lambda>(v, buf). nat v)") auto

declare dec_fill.simps [simp del]

definition vga_print_dec :: "u64 \<Rightarrow> 'a vga_state_scheme \<Rightarrow> 'a vga_state_scheme" where
  "vga_print_dec v s =
     (let (v, s) = (if sint v < 0 then (- v, vga_putchar 45 s) else (v, s))
      in if v = 0 then vga_putchar 48 s
         else fold vga_putchar (rev (dec_fill (sint v) [])) s)"

definition vga_print_colored ::
  "u8 list \<Rightarrow> vga_color_t \<Rightarrow> vga_color_t \<Rightarrow> 'a vga_state_scheme \<Rightarrow> 'a vga_state_scheme" where
  "vga_print_colored str fg bg s =
     (let old_color = vga_color s;
          s = vga_print str (s\<lparr>vga_color := vga_make_color fg bg\<rparr>)
      in s\<lparr>vga_color := old_color\<rparr>)"

section \<open>Closed forms of the screen loops\<close>

lemma for_up_shift:
  "n + k \<le> length b \<Longrightarrow>
   for_up n 0 (\<lambda>i b. b[i := b ! (i + k)]) b = take n (drop k b) @ drop n b"
proof (induction n)
  case 0
  then show ?case by simp
next
  case (Suc n)
  then have IH: "for_up n 0 (\<lambda>i b. b[i := b ! (i + k)]) b = take n (drop k b) @ drop n b"
    by simp
  have len: "length (take n (drop k b)) = n" using Suc.prems by simp
  have "(take n (drop k b) @ drop n b) ! (n + k) = b ! (n + k)"
    using Suc.prems len by (simp add: nth_append)
  moreover have "drop n b = b ! n # drop (Suc n) b"
    using Suc.prems by (simp add: Cons_nth_drop_Suc)
  ultimately show ?case
    using Suc.prems len unfolding for_up_Suc_last
    by (simp add: IH list_update_append take_Suc_conv_app_nth add.commute)
qed

lemma for_up_fill:
  "lo + n \<le> length b \<Longrightarrow>
   for_up n lo (\<lambda>i b. b[i := v]) b = take lo b @ replicate n v @ drop (lo + n) b"
proof (induction n)
  case 0
  then show ?case by simp
next
  case (Suc n)
  then have IH: "for_up n lo (\<lambda>i b. b[i := v]) b = take lo b @ replicate n v @ drop (lo + n) b"
    by simp
  have "drop (lo + n) b = b ! (lo + n) # drop (Suc (lo + n)) b"
    using Suc.prems by (simp add: Cons_nth_drop_Suc)
  then show ?case
    using Suc.prems unfolding for_up_Suc_last
    by (simp add: IH list_update_append min_def replicate_append_same)
qed

lemma vga_scroll_eq:
  assumes "length (vga_buffer s) = 2000"
  shows "vga_scroll s = s\<lparr>vga_buffer := drop 80 (vga_buffer s)
           @ replicate 80 (vga_make_entry 32 (vga_color s)), vga_cursor_y := 24\<rparr>"
proof -
  have "for_up 1920 0 (\<lambda>i b. b[i := b ! (i + 80)]) (vga_buffer s)
      = drop 80 (vga_buffer s) @ drop 1920 (vga_buffer s)"
    using assms by (subst for_up_shift) auto
  then show ?thesis
    using assms by (simp add: vga_scroll_def Let_def for_up_fill)
qed

lemma vga_clear_eq:
  assumes "length (vga_buffer s) = 2000"
  shows "vga_clear s = vga_update_cursor (s\<lparr>vga_buffer := replicate 2000 32,
           vga_cursor_x := 0, vga_cursor_y := 0\<rparr>)"
proof -
  have "for_up 2000 0 (\<lambda>i b. b[i := vga_make_entry 32 0]) (vga_buffer s)
      = replicate 2000 (vga_make_entry 32 0)"
    using assms by (subst for_up_fill) auto
  moreover have "vga_make_entry 32 0 = 32" by (simp add: vga_make_entry_def)
  ultimately show ?thesis by (simp add: vga_clear_def Let_def)
qed

section \<open>The screen invariant\<close>

definition vga_inv :: "'a vga_state_scheme \<Rightarrow> bool" where
  "vga_inv s \<longleftrightarrow> length (vga_buffer s) = 2000 \<and>
     0 \<le> vga_cursor_x s \<and> vga_cursor_x s < VGA_WIDTH \<and>
     0 \<le> vga_cursor_y s \<and> vga_cursor_y s < VGA_HEIGHT"

lemma vga_update_cursor_fields [simp]:
  "vga_buffer (vga_update_cursor s) = vga_buffer s"
  "vga_cursor_x (vga_update_cursor s) = vga_cursor_x s"
  "vga_cursor_y (vga_update_cursor s) = vga_cursor_y s"
  "vga_color (vga_update_cursor s) = vga_color s"
  by (simp_all add: vga_update_cursor_def port_defs Let_def)

lemma tab_stop:
  assumes "0 \<le> (x::int)"
  shows "x < (x + 8) AND NOT 7" and "(x + 8) AND NOT 7 \<le> x + 8"
    and "((x + 8) AND NOT 7) mod 8 = 0"
proof -
  have "(x + 8) AND NOT (mask 3) = push_bit 3 (drop_bit 3 (x + 8))"
    by (rule bit_eqI) (auto simp: bit_simps)
  then have eq: "(x + 8) AND NOT 7 = ((x + 8) div 8) * 8"
    by (simp add: mask_numeral push_bit_eq_mult drop_bit_eq_div)
  show "x < (x + 8) AND NOT 7" "(x + 8) AND NOT 7 \<le> x + 8" "((x + 8) AND NOT 7) mod 8 = 0"
    unfolding eq by (presburger | simp)+
qed

lemma vga_putchar_inv [inv_intros]:
  assumes "vga_inv s"
  shows "vga_inv (vga_putchar c s)"
proof -
  let ?t = "vga_put_switch c s"
  have t: "length (vga_buffer ?t) = 2000" "0 \<le> vga_cursor_x ?t" "0 \<le> vga_cursor_y ?t"
      "vga_cursor_y ?t \<le> 25" "vga_cursor_x ?t < 80 \<or> vga_cursor_y ?t < 25"
    using assms tab_stop[of "vga_cursor_x s"]
    by (auto simp: vga_inv_def vga_put_switch_def vga_putchar_at_def Let_def)
  have "\<not> vga_cursor_y s \<ge> VGA_HEIGHT" using assms by (simp add: vga_inv_def)
  with t show ?thesis
    by (auto simp: vga_inv_def vga_putchar_def Let_def vga_scroll_eq)
qed

section \<open>Output goes to the screen only\<close>

text \<open>
  \<open>vga_only s t\<close>: from \<open>s\<close> to \<open>t\<close> only the screen fields changed, and the only
  hardware events are writes to the two cursor ports. Every other component derives
  from it that printing leaves its own fields alone.
\<close>

fun vga_event :: "hw_event \<Rightarrow> bool" where
  "vga_event (OutB port v) \<longleftrightarrow> port = VGA_CTRL_PORT \<or> port = VGA_DATA_PORT"
| "vga_event _ \<longleftrightarrow> False"

definition vga_only :: "'a vga_state_scheme \<Rightarrow> 'a vga_state_scheme \<Rightarrow> bool" where
  "vga_only s t \<longleftrightarrow> (\<exists>es. list_all vga_event es \<and> hw_trace t = hw_trace s @ es) \<and>
     t = s\<lparr>hw_trace := hw_trace t, vga_buffer := vga_buffer t,
           vga_cursor_x := vga_cursor_x t, vga_cursor_y := vga_cursor_y t,
           vga_color := vga_color t\<rparr>"

lemma vga_onlyI:
  "list_all vga_event es \<Longrightarrow> hw_trace t = hw_trace s @ es \<Longrightarrow>
   t = s\<lparr>hw_trace := hw_trace t, vga_buffer := vga_buffer t, vga_cursor_x := vga_cursor_x t,
         vga_cursor_y := vga_cursor_y t, vga_color := vga_color t\<rparr> \<Longrightarrow> vga_only s t"
  unfolding vga_only_def by blast

lemma vga_onlyE:
  assumes "vga_only s t"
  obtains b x y c es where "list_all vga_event es"
    and "t = s\<lparr>hw_trace := hw_trace s @ es, vga_buffer := b, vga_cursor_x := x,
           vga_cursor_y := y, vga_color := c\<rparr>"
  using assms unfolding vga_only_def by metis

lemma vga_only_refl [simp, intro]: "vga_only s s"
  by (rule vga_onlyI[where es = "[]"]) simp_all

lemma vga_only_trans [trans]:
  assumes "vga_only s t" and "vga_only t u"
  shows "vga_only s u"
proof -
  obtain b x y c es where 1: "list_all vga_event es"
    "t = s\<lparr>hw_trace := hw_trace s @ es, vga_buffer := b, vga_cursor_x := x,
           vga_cursor_y := y, vga_color := c\<rparr>"
    using assms(1) by (rule vga_onlyE)
  obtain b' x' y' c' es' where 2: "list_all vga_event es'"
    "u = t\<lparr>hw_trace := hw_trace t @ es', vga_buffer := b', vga_cursor_x := x',
           vga_cursor_y := y', vga_color := c'\<rparr>"
    using assms(2) by (rule vga_onlyE)
  show ?thesis
    by (rule vga_onlyI[where es = "es @ es'"]) (use 1 2 in simp_all)
qed

lemma vga_only_update [simp]:
  "vga_only s (s\<lparr>vga_buffer := b\<rparr>)"
  "vga_only s (s\<lparr>vga_cursor_x := x\<rparr>)"
  "vga_only s (s\<lparr>vga_cursor_y := y\<rparr>)"
  "vga_only s (s\<lparr>vga_color := c\<rparr>)"
  "vga_only s (s\<lparr>vga_cursor_x := x, vga_cursor_y := y\<rparr>)"
  "vga_only s (s\<lparr>vga_buffer := b, vga_cursor_x := x\<rparr>)"
  "vga_only s (s\<lparr>vga_cursor_x := x, vga_buffer := b\<rparr>)"
  "vga_only s (s\<lparr>vga_buffer := b, vga_cursor_y := y\<rparr>)"
  "vga_only s (s\<lparr>vga_buffer := b, vga_cursor_x := x, vga_cursor_y := y\<rparr>)"
  by (rule vga_onlyI[where es = "[]"]; simp)+

lemma vga_only_update_cursor [simp]: "vga_only s (vga_update_cursor s)"
  unfolding vga_only_def
  by (auto simp: vga_update_cursor_def port_defs Let_def)

lemma vga_only_scroll [simp]: "vga_only s (vga_scroll s)"
  by (simp add: vga_scroll_def Let_def)

lemma vga_only_put_switch [simp]: "vga_only s (vga_put_switch c s)"
  unfolding vga_put_switch_def vga_putchar_at_def Let_def
  by auto

lemma vga_only_putchar [simp]: "vga_only s (vga_putchar c s)"
proof -
  define t where "t = (if vga_cursor_y s \<ge> VGA_HEIGHT then vga_scroll s else s)"
  define u where "u = vga_put_switch c t"
  define v where "v = (if vga_cursor_x u \<ge> VGA_WIDTH
      then u\<lparr>vga_cursor_x := 0, vga_cursor_y := vga_cursor_y u + 1\<rparr> else u)"
  define w where "w = (if vga_cursor_y v \<ge> VGA_HEIGHT then vga_scroll v else v)"
  have "vga_only s t" by (simp add: t_def)
  also have "vga_only t u" by (simp add: u_def)
  also have "vga_only u v"
    by (simp add: v_def)
  also have "vga_only v w" by (simp add: w_def)
  also have "vga_only w (vga_update_cursor w)" by simp
  finally show ?thesis
    by (simp only: vga_putchar_def Let_def t_def u_def v_def w_def)
qed

section \<open>Lifting character facts to strings\<close>

text \<open>
  What every character output preserves, string output preserves: the client of this
  interface is every printing routine.
\<close>

locale char_sink =
  fixes put :: "u8 \<Rightarrow> 's \<Rightarrow> 's" and keeps :: "'s \<Rightarrow> 's \<Rightarrow> bool"
  assumes keeps_refl: "keeps s s"
    and keeps_trans: "keeps s t \<Longrightarrow> keeps t u \<Longrightarrow> keeps s u"
    and keeps_put: "keeps s (put c s)"
begin

lemma keeps_fold: "keeps s (fold put cs s)"
proof (induction cs arbitrary: s)
  case Nil
  show ?case by (simp add: keeps_refl)
next
  case (Cons c cs)
  show ?case using keeps_trans[OF keeps_put Cons.IH] by simp
qed

lemma keeps_fold_after: "keeps s t \<Longrightarrow> keeps s (fold put cs t)"
  using keeps_fold keeps_trans by blast

end

interpretation vga_screen: char_sink vga_putchar "\<lambda>s t. vga_inv s \<longrightarrow> vga_inv t"
  by unfold_locales (auto intro: vga_putchar_inv)

interpretation vga_frame: char_sink vga_putchar vga_only
  by unfold_locales (auto intro: vga_only_trans)

lemma vga_print_fold: "vga_print cs s = fold vga_putchar (takeWhile (\<lambda>c. c \<noteq> 0) cs) s"
  by (induction cs arbitrary: s) simp_all

lemma vga_print_append:
  "0 \<notin> set xs \<Longrightarrow> vga_print (xs @ ys) s = vga_print ys (vga_print xs s)"
  by (induction xs arbitrary: s) auto

lemma vga_only_print [simp]: "vga_only s (vga_print cs s)"
  by (simp add: vga_print_fold vga_frame.keeps_fold)

lemma vga_only_println [simp]: "vga_only s (vga_println cs s)"
  unfolding vga_println_def by (rule vga_only_trans[OF vga_only_print vga_only_putchar])

lemma vga_only_set_color [simp]: "vga_only s (vga_set_color fg bg s)"
  by (simp add: vga_set_color_def)

lemma vga_only_clear [simp]: "vga_only s (vga_clear s)"
  unfolding vga_clear_def Let_def by (rule vga_only_trans[OF _ vga_only_update_cursor]) simp

lemma vga_only_print_hex [simp]: "vga_only s (vga_print_hex v s)"
  unfolding vga_print_hex_def by (rule vga_only_trans[OF vga_only_print vga_only_print])

lemma vga_only_print_dec [simp]: "vga_only s (vga_print_dec v s)"
  unfolding vga_print_dec_def
  by (auto simp: Let_def intro: vga_frame.keeps_fold_after vga_only_trans)

lemma vga_only_print_colored [simp]: "vga_only s (vga_print_colored cs fg bg s)"
  unfolding vga_print_colored_def Let_def
  by (rule vga_only_trans[OF vga_only_update(4)],
      rule vga_only_trans[OF vga_only_print vga_only_update(4)])

lemma vga_inv_print [inv_intros]: "vga_inv s \<Longrightarrow> vga_inv (vga_print cs s)"
  using vga_screen.keeps_fold[of s] by (simp add: vga_print_fold)

lemma vga_inv_println [inv_intros]: "vga_inv s \<Longrightarrow> vga_inv (vga_println cs s)"
  by (simp add: vga_println_def vga_inv_print vga_putchar_inv)

lemma vga_inv_set_color [inv_intros]: "vga_inv s \<Longrightarrow> vga_inv (vga_set_color fg bg s)"
  by (simp add: vga_set_color_def vga_inv_def)

lemma vga_inv_color_field: "vga_inv (s\<lparr>vga_color := c\<rparr>) = vga_inv s"
  by (simp add: vga_inv_def)

lemma vga_inv_clear [inv_intros]:
  "length (vga_buffer s) = 2000 \<Longrightarrow> vga_inv (vga_clear s)"
  by (simp add: vga_clear_eq vga_inv_def)

lemma vga_inv_print_hex [inv_intros]: "vga_inv s \<Longrightarrow> vga_inv (vga_print_hex v s)"
  by (simp add: vga_print_hex_def vga_inv_print)

lemma vga_inv_print_dec [inv_intros]: "vga_inv s \<Longrightarrow> vga_inv (vga_print_dec v s)"
  using vga_screen.keeps_fold[of s] vga_screen.keeps_fold[of "vga_putchar 45 s"]
  by (auto simp: vga_print_dec_def Let_def vga_putchar_inv)

lemma vga_inv_print_colored [inv_intros]:
  "vga_inv s \<Longrightarrow> vga_inv (vga_print_colored cs fg bg s)"
  by (simp add: vga_print_colored_def Let_def vga_inv_color_field vga_inv_print)

end
