(* ===== verification/VgaSpec.thy ===== *)
theory VgaSpec
  imports Vga
begin

text \<open>
  What the text driver promises. The screen is the last 25 lines of an unbounded
  transcript (a refinement: scrolling is invisible in the transcript), and the number
  printers show the number: their digits read back to the value, without leading zeros.
\<close>

section \<open>The transcript\<close>

text \<open>
  The abstract terminal keeps every line ever written, as cells in reading order; the
  cursor row counts from the first line. A line is appended, blank in the current
  colour, when the cursor moves below the last one.
\<close>

record transcript =
  cells :: "u16 list"
  col :: nat
  row :: nat

definition tr_newline :: "u8 \<Rightarrow> transcript \<Rightarrow> transcript" where
  "tr_newline color t = t\<lparr>col := 0, row := row t + 1,
     cells := (if (row t + 1) * 80 < length (cells t) then cells t
               else cells t @ replicate 80 (vga_make_entry 32 color))\<rparr>"

definition tr_write :: "u8 \<Rightarrow> u8 \<Rightarrow> transcript \<Rightarrow> transcript" where
  "tr_write color c t = t\<lparr>cells := (cells t)[row t * 80 + col t := vga_make_entry c color]\<rparr>"

definition tr_put :: "u8 \<Rightarrow> u8 \<Rightarrow> transcript \<Rightarrow> transcript" where
  "tr_put color c t =
     (if c = 10 then tr_newline color t
      else if c = 13 then t\<lparr>col := 0\<rparr>
      else if c = 9 then
        (if col t < 72 then t\<lparr>col := 8 * (col t div 8 + 1)\<rparr> else tr_newline color t)
      else if c = 8 then
        (if col t = 0 then t else tr_write color 32 (t\<lparr>col := col t - 1\<rparr>))
      else if 32 \<le> c \<and> c < 128 then
        (if col t < 79 then (tr_write color c t)\<lparr>col := col t + 1\<rparr>
         else tr_newline color (tr_write color c t))
      else t)"

text \<open>The screen shows the last 25 lines of the transcript.\<close>

definition screen_shows :: "'a vga_state_scheme \<Rightarrow> transcript \<Rightarrow> bool" where
  "screen_shows s t \<longleftrightarrow> (\<exists>top. length (cells t) = (top + 25) * 80 \<and>
     vga_buffer s = drop (top * 80) (cells t) \<and>
     vga_cursor_x s = int (col t) \<and> col t < 80 \<and>
     top \<le> row t \<and> row t < top + 25 \<and> vga_cursor_y s = int (row t - top))"

lemma screen_shows_inv: "screen_shows s t \<Longrightarrow> vga_inv s"
  by (auto simp: screen_shows_def vga_inv_def)

lemma printable_signed: "sint (c :: u8) \<ge> 32 \<longleftrightarrow> 32 \<le> c \<and> c < 128"
proof -
  have "uint c < 256" using unsigned_less[of c] by simp
  then show ?thesis by (simp add: sint_u8 word_le_def word_less_def)
qed

lemma tab_stop_eq:
  "(int x + 8) AND NOT 7 = int (8 * (x div 8 + 1))"
proof -
  have "(int x + 8) AND NOT (mask 3) = push_bit 3 (drop_bit 3 (int x + 8))"
    by (rule bit_eqI) (auto simp: bit_simps)
  then have "(int x + 8) AND NOT 7 = ((int x + 8) div 8) * 8"
    by (simp add: mask_numeral push_bit_eq_mult drop_bit_eq_div)
  moreover have "(int x + 8) div 8 = int (x div 8 + 1)" by (simp add: zdiv_int)
  ultimately show ?thesis by simp
qed

lemma drop_list_update_ge: "n \<le> i \<Longrightarrow> (drop n xs)[i - n := v] = drop n (xs[i := v])"
  by (simp add: drop_update_swap)

text \<open>Writing a cell under the cursor is the same write in the transcript.\<close>

lemma screen_shows_write:
  assumes "screen_shows s t"
  shows "screen_shows (vga_putchar_at c (vga_cursor_x s) (vga_cursor_y s) (vga_color s) s)
           (tr_write (vga_color s) c t)"
proof -
  obtain top where t: "length (cells t) = (top + 25) * 80"
      "vga_buffer s = drop (top * 80) (cells t)"
      "vga_cursor_x s = int (col t)" "col t < 80" "top \<le> row t" "row t < top + 25"
      "vga_cursor_y s = int (row t - top)"
    using assms by (auto simp: screen_shows_def)
  have "nat (vga_cursor_y s * 80 + vga_cursor_x s) = (row t * 80 + col t) - top * 80"
    using t by (simp add: nat_add_distrib nat_mult_distrib diff_mult_distrib)
  moreover have "top * 80 \<le> row t * 80 + col t" using t by (simp add: trans_le_add1)
  ultimately show ?thesis
    using t unfolding screen_shows_def
    by (intro exI[of _ top]) (simp add: vga_putchar_at_def tr_write_def drop_list_update_ge)
qed

text \<open>The line-break step at the end of \<^verbatim>\<open>vga_putchar\<close>, scrolling when it leaves the screen.\<close>

lemma screen_shows_newline:
  assumes "screen_shows s t"
  shows "screen_shows
      (if vga_cursor_y s + 1 \<ge> VGA_HEIGHT
       then vga_scroll (s\<lparr>vga_cursor_x := 0, vga_cursor_y := vga_cursor_y s + 1\<rparr>)
       else s\<lparr>vga_cursor_x := 0, vga_cursor_y := vga_cursor_y s + 1\<rparr>)
      (tr_newline (vga_color s) t)"
proof -
  obtain top where t: "length (cells t) = (top + 25) * 80"
      "vga_buffer s = drop (top * 80) (cells t)"
      "vga_cursor_x s = int (col t)" "col t < 80" "top \<le> row t" "row t < top + 25"
      "vga_cursor_y s = int (row t - top)"
    using assms by (auto simp: screen_shows_def)
  show ?thesis
  proof (cases "row t + 1 < top + 25")
    case True
    then have "(row t + 1) * 80 < length (cells t)" unfolding t by simp
    with True t show ?thesis unfolding screen_shows_def
      by (intro exI[of _ top]) (auto simp: tr_newline_def)
  next
    case False
    then have r: "row t = top + 24" using t by simp
    then have "\<not> (row t + 1) * 80 < length (cells t)" unfolding t by simp
    with r t show ?thesis unfolding screen_shows_def
      by (intro exI[of _ "top + 1"])
        (simp add: tr_newline_def vga_scroll_eq add.commute[of 80])
  qed
qed

lemma screen_shows_x:
  "screen_shows s t \<Longrightarrow> n < 80 \<Longrightarrow>
   screen_shows (s\<lparr>vga_cursor_x := int n\<rparr>) (t\<lparr>col := n\<rparr>)"
  unfolding screen_shows_def by auto

lemma screen_shows_update_cursor:
  "screen_shows (vga_update_cursor s) t = screen_shows s t"
  by (simp add: screen_shows_def)

lemma vga_putchar_stay:
  assumes "vga_cursor_y s < 25" and "vga_cursor_x (vga_put_switch c s) < 80"
    and "vga_cursor_y (vga_put_switch c s) < 25"
  shows "vga_putchar c s = vga_update_cursor (vga_put_switch c s)"
  using assms by (simp add: vga_putchar_def Let_def)

lemma vga_putchar_wrap:
  assumes "vga_cursor_y s < 25" and "vga_put_switch c s = u\<lparr>vga_cursor_x := x\<rparr>"
    and "80 \<le> x" and "u = s \<or> u = vga_putchar_at c (vga_cursor_x s) (vga_cursor_y s) (vga_color s) s"
  shows "vga_putchar c s = vga_update_cursor
      (if vga_cursor_y u + 1 \<ge> VGA_HEIGHT
       then vga_scroll (u\<lparr>vga_cursor_x := 0, vga_cursor_y := vga_cursor_y u + 1\<rparr>)
       else u\<lparr>vga_cursor_x := 0, vga_cursor_y := vga_cursor_y u + 1\<rparr>)"
  using assms by (auto simp: vga_putchar_def Let_def vga_putchar_at_def)

lemma screen_shows_put_printable:
  assumes sh: "screen_shows s t" and c: "32 \<le> c" "c < 128"
  shows "screen_shows (vga_putchar c s) (tr_put (vga_color s) c t)"
proof -
  let ?u = "vga_putchar_at c (vga_cursor_x s) (vga_cursor_y s) (vga_color s) s"
  have u: "screen_shows ?u (tr_write (vga_color s) c t)"
    using sh by (rule screen_shows_write)
  have ne: "c \<noteq> 10" "c \<noteq> 13" "c \<noteq> 9" "c \<noteq> 8" using c by auto
  have sw: "vga_put_switch c s = ?u\<lparr>vga_cursor_x := vga_cursor_x s + 1\<rparr>"
    using c ne by (simp add: vga_put_switch_def Let_def printable_signed vga_putchar_at_def)
  have y: "vga_cursor_y s < 25" and x: "vga_cursor_x s = int (col t)" "col t < 80"
    using sh by (auto simp: screen_shows_def)
  have uy: "vga_cursor_y ?u = vga_cursor_y s" "vga_color ?u = vga_color s"
    by (simp_all add: vga_putchar_at_def)
  show ?thesis
  proof (cases "col t < 79")
    case True
    then have "vga_putchar c s = vga_update_cursor (?u\<lparr>vga_cursor_x := int (col t + 1)\<rparr>)"
      using x y sw uy by (subst vga_putchar_stay) (simp_all add: add.commute)
    moreover have "screen_shows (?u\<lparr>vga_cursor_x := int (col t + 1)\<rparr>)
        ((tr_write (vga_color s) c t)\<lparr>col := col t + 1\<rparr>)"
      using True by (intro screen_shows_x u) simp
    ultimately show ?thesis
      using True c ne by (simp add: tr_put_def screen_shows_update_cursor)
  next
    case False
    then have "80 \<le> vga_cursor_x s + 1" using x by simp
    then have "vga_putchar c s = vga_update_cursor
      (if vga_cursor_y ?u + 1 \<ge> VGA_HEIGHT
       then vga_scroll (?u\<lparr>vga_cursor_x := 0, vga_cursor_y := vga_cursor_y ?u + 1\<rparr>)
       else ?u\<lparr>vga_cursor_x := 0, vga_cursor_y := vga_cursor_y ?u + 1\<rparr>)"
      using y sw by (intro vga_putchar_wrap) auto
    then show ?thesis
      using False c ne screen_shows_newline[OF u] uy
      by (simp only: tr_put_def screen_shows_update_cursor) simp
  qed
qed

lemma screen_shows_put_newline:
  assumes sh: "screen_shows s t"
  shows "screen_shows (vga_putchar 10 s) (tr_put (vga_color s) 10 t)"
proof -
  have "vga_cursor_y s < 25" using sh by (auto simp: screen_shows_def)
  then have "vga_putchar 10 s = vga_update_cursor
      (if vga_cursor_y s + 1 \<ge> VGA_HEIGHT
       then vga_scroll (s\<lparr>vga_cursor_x := 0, vga_cursor_y := vga_cursor_y s + 1\<rparr>)
       else s\<lparr>vga_cursor_x := 0, vga_cursor_y := vga_cursor_y s + 1\<rparr>)"
    by (simp add: vga_putchar_def vga_put_switch_def Let_def)
  then show ?thesis
    using screen_shows_newline[OF sh] by (simp only: tr_put_def screen_shows_update_cursor) simp
qed

lemma screen_shows_put_tab:
  assumes sh: "screen_shows s t"
  shows "screen_shows (vga_putchar 9 s) (tr_put (vga_color s) 9 t)"
proof -
  define n where "n = 8 * (col t div 8 + 1)"
  have y: "vga_cursor_y s < 25" and x: "vga_cursor_x s = int (col t)"
    using sh by (auto simp: screen_shows_def)
  have sw: "vga_put_switch 9 s = s\<lparr>vga_cursor_x := int n\<rparr>"
    using x tab_stop_eq[of "col t"] by (simp add: vga_put_switch_def n_def)
  show ?thesis
  proof (cases "col t < 72")
    case True
    then have n: "n < 80" unfolding n_def by simp
    have "vga_putchar 9 s = vga_update_cursor (s\<lparr>vga_cursor_x := int n\<rparr>)"
      using y n sw by (subst vga_putchar_stay) simp_all
    then show ?thesis
      using True screen_shows_x[OF sh n] by (simp add: tr_put_def screen_shows_update_cursor n_def)
  next
    case False
    then have "80 \<le> int n" by (simp add: n_def)
    with sw have "vga_putchar 9 s = vga_update_cursor
      (if vga_cursor_y s + 1 \<ge> VGA_HEIGHT
       then vga_scroll (s\<lparr>vga_cursor_x := 0, vga_cursor_y := vga_cursor_y s + 1\<rparr>)
       else s\<lparr>vga_cursor_x := 0, vga_cursor_y := vga_cursor_y s + 1\<rparr>)"
      using y by (intro vga_putchar_wrap) auto
    then show ?thesis
      using False screen_shows_newline[OF sh]
      by (simp only: tr_put_def screen_shows_update_cursor) simp
  qed
qed

lemma screen_shows_put_backspace:
  assumes sh: "screen_shows s t"
  shows "screen_shows (vga_putchar 8 s) (tr_put (vga_color s) 8 t)"
proof (cases "col t = 0")
  case True
  then have "vga_putchar 8 s = vga_update_cursor s"
    using sh by (subst vga_putchar_stay) (auto simp: vga_put_switch_def screen_shows_def)
  then show ?thesis using True sh by (simp add: tr_put_def screen_shows_update_cursor)
next
  case False
  let ?s = "s\<lparr>vga_cursor_x := int (col t - 1)\<rparr>"
  let ?t = "t\<lparr>col := col t - 1\<rparr>"
  have x: "vga_cursor_x s = int (col t)" "col t < 80" and y: "vga_cursor_y s < 25"
    using sh by (auto simp: screen_shows_def)
  then have "vga_cursor_x s - 1 = int (col t - 1)" "0 < vga_cursor_x s"
    using False by simp_all
  then have "vga_put_switch 8 s
      = vga_putchar_at 32 (vga_cursor_x ?s) (vga_cursor_y ?s) (vga_color ?s) ?s"
    by (simp add: vga_put_switch_def Let_def)
  moreover have "vga_cursor_x (vga_putchar_at c x' y' k ?s) < 80"
      "vga_cursor_y (vga_putchar_at c x' y' k ?s) < 25" for c x' y' k
    using x y by (auto simp: vga_putchar_at_def)
  ultimately have "vga_putchar 8 s = vga_update_cursor
      (vga_putchar_at 32 (vga_cursor_x ?s) (vga_cursor_y ?s) (vga_color ?s) ?s)"
    using y by (metis vga_putchar_stay)
  moreover have "screen_shows ?s ?t" using x by (intro screen_shows_x sh) simp
  then have "screen_shows (vga_putchar_at 32 (vga_cursor_x ?s) (vga_cursor_y ?s) (vga_color ?s) ?s)
      (tr_write (vga_color ?s) 32 ?t)"
    by (rule screen_shows_write)
  ultimately show ?thesis using False by (simp add: tr_put_def screen_shows_update_cursor)
qed

text \<open>
  The driver implements the transcript: after any character the screen shows the last
  25 lines of the transcript with the character added.
\<close>

lemma vga_putchar_transcript:
  assumes sh: "screen_shows s t"
  shows "screen_shows (vga_putchar c s) (tr_put (vga_color s) c t)"
proof -
  have y: "vga_cursor_y s < 25" and x: "vga_cursor_x s < 80"
    using sh by (auto simp: screen_shows_def)
  consider "c = 10" | "c = 13" | "c = 9" | "c = 8" | "32 \<le> c" "c < 128"
    | "c \<noteq> 10" "c \<noteq> 13" "c \<noteq> 9" "c \<noteq> 8" "\<not> (32 \<le> c \<and> c < 128)"
    by fastforce
  then show ?thesis
  proof cases
    case 1
    then show ?thesis using screen_shows_put_newline[OF sh] by simp
  next
    case 2
    then have "vga_putchar c s = vga_update_cursor (s\<lparr>vga_cursor_x := int 0\<rparr>)"
      using y by (subst vga_putchar_stay) (simp_all add: vga_put_switch_def)
    then show ?thesis
      using 2 screen_shows_x[OF sh, of 0] by (simp add: tr_put_def screen_shows_update_cursor)
  next
    case 3
    then show ?thesis using screen_shows_put_tab[OF sh] by simp
  next
    case 4
    then show ?thesis using screen_shows_put_backspace[OF sh] by simp
  next
    case 5
    with sh show ?thesis by (rule screen_shows_put_printable)
  next
    case 6
    then have "vga_putchar c s = vga_update_cursor s"
      using x y by (subst vga_putchar_stay) (auto simp: vga_put_switch_def printable_signed)
    moreover have "tr_put (vga_color s) c t = t" using 6 unfolding tr_put_def by auto
    ultimately show ?thesis using sh by (simp add: screen_shows_update_cursor)
  qed
qed

lemma vga_putchar_color [simp]: "vga_color (vga_putchar c s) = vga_color s"
  by (simp add: vga_putchar_def vga_put_switch_def vga_putchar_at_def vga_scroll_def Let_def)

lemma fold_putchar_color [simp]: "vga_color (fold vga_putchar cs s) = vga_color s"
  by (induction cs arbitrary: s) simp_all

lemma vga_print_color [simp]: "vga_color (vga_print cs s) = vga_color s"
  by (simp add: vga_print_fold)

lemma fold_putchar_transcript:
  "screen_shows s t \<Longrightarrow>
   screen_shows (fold vga_putchar cs s) (fold (tr_put (vga_color s)) cs t)"
proof (induction cs arbitrary: s t)
  case Nil
  then show ?case by simp
next
  case (Cons c cs)
  then show ?case using Cons.IH[OF vga_putchar_transcript[OF Cons.prems]] by simp
qed

section \<open>Printing numbers\<close>

text \<open>The decimal numeral of a number, and reading one back.\<close>

fun dec_string :: "nat \<Rightarrow> u8 list" where
  "dec_string n = (if n < 10 then [48 + of_nat n]
                   else dec_string (n div 10) @ [48 + of_nat (n mod 10)])"

declare dec_string.simps [simp del]

definition read_dec :: "u8 list \<Rightarrow> nat" where
  "read_dec ds = foldl (\<lambda>a d. 10 * a + (unat d - 48)) 0 ds"

lemma unat_digit: "d < 10 \<Longrightarrow> unat (48 + of_nat d :: u8) = 48 + d"
  by (simp add: unat_word_ariths unat_of_nat)

lemma read_dec_string: "read_dec (dec_string n) = n"
proof (induction n rule: dec_string.induct)
  case (1 n)
  show ?case
  proof (cases "n < 10")
    case True
    then show ?thesis
      by (simp add: dec_string.simps[of n] read_dec_def unat_digit)
  next
    case False
    then have "read_dec (dec_string (n div 10)) = n div 10" using 1 by simp
    then show ?thesis
      using False by (simp add: dec_string.simps[of n] read_dec_def unat_digit)
  qed
qed

lemma dec_string_digits: "c \<in> set (dec_string n) \<Longrightarrow> 48 \<le> unat c \<and> unat c < 58"
proof (induction n rule: dec_string.induct)
  case (1 n)
  show ?case
  proof (cases "n < 10")
    case True
    then show ?thesis using 1 by (simp add: dec_string.simps[of n] unat_digit)
  next
    case False
    then have "c \<in> set (dec_string (n div 10)) \<or> c = 48 + of_nat (n mod 10)"
      using 1(2) by (auto simp: dec_string.simps[of n])
    then show ?thesis using 1(1)[OF False] by (auto simp: unat_digit)
  qed
qed

lemma dec_string_no_leading_zero: "0 < n \<Longrightarrow> hd (dec_string n) \<noteq> 48"
proof (induction n rule: dec_string.induct)
  case (1 n)
  show ?case
  proof (cases "n < 10")
    case True
    then have "unat (48 + of_nat n :: u8) \<noteq> 48" using 1 by (simp add: unat_digit)
    then show ?thesis using True by (auto simp: dec_string.simps[of n])
  next
    case False
    have "dec_string (n div 10) \<noteq> []" by (subst dec_string.simps) simp
    then show ?thesis using False 1 by (simp add: dec_string.simps[of n])
  qed
qed

lemma length_dec_string: "n < 10 ^ Suc k \<Longrightarrow> length (dec_string n) \<le> Suc k"
proof (induction k arbitrary: n)
  case 0
  then show ?case by (simp add: dec_string.simps[of n])
next
  case (Suc k)
  show ?case
  proof (cases "n < 10")
    case True
    then show ?thesis by (simp add: dec_string.simps[of n])
  next
    case False
    have "n div 10 < 10 ^ Suc k" using Suc.prems by (simp add: less_mult_imp_div_less)
    then show ?thesis using Suc.IH[of "n div 10"] False by (simp add: dec_string.simps[of n])
  qed
qed

text \<open>The digit loop of the driver stores the numeral backwards.\<close>

lemma dec_fill_eq: "dec_fill (int (Suc n)) buf = buf @ rev (dec_string (Suc n))"
proof (induction "Suc n" arbitrary: n buf rule: less_induct)
  case (less n)
  let ?d = "48 + of_int (int (Suc n) mod 10) :: u8"
  have step: "dec_fill (int (Suc n)) buf = dec_fill (int (Suc n div 10)) (buf @ [?d])"
    by (subst dec_fill.simps) (simp add: zdiv_int)
  have d: "?d = 48 + of_nat (Suc n mod 10)"
    by (metis of_int_of_nat_eq of_nat_mod of_nat_numeral)
  show ?case
  proof (cases "Suc n < 10")
    case True
    then have "dec_fill (int (Suc n div 10)) (buf @ [?d]) = buf @ [?d]"
      by (subst dec_fill.simps) simp
    then show ?thesis using True step d by (simp add: dec_string.simps[of "Suc n"])
  next
    case False
    then obtain m where m: "Suc n div 10 = Suc m" by (cases "Suc n div 10") auto
    then have "dec_fill (int (Suc m)) (buf @ [?d]) = (buf @ [?d]) @ rev (dec_string (Suc m))"
      by (intro less) (metis div_less_dividend one_less_numeral_iff semiring_norm(76) zero_less_Suc)
    then show ?thesis using False step d m by (simp add: dec_string.simps[of "Suc n"])
  qed
qed

lemma uint_minus_u64: "(v :: u64) \<noteq> 0 \<Longrightarrow> uint (- v) = 18446744073709551616 - uint v"
proof -
  assume "v \<noteq> 0"
  then have "uint v \<noteq> 0" by (simp add: unsigned_eq_0_iff)
  then have "0 < uint v" by (simp add: order_less_le)
  moreover have "uint v < 18446744073709551616" using unsigned_less[of v] by simp
  moreover have "uint (- v) = (- uint v) mod 18446744073709551616"
    by (simp add: uint_word_ariths)
  ultimately show ?thesis by (simp add: zmod_zminus1_eq_if)
qed

lemma sint_minus_u64:
  assumes "sint (v :: u64) < 0" and "sint v \<noteq> - 9223372036854775808"
  shows "sint (- v) = - sint v" and "0 < sint (- v)"
proof -
  have "v \<noteq> 0" using assms(1) by auto
  then show "sint (- v) = - sint v"
    using assms by (simp add: sint_u64 uint_minus_u64 split: if_splits)
  then show "0 < sint (- v)" using assms(1) by simp
qed

definition dec_text :: "u64 \<Rightarrow> u8 list" where
  "dec_text v = (if sint v < 0 then [45] else []) @ dec_string (nat \<bar>sint v\<bar>)"

lemma no_nul_dec_string: "0 \<notin> set (dec_string n)"
  using dec_string_digits by fastforce

lemma takeWhile_no_nul: "0 \<notin> set xs \<Longrightarrow> takeWhile (\<lambda>c. c \<noteq> (0::u8)) xs = xs"
  by (simp add: takeWhile_eq_all_conv) blast

lemma fold_dec_fill:
  "0 < sint v \<Longrightarrow>
   fold vga_putchar (rev (dec_fill (sint v) [])) s = vga_print (dec_string (nat (sint v))) s"
proof -
  assume "0 < sint v"
  then obtain n where "sint v = int (Suc n)" by (metis Suc_pred pos_int_cases zero_less_Suc)
  then show ?thesis
    using no_nul_dec_string[of "Suc n"]
    by (simp add: dec_fill_eq vga_print_fold takeWhile_no_nul del: of_nat_Suc)
qed

lemma vga_print_dec_text:
  assumes "sint v \<noteq> - 9223372036854775808"
  shows "vga_print_dec v s = vga_print (dec_text v) s"
proof (cases "sint v < 0")
  case True
  then have "- v \<noteq> 0" by auto
  then show ?thesis
    using True sint_minus_u64[OF True assms] fold_dec_fill[of "- v"]
    by (simp add: vga_print_dec_def dec_text_def)
next
  case False
  show ?thesis
  proof (cases "v = 0")
    case True
    then show ?thesis
      by (simp add: vga_print_dec_def dec_text_def dec_string.simps[of 0])
  next
    case nz: False
    then have "0 < sint v"
      using False by (metis antisym_conv3 not_less signed_eq_0_iff)
    then show ?thesis
      using nz fold_dec_fill[of v] by (simp add: vga_print_dec_def dec_text_def)
  qed
qed

text \<open>
  Reading a hexadecimal numeral; the digit loop fills sixteen positions from the right.
\<close>

definition hex_digit_val :: "u8 \<Rightarrow> nat" where
  "hex_digit_val c = (if c < 65 then unat c - 48 else unat c - 55)"

definition read_hex :: "u8 list \<Rightarrow> nat" where
  "read_hex ds = foldl (\<lambda>a d. 16 * a + hex_digit_val d) 0 ds"

definition hex_digit :: "nat \<Rightarrow> u8" where
  "hex_digit d = hex_chars ! d"

lemma hex_digit_table:
  "list_all (\<lambda>d. hex_digit_val (hex_digit d) = d \<and> hex_digit d \<noteq> 0 \<and>
     (hex_digit d = 48 \<longleftrightarrow> d = 0)) [0..<16]"
  by code_simp

lemma hex_digit_facts:
  "d < 16 \<Longrightarrow> hex_digit_val (hex_digit d) = d \<and> hex_digit d \<noteq> 0 \<and> (hex_digit d = 48 \<longleftrightarrow> d = 0)"
  using hex_digit_table unfolding list_all_iff atLeast_upt[symmetric] set_upt by simp

lemma unat_and_15: "unat ((v :: u64) AND 0xF) = unat v mod 16"
proof -
  have "v AND mask 4 = take_bit 4 v" by (simp add: take_bit_eq_mask)
  then have "unat (v AND 0xF) = unat (take_bit 4 v)" by (simp add: mask_numeral)
  then show ?thesis by (simp add: unsigned_take_bit_eq take_bit_nat_def)
qed

lemma unat_drop_bit_4: "unat (drop_bit 4 (v :: u64)) = unat v div 16"
  by (simp add: unat_drop_bit_eq drop_bit_nat_def)

lemma hex_fill_eq:
  "i + n \<le> 16 \<Longrightarrow> length buf = 19 \<Longrightarrow> k < 19 \<Longrightarrow>
   hex_fill n i v buf ! k =
     (if 17 - (i + n) < k \<and> k \<le> 17 - i then hex_digit (unat v div 16 ^ (17 - i - k) mod 16)
      else buf ! k) \<and> length (hex_fill n i v buf) = 19"
proof (induction n arbitrary: i v buf)
  case 0
  then show ?case by auto
next
  case (Suc n)
  let ?b = "buf[17 - i := hex_chars ! unat (v AND 0xF)]"
  have IH: "hex_fill n (i + 1) (drop_bit 4 v) ?b ! k =
     (if 17 - (i + 1 + n) < k \<and> k \<le> 17 - (i + 1)
      then hex_digit (unat (drop_bit 4 v) div 16 ^ (17 - (i + 1) - k) mod 16)
      else ?b ! k) \<and> length (hex_fill n (i + 1) (drop_bit 4 v) ?b) = 19"
    using Suc.prems by (intro Suc.IH) simp_all
  consider "k = 17 - i" | "k < 17 - i" | "17 - i < k" by linarith
  then show ?case
  proof cases
    case 1
    then show ?thesis
      using IH Suc.prems by (auto simp: unat_and_15 hex_digit_def)
  next
    case 2
    then have "17 - i - k = Suc (17 - (i + 1) - k)" by simp
    then have "unat v div 16 ^ (17 - i - k) = unat (drop_bit 4 v) div 16 ^ (17 - (i + 1) - k)"
      by (simp add: unat_drop_bit_4 div_mult2_eq)
    then show ?thesis using IH 2 Suc.prems by auto
  next
    case 3
    then show ?thesis using IH Suc.prems by auto
  qed
qed

text \<open>The sixteen digits of the buffer, most significant first, and the terminator.\<close>

definition hex16 :: "u64 \<Rightarrow> u8 list" where
  "hex16 v = map (\<lambda>k. hex_digit (unat v div 16 ^ (15 - k) mod 16)) [0..<16]"

lemma hex_buffer:
  assumes "length buf = 19" and "buf ! 18 = 0"
  shows "drop 2 (hex_fill 16 0 v buf) = hex16 v @ [0]"
proof (rule nth_equalityI)
  have len: "length (hex_fill 16 0 v buf) = 19"
    using hex_fill_eq[of 0 16 buf 0 v] assms by simp
  then show "length (drop 2 (hex_fill 16 0 v buf)) = length (hex16 v @ [0])"
    by (simp add: hex16_def)
  fix k assume "k < length (drop 2 (hex_fill 16 0 v buf))"
  then have k: "k < 17" using len by simp
  then have "drop 2 (hex_fill 16 0 v buf) ! k = hex_fill 16 0 v buf ! (k + 2)"
    using len by (simp add: add.commute)
  then show "drop 2 (hex_fill 16 0 v buf) ! k = (hex16 v @ [0]) ! k"
    using hex_fill_eq[of 0 16 buf "k + 2" v] assms k
    by (cases "k = 16") (auto simp: hex16_def nth_append)
qed

lemma hex_skip_eq:
  "0 \<notin> set ds \<Longrightarrow> d \<noteq> 0 \<Longrightarrow>
   hex_skip (ds @ [d, 0]) = dropWhile (\<lambda>c. c = 48) ds @ [d, 0]"
proof (induction ds)
  case Nil
  then show ?case by simp
next
  case (Cons a ds)
  then show ?case by (cases ds) auto
qed

lemma foldl_hex16:
  "n \<le> 16 \<Longrightarrow>
   foldl (\<lambda>a d. 16 * a + hex_digit_val d) 0
     (map (\<lambda>k. hex_digit (w div 16 ^ (15 - k) mod 16)) [0..<n])
   = w div 16 ^ (16 - n) mod 16 ^ n"
proof (induction n)
  case 0
  then show ?case by simp
next
  case (Suc n)
  then have e: "16 - n = Suc (15 - n)" "16 - Suc n = 15 - n" by simp_all
  define x where "x = w div 16 ^ (15 - n)"
  have "w div 16 ^ (16 - n) = x div 16"
    unfolding x_def e(1) by (simp only: power_Suc2 div_mult2_eq)
  moreover have "16 * (x div 16 mod 16 ^ n) + x mod 16 = x mod 16 ^ Suc n"
    by (simp add: mod_mult2_eq)
  moreover have "foldl (\<lambda>a d. 16 * a + hex_digit_val d) 0
      (map (\<lambda>k. hex_digit (w div 16 ^ (15 - k) mod 16)) [0..<Suc n])
    = 16 * (w div 16 ^ (16 - n) mod 16 ^ n) + hex_digit_val (hex_digit (x mod 16))"
    using Suc.IH Suc.prems by (simp add: x_def)
  moreover have "hex_digit_val (hex_digit (x mod 16)) = x mod 16"
    by (simp add: hex_digit_facts)
  ultimately show ?case by (simp only: x_def e(2))
qed

lemma read_hex16: "read_hex (hex16 v) = unat v"
  using foldl_hex16[of 16 "unat v"] unat_u64_less[of v]
  by (simp add: read_hex_def hex16_def)

lemma hex16_no_nul: "0 \<notin> set (hex16 v)"
  by (auto simp: hex16_def hex_digit_facts[THEN conjunct2, THEN conjunct1, symmetric]
      dest: sym)

lemma read_hex_skip_zeros: "read_hex (dropWhile (\<lambda>c. c = 48) ds @ es) = read_hex (ds @ es)"
  by (induction ds) (auto simp: read_hex_def hex_digit_val_def)

text \<open>The digits \<^verbatim>\<open>vga_print_hex\<close> prints after \<^verbatim>\<open>0x\<close>.\<close>

definition hex_text :: "u64 \<Rightarrow> u8 list" where
  "hex_text v = dropWhile (\<lambda>c. c = 48) (butlast (hex16 v)) @ [last (hex16 v)]"

lemma hex_digits_text: "hex_digits v = hex_text v @ [0]"
proof -
  have ne: "hex16 v \<noteq> []" by (simp add: hex16_def)
  then have split: "hex16 v @ [0] = butlast (hex16 v) @ [last (hex16 v), 0]"
    by (metis append_assoc append_butlast_last_id append_Cons append_Nil)
  have "0 \<notin> set (butlast (hex16 v))" using hex16_no_nul[of v] in_set_butlastD by fast
  moreover have "last (hex16 v) \<noteq> 0" using hex16_no_nul[of v] ne last_in_set by fastforce
  ultimately show ?thesis
    unfolding hex_digits_def Let_def
    by (subst hex_buffer) (simp_all add: split hex_skip_eq hex_text_def)
qed

lemma hex_text_no_nul: "0 \<notin> set (hex_text v)"
proof -
  have "set (dropWhile P (butlast xs) @ [last xs]) \<subseteq> set xs" if "xs \<noteq> []" for P and xs :: "u8 list"
    using that by (auto dest: set_dropWhileD in_set_butlastD)
  moreover have "hex16 v \<noteq> []" by (simp add: hex16_def)
  ultimately have "set (hex_text v) \<subseteq> set (hex16 v)" unfolding hex_text_def by blast
  then show ?thesis using hex16_no_nul by blast
qed

lemma read_hex_text: "read_hex (hex_text v) = unat v"
proof -
  have "hex16 v \<noteq> []" by (simp add: hex16_def)
  then show ?thesis
    by (simp add: hex_text_def read_hex_skip_zeros read_hex16)
qed

lemma hex_text_no_leading_zero: "1 < length (hex_text v) \<Longrightarrow> hd (hex_text v) \<noteq> 48"
  using hd_dropWhile[of "\<lambda>c. c = 48" "butlast (hex16 v)"]
  by (auto simp: hex_text_def hd_append)

lemma vga_print_hex_text: "vga_print_hex v s = vga_print (cstr ''0x'' @ hex_text v) s"
proof -
  have "0 \<notin> set (cstr ''0x'')" by (simp add: cstr_def)
  moreover have "vga_print (hex_text v @ [0]) t = vga_print (hex_text v) t" for t :: "'a vga_state_scheme"
    using hex_text_no_nul by (simp add: vga_print_append)
  ultimately show ?thesis
    by (simp add: vga_print_hex_def hex_digits_text vga_print_append)
qed

section \<open>Properties\<close>

definition blank_console :: vga_state where
  "blank_console = \<lparr>mem = (\<lambda>_. 0), hw_trace = [], vga_buffer = replicate 2000 0,
     vga_cursor_x = 0, vga_cursor_y = 0, vga_color = 15\<rparr>"

definition blank_transcript :: transcript where
  "blank_transcript = \<lparr>cells = replicate 2000 0, col = 0, row = 0\<rparr>"

lemma blank_console_shows: "screen_shows blank_console blank_transcript"
proof -
  show ?thesis
    unfolding screen_shows_def
    by (intro exI[of _ 0]) (simp add: blank_console_def blank_transcript_def)
qed

text \<open>
  C16: the screen is the last 25 lines of an unbounded transcript. Printing any string, with
  its line breaks, tabs, backspaces, unprintable bytes, wraps at column 80 and scrolling,
  performs the same text on the transcript, keeps the cursor on the screen, and touches
  nothing but the screen and the two cursor ports.
\<close>

theorem vga_print_transcript:
  assumes "screen_shows s t"
  shows "screen_shows (vga_print str s) (fold (tr_put (vga_color s)) (takeWhile (\<lambda>c. c \<noteq> 0) str) t) \<and>
         vga_inv (vga_print str s) \<and> vga_only s (vga_print str s)"
  using fold_putchar_transcript[OF assms] screen_shows_inv
  by (auto simp: vga_print_fold vga_frame.keeps_fold)

lemma vga_print_transcript_witness:
  "screen_shows (vga_print (cstr ''OK'') blank_console)
     (tr_put 15 75 (tr_put 15 79 blank_transcript))"
proof -
  have "vga_color blank_console = 15" by (simp add: blank_console_def)
  then show ?thesis
    using vga_print_transcript[OF blank_console_shows, of "cstr ''OK''"]
    by (simp add: cstr_def)
qed



text \<open>
  For the least 64-bit integer the negation wraps, the digit loop does not run, and only
  the minus sign is printed.
\<close>

theorem vga_print_dec_int_min:
  "vga_print_dec 0x8000000000000000 s = vga_print [45] s"
proof -
  have "sint (0x8000000000000000 :: u64) = - 9223372036854775808" by (simp add: sint_u64)
  then show ?thesis
    by (simp add: vga_print_dec_def Let_def dec_fill.simps)
qed


end
