(* ===== verification/Pmm.thy ===== *)
theory Pmm
  imports Vga
begin

text \<open>
  The physical memory manager, \<^verbatim>\<open>src/kernel/mm/pmm.c\<close>, and the E820 map accessors of
  \<^verbatim>\<open>mm/memory_map.h\<close>. The bitmap is an array of bytes in physical memory, one bit per
  4 KiB page frame, a set bit meaning used; all its accesses are loads and stores of
  \<^term>\<open>mem\<close>. The linker symbols \<^verbatim>\<open>__kernel_start\<close> and \<^verbatim>\<open>__kernel_end\<close> are
  arguments of \<^verbatim>\<open>pmm_init\<close>.
\<close>

section \<open>State\<close>

record pmm_state = vga_state +
  bitmap :: u64
  total_pages :: u64
  used_pages :: u64

abbreviation PAGE_SIZE :: u64 where "PAGE_SIZE \<equiv> 4096"

section \<open>memory\_map.h\<close>

abbreviation MEMORY_MAP_BASE :: u64 where "MEMORY_MAP_BASE \<equiv> 0x10000"

record memory_map_entry_t =
  e_base :: u64
  e_length :: u64
  e_type :: u32
  e_reserved :: u32

definition memory_map_entry_count :: "(u64 \<Rightarrow> u8) \<Rightarrow> u16" where
  "memory_map_entry_count m = read16 m MEMORY_MAP_BASE"

text \<open>Entry \<open>i\<close> of the packed array of 24-byte entries behind the count.\<close>

definition memory_map_entries :: "(u64 \<Rightarrow> u8) \<Rightarrow> u64 \<Rightarrow> memory_map_entry_t" where
  "memory_map_entries m i =
     (let a = MEMORY_MAP_BASE + 2 + 24 * i
      in \<lparr>e_base = read64 m a, e_length = read64 m (a + 8),
          e_type = read32 m (a + 16), e_reserved = read32 m (a + 20)\<rparr>)"

section \<open>Bitmap accesses\<close>

text \<open>
  The four loops and the two entry points compute \<^verbatim>\<open>byte = idx / 8\<close> and
  \<^verbatim>\<open>bit = 1 << (idx % 8)\<close> and test, set or clear that bit, counting \<^verbatim>\<open>used_pages\<close>.
\<close>

definition page_byte :: "'a pmm_state_scheme \<Rightarrow> u64 \<Rightarrow> u64" where
  "page_byte s idx = bitmap s + idx div 8"

definition page_bit :: "u64 \<Rightarrow> u8" where
  "page_bit idx = push_bit (unat (idx mod 8)) 1"

definition bm_test :: "u64 \<Rightarrow> 'a pmm_state_scheme \<Rightarrow> bool" where
  "bm_test idx s \<longleftrightarrow> mem s (page_byte s idx) AND page_bit idx \<noteq> 0"

definition bm_set :: "u64 \<Rightarrow> 'a pmm_state_scheme \<Rightarrow> 'a pmm_state_scheme" where
  "bm_set idx s = s\<lparr>mem := (mem s)(page_byte s idx := mem s (page_byte s idx) OR page_bit idx),
                    used_pages := used_pages s + 1\<rparr>"

definition bm_clear :: "u64 \<Rightarrow> 'a pmm_state_scheme \<Rightarrow> 'a pmm_state_scheme" where
  "bm_clear idx s = s\<lparr>mem := (mem s)(page_byte s idx := mem s (page_byte s idx) AND NOT (page_bit idx)),
                      used_pages := used_pages s - 1\<rparr>"

definition pmm_release :: "u64 \<Rightarrow> 'a pmm_state_scheme \<Rightarrow> 'a pmm_state_scheme" where
  "pmm_release idx s = (if bm_test idx s then bm_clear idx s else s)"

definition pmm_reserve :: "u64 \<Rightarrow> 'a pmm_state_scheme \<Rightarrow> 'a pmm_state_scheme" where
  "pmm_reserve idx s = (if \<not> bm_test idx s then bm_set idx s else s)"

section \<open>pmm.c\<close>

text \<open>The steps of \<^verbatim>\<open>pmm_init\<close>, in the order the code has them.\<close>

definition pmm_max_addr :: "u16 \<Rightarrow> (u64 \<Rightarrow> u8) \<Rightarrow> u64" where
  "pmm_max_addr count m =
     for_up (unat count) 0
       (\<lambda>i max_addr. let e = memory_map_entries m i; end_addr = e_base e + e_length e
                     in if end_addr > max_addr then end_addr else max_addr) 0"

definition pmm_fill_bitmap :: "u64 \<Rightarrow> 'a pmm_state_scheme \<Rightarrow> 'a pmm_state_scheme" where
  "pmm_fill_bitmap bitmap_size s =
     for_up (unat bitmap_size) 0 (\<lambda>i s. s\<lparr>mem := (mem s)(bitmap s + i := 0xFF)\<rparr>) s"

definition pmm_free_usable :: "u16 \<Rightarrow> 'a pmm_state_scheme \<Rightarrow> 'a pmm_state_scheme" where
  "pmm_free_usable count s =
     for_up (unat count) 0
       (\<lambda>i s. let e = memory_map_entries (mem s) i
              in if e_type e \<noteq> 1 then s
                 else let start = e_base e div PAGE_SIZE; pages = e_length e div PAGE_SIZE
                      in for_up (unat pages) 0 (\<lambda>p s. pmm_release (start + p) s) s) s"

definition pmm_reserve_low :: "'a pmm_state_scheme \<Rightarrow> 'a pmm_state_scheme" where
  "pmm_reserve_low s = for_up (unat (0x100000 div PAGE_SIZE)) 0 pmm_reserve s"

definition pmm_reserve_kernel :: "u64 \<Rightarrow> u64 \<Rightarrow> 'a pmm_state_scheme \<Rightarrow> 'a pmm_state_scheme" where
  "pmm_reserve_kernel kernel_start bitmap_size s =
     (let kernel_end = bitmap s + bitmap_size;
          start_page = kernel_start div PAGE_SIZE;
          end_page = (kernel_end + PAGE_SIZE - 1) div PAGE_SIZE
      in for_up (unat end_page - unat start_page) start_page pmm_reserve s)"

definition pmm_init :: "u64 \<Rightarrow> u64 \<Rightarrow> 'a pmm_state_scheme \<Rightarrow> 'a pmm_state_scheme" where
  "pmm_init kernel_start kernel_end s =
     (let count = memory_map_entry_count (mem s);
          s = s\<lparr>total_pages := pmm_max_addr count (mem s) div PAGE_SIZE\<rparr>;
          bitmap_size = (total_pages s + 7) div 8;
          s = s\<lparr>bitmap := (kernel_end + PAGE_SIZE - 1) AND NOT (PAGE_SIZE - 1)\<rparr>;
          s = pmm_fill_bitmap bitmap_size s;
          s = s\<lparr>used_pages := total_pages s\<rparr>;
          s = pmm_free_usable count s;
          s = pmm_reserve_low s
      in pmm_reserve_kernel kernel_start bitmap_size s)"

primrec pmm_find :: "nat \<Rightarrow> u64 \<Rightarrow> 'a pmm_state_scheme \<Rightarrow> u64 option" where
  "pmm_find 0 i s = None"
| "pmm_find (Suc n) i s = (if \<not> bm_test i s then Some i else pmm_find n (i + 1) s)"

definition pmm_alloc_page :: "'a pmm_state_scheme \<Rightarrow> u64 \<times> 'a pmm_state_scheme" where
  "pmm_alloc_page s =
     (case pmm_find (unat (total_pages s)) 0 s of
        None \<Rightarrow> (0, s)
      | Some i \<Rightarrow> (i * PAGE_SIZE, bm_set i s))"

definition pmm_free_page :: "u64 \<Rightarrow> 'a pmm_state_scheme \<Rightarrow> 'a pmm_state_scheme" where
  "pmm_free_page phys s = pmm_release (phys div PAGE_SIZE) s"

definition pmm_total_pages :: "'a pmm_state_scheme \<Rightarrow> u64" where
  "pmm_total_pages s = total_pages s"

definition pmm_used_pages :: "'a pmm_state_scheme \<Rightarrow> u64" where
  "pmm_used_pages s = used_pages s"

section \<open>What the bitmap says\<close>

definition page_used :: "'a pmm_state_scheme \<Rightarrow> nat \<Rightarrow> bool" where
  "page_used s i \<longleftrightarrow> bit (mem s (bitmap s + of_nat (i div 8))) (i mod 8)"

definition free_pages :: "'a pmm_state_scheme \<Rightarrow> nat set" where
  "free_pages s = {i. i < unat (total_pages s) \<and> \<not> page_used s i}"

lemma unat_div8: "unat (idx div 8 :: u64) = unat idx div 8"
  by (simp add: unat_div)

lemma unat_mod8: "unat (idx mod 8 :: u64) = unat idx mod 8"
  by (simp add: unat_mod)

lemma page_byte_nat: "page_byte s idx = bitmap s + of_nat (unat idx div 8)"
  by (simp add: page_byte_def flip: unat_div8)

lemma bit_page_bit: "bit (page_bit idx) k \<longleftrightarrow> k = unat idx mod 8"
  unfolding page_bit_def unat_mod8
  by (auto simp: bit_exp_iff)

lemma bm_test_iff: "bm_test idx s \<longleftrightarrow> page_used s (unat idx)"
proof -
  have "w AND page_bit idx \<noteq> 0 \<longleftrightarrow> bit w (unat idx mod 8)" for w
  proof -
    have "bit (w AND page_bit idx) k \<longleftrightarrow> k = unat idx mod 8 \<and> bit w (unat idx mod 8)" for k
      by (auto simp: bit_and_iff bit_page_bit)
    then show ?thesis by (metis bit_0_eq bot_apply bot_bool_def bit_eqI)
  qed
  then show ?thesis by (simp add: bm_test_def page_used_def page_byte_nat)
qed

lemma bitmap_byte_inj:
  assumes "i < 2 ^ 64" and "j < 2 ^ 64"
  shows "(b :: u64) + of_nat (i div 8) = b + of_nat (j div 8) \<longleftrightarrow> i div 8 = j div 8"
proof -
  have "unat (of_nat (i div 8) :: u64) = i div 8" "unat (of_nat (j div 8) :: u64) = j div 8"
    using assms by (auto intro!: u64_of_nat_less simp: less_mult_imp_div_less)
  then show ?thesis by (metis add_left_cancel)
qed

lemma page_used_set:
  assumes "j < 2 ^ 64"
  shows "page_used (bm_set idx s) j \<longleftrightarrow> page_used s j \<or> j = unat idx"
  using assms unat_u64_less[of idx] bitmap_byte_inj[of j "unat idx" "bitmap s"]
  by (auto simp: page_used_def bm_set_def page_byte_nat bit_or_iff bit_page_bit)
    (metis div_mult_mod_eq)+

lemma page_used_clear:
  assumes "j < 2 ^ 64"
  shows "page_used (bm_clear idx s) j \<longleftrightarrow> page_used s j \<and> j \<noteq> unat idx"
  using assms unat_u64_less[of idx] bitmap_byte_inj[of j "unat idx" "bitmap s"]
  by (auto simp: page_used_def bm_clear_def page_byte_nat bit_and_iff bit_not_iff bit_page_bit)
    (metis div_mult_mod_eq)+

section \<open>Allocation finds the least free frame\<close>

lemma pmm_find_None:
  "unat i + n < 2 ^ 64 \<Longrightarrow>
   pmm_find n i s = None \<longleftrightarrow> (\<forall>k < n. page_used s (unat i + k))"
proof (induction n arbitrary: i)
  case 0
  then show ?case by simp
next
  case (Suc n)
  have i1: "unat (i + 1) = unat i + 1" using Suc.prems by (simp add: unat_word_ariths)
  have "(\<forall>k < Suc n. page_used s (unat i + k)) \<longleftrightarrow>
        page_used s (unat i) \<and> (\<forall>k < n. page_used s (unat (i + 1) + k))"
    unfolding i1 by (auto simp: less_Suc_eq_0_disj)
  then show ?case using Suc.IH[of "i + 1"] Suc.prems i1 by (simp add: bm_test_iff)
qed

lemma pmm_find_Some:
  assumes "unat i + n < 2 ^ 64" and "pmm_find n i s = Some f"
  shows "unat i \<le> unat f \<and> unat f < unat i + n \<and> \<not> page_used s (unat f) \<and>
         (\<forall>j. unat i \<le> j \<and> j < unat f \<longrightarrow> page_used s j)"
  using assms
proof (induction n arbitrary: i)
  case 0
  then show ?case by simp
next
  case (Suc n)
  have i1: "unat (i + 1) = unat i + 1" using Suc.prems by (simp add: unat_word_ariths)
  show ?case
  proof (cases "bm_test i s")
    case False
    then show ?thesis using Suc.prems by (auto simp: bm_test_iff)
  next
    case True
    then have IH: "unat (i + 1) \<le> unat f \<and> unat f < unat (i + 1) + n \<and> \<not> page_used s (unat f) \<and>
         (\<forall>j. unat (i + 1) \<le> j \<and> j < unat f \<longrightarrow> page_used s j)"
      using Suc.IH[of "i + 1"] Suc.prems i1 by simp
    have "page_used s j" if "unat i \<le> j" "j < unat f" for j
      using IH True that i1 by (cases "j = unat i") (auto simp: bm_test_iff)
    with IH i1 show ?thesis by auto
  qed
qed

section \<open>The invariant\<close>

text \<open>
  \<^verbatim>\<open>used_pages\<close> counts the used frames, every frame has a 64-bit address, and frame 0,
  whose address is the failure value, is never free.
\<close>

definition pmm_inv :: "'a pmm_state_scheme \<Rightarrow> bool" where
  "pmm_inv s \<longleftrightarrow> unat (total_pages s) \<le> 2 ^ 52 \<and>
     unat (used_pages s) + card (free_pages s) = unat (total_pages s) \<and>
     0 \<notin> free_pages s"

lemma finite_free_pages [simp]: "finite (free_pages s)"
  by (simp add: free_pages_def)

lemma free_pages_less: "i \<in> free_pages s \<Longrightarrow> i < unat (total_pages s)"
  by (simp add: free_pages_def)

definition frame_addr :: "nat \<Rightarrow> u64" where
  "frame_addr i = of_nat i * PAGE_SIZE"

lemma unat_frame_addr: "i < 2 ^ 52 \<Longrightarrow> unat (frame_addr i) = i * 4096"
proof -
  assume i: "i < 2 ^ 52"
  then have "unat (of_nat i :: u64) = i" by (intro u64_of_nat_less) simp
  then show ?thesis using i by (simp add: frame_addr_def unat_word_ariths)
qed

lemma frame_addr_inj: "i < 2 ^ 52 \<Longrightarrow> j < 2 ^ 52 \<Longrightarrow> frame_addr i = frame_addr j \<longleftrightarrow> i = j"
  by (metis unat_frame_addr nat_mult_eq_cancel_disj mult.commute zero_neq_numeral)

lemma frame_addr_eq_0: "i < 2 ^ 52 \<Longrightarrow> frame_addr i = 0 \<longleftrightarrow> i = 0"
  using frame_addr_inj[of i 0] by (simp add: frame_addr_def)

lemma unat_frame_div: "i < 2 ^ 52 \<Longrightarrow> unat (frame_addr i div PAGE_SIZE) = i"
  using unat_frame_addr[of i] by (simp add: unat_div)

lemma pmm_alloc_page_None:
  assumes "pmm_inv s" and "free_pages s = {}"
  shows "pmm_alloc_page s = (0, s)"
proof -
  have "unat (0 :: u64) + unat (total_pages s) < 2 ^ 64"
    using assms(1) unfolding pmm_inv_def by simp
  then have "pmm_find (unat (total_pages s)) 0 s = None"
    using assms(2) by (subst pmm_find_None) (auto simp: free_pages_def)
  then show ?thesis by (simp add: pmm_alloc_page_def)
qed

lemma pmm_alloc_page_Some:
  assumes "pmm_inv s" and "free_pages s \<noteq> {}"
  shows "pmm_alloc_page s = (frame_addr (Min (free_pages s)), bm_set (of_nat (Min (free_pages s))) s)"
proof -
  have b: "unat (0 :: u64) + unat (total_pages s) < 2 ^ 64"
    using assms(1) unfolding pmm_inv_def by simp
  obtain i where "i \<in> free_pages s" using assms(2) by blast
  then have "pmm_find (unat (total_pages s)) 0 s \<noteq> None"
    unfolding pmm_find_None[OF b] by (auto simp: free_pages_def)
  then obtain f where f: "pmm_find (unat (total_pages s)) 0 s = Some f" by blast
  have min: "unat f = Min (free_pages s)"
    using pmm_find_Some[OF b f]
    by (intro Min_eqI[symmetric]) (auto simp: free_pages_def not_less[symmetric])
  then have "f = of_nat (Min (free_pages s))" by (simp flip: min)
  then show ?thesis using f by (simp add: pmm_alloc_page_def frame_addr_def)
qed

section \<open>Effect of the operations on the set of free frames\<close>

lemma total_pages_bm [simp]:
  "total_pages (bm_set i s) = total_pages s" "total_pages (bm_clear i s) = total_pages s"
  "bitmap (bm_set i s) = bitmap s" "bitmap (bm_clear i s) = bitmap s"
  by (simp_all add: bm_set_def bm_clear_def)

lemma used_pages_bm:
  "used_pages (bm_set i s) = used_pages s + 1" "used_pages (bm_clear i s) = used_pages s - 1"
  by (simp_all add: bm_set_def bm_clear_def)

lemma free_pages_set: "free_pages (bm_set idx s) = free_pages s - {unat idx}"
proof -
  have "j < 2 ^ 64" if "j < unat (total_pages s)" for j
    using that unat_u64_less[of "total_pages s"] by simp
  then show ?thesis by (auto simp: free_pages_def page_used_set)
qed

lemma free_pages_clear:
  "unat idx < unat (total_pages s) \<Longrightarrow> free_pages (bm_clear idx s) = insert (unat idx) (free_pages s)"
proof -
  assume i: "unat idx < unat (total_pages s)"
  have "j < 2 ^ 64" if "j < unat (total_pages s)" for j
    using that unat_u64_less[of "total_pages s"] by simp
  then show ?thesis using i by (auto simp: free_pages_def page_used_clear)
qed

lemma used_pages_set:
  assumes "pmm_inv s" and "unat idx \<in> free_pages s"
  shows "unat (used_pages (bm_set idx s)) = unat (used_pages s) + 1"
proof -
  have "0 < card (free_pages s)" using assms(2) by (auto simp: card_gt_0_iff)
  then have "unat (used_pages s) + 1 \<le> 2 ^ 52" using assms(1) by (auto simp: pmm_inv_def)
  then show ?thesis by (simp add: bm_set_def unat_word_ariths)
qed

lemma pmm_inv_set:
  assumes "pmm_inv s" and "unat idx \<in> free_pages s"
  shows "pmm_inv (bm_set idx s)"
proof -
  have "card (free_pages s - {unat idx}) + 1 = card (free_pages s)"
    using assms(2) by (metis Suc_eq_plus1 card_Suc_Diff1 finite_free_pages)
  then show ?thesis
    using assms used_pages_set[OF assms] by (auto simp: pmm_inv_def free_pages_set)
qed

lemma pmm_inv_clear:
  assumes "pmm_inv s" and "unat idx < unat (total_pages s)" and "unat idx \<notin> free_pages s"
    and "unat idx \<noteq> 0"
  shows "pmm_inv (bm_clear idx s)"
proof -
  have "free_pages s \<subseteq> {..<unat (total_pages s)} - {unat idx}"
    using assms(3) by (auto dest: free_pages_less)
  then have "card (free_pages s) \<le> card ({..<unat (total_pages s)} - {unat idx})"
    by (intro card_mono) simp_all
  then have "card (free_pages s) < unat (total_pages s)" using assms(2) by simp
  then have "0 < unat (used_pages s)" using assms(1) by (auto simp: pmm_inv_def)
  then have "unat (used_pages s - 1) = unat (used_pages s) - 1"
    by (simp add: unat_sub_if')
  then show ?thesis
    using assms \<open>0 < unat (used_pages s)\<close>
    by (auto simp: pmm_inv_def free_pages_clear used_pages_bm)
qed

text \<open>The bytes of the bitmap and of a frame.\<close>

definition bitmap_bytes :: "'a pmm_state_scheme \<Rightarrow> u64 set" where
  "bitmap_bytes s = {bitmap s + of_nat k | k. k < (unat (total_pages s) + 7) div 8}"

definition frame_bytes :: "nat \<Rightarrow> u64 set" where
  "frame_bytes i = {a. unat a div 4096 = i}"

text \<open>The bitmap lies in frames that are not free, so no allocation hands it out.\<close>

definition bitmap_safe :: "'a pmm_state_scheme \<Rightarrow> bool" where
  "bitmap_safe s \<longleftrightarrow> (\<forall>a \<in> bitmap_bytes s. unat a div 4096 \<notin> free_pages s)"

lemma page_byte_in_bitmap:
  "unat idx < unat (total_pages s) \<Longrightarrow> page_byte s idx \<in> bitmap_bytes s"
  by (auto simp: bitmap_bytes_def page_byte_nat intro!: exI[of _ "unat idx div 8"])

lemma mem_bm_set: "a \<notin> bitmap_bytes s \<Longrightarrow> unat idx < unat (total_pages s) \<Longrightarrow>
    mem (bm_set idx s) a = mem s a"
  using page_byte_in_bitmap[of idx s] by (auto simp: bm_set_def)

lemma bitmap_bytes_bm [simp]:
  "bitmap_bytes (bm_set i s) = bitmap_bytes s" "bitmap_bytes (bm_clear i s) = bitmap_bytes s"
  by (simp_all add: bitmap_bytes_def)

section \<open>The allocator interface\<close>

text \<open>
  What the users of the allocator (page tables, heap, the memory tests) rely on:
  \<open>avail\<close> is the set of free frame numbers among the \<open>managed\<close> ones.
\<close>

primrec take_frames :: "('s \<Rightarrow> u64 \<times> 's) \<Rightarrow> nat \<Rightarrow> 's \<Rightarrow> u64 list \<times> 's" where
  "take_frames alloc 0 s = ([], s)"
| "take_frames alloc (Suc n) s =
     (let (p, s) = alloc s; (ps, s) = take_frames alloc n s in (p # ps, s))"

locale frame_source =
  fixes alloc :: "'s \<Rightarrow> u64 \<times> 's"
    and release :: "u64 \<Rightarrow> 's \<Rightarrow> 's"
    and avail :: "'s \<Rightarrow> nat set"
    and managed :: "'s \<Rightarrow> nat set"
    and ok :: "'s \<Rightarrow> bool"
  assumes avail_finite: "finite (avail s)"
    and avail_managed: "avail s \<subseteq> managed s"
    and avail_bounds: "ok s \<Longrightarrow> i \<in> avail s \<Longrightarrow> 0 < i \<and> i < 2 ^ 52"
    and alloc_empty: "ok s \<Longrightarrow> avail s = {} \<Longrightarrow> alloc s = (0, s)"
    and alloc_addr: "ok s \<Longrightarrow> avail s \<noteq> {} \<Longrightarrow> fst (alloc s) = frame_addr (Min (avail s))"
    and alloc_avail: "ok s \<Longrightarrow> avail s \<noteq> {} \<Longrightarrow> avail (snd (alloc s)) = avail s - {Min (avail s)}"
    and alloc_managed: "managed (snd (alloc s)) = managed s"
    and alloc_ok: "ok s \<Longrightarrow> ok (snd (alloc s))"
    and release_avail: "ok s \<Longrightarrow> i \<in> managed s \<Longrightarrow> i < 2 ^ 52 \<Longrightarrow> 0 < i \<Longrightarrow>
        avail (release (frame_addr i) s) = insert i (avail s)"
    and release_ok: "ok s \<Longrightarrow> i \<in> managed s \<Longrightarrow> i < 2 ^ 52 \<Longrightarrow> 0 < i \<Longrightarrow>
        ok (release (frame_addr i) s)"
begin

lemma alloc_null_iff: "ok s \<Longrightarrow> fst (alloc s) = 0 \<longleftrightarrow> avail s = {}"
proof (cases "avail s = {}")
  case True
  then show "ok s \<Longrightarrow> ?thesis" by (simp add: alloc_empty)
next
  case False
  assume ok: "ok s"
  have "Min (avail s) \<in> avail s" using False by (simp add: avail_finite)
  then show ?thesis
    using ok False avail_bounds[OF ok] by (auto simp: alloc_addr frame_addr_eq_0)
qed

lemma alloc_takes:
  assumes "ok s" and "fst (alloc s) \<noteq> 0"
  obtains i where "i \<in> avail s" "0 < i" "i < 2 ^ 52" "fst (alloc s) = frame_addr i"
    "\<forall>j \<in> avail s. i \<le> j" "avail (snd (alloc s)) = avail s - {i}" "ok (snd (alloc s))"
proof -
  have ne: "avail s \<noteq> {}" using assms alloc_empty by fastforce
  then have "Min (avail s) \<in> avail s" by (simp add: avail_finite)
  then show thesis
    using that[of "Min (avail s)"] assms ne avail_bounds[OF assms(1)]
    by (simp add: alloc_addr alloc_avail alloc_ok avail_finite)
qed

lemma alloc_release:
  assumes "ok s" and "avail s \<noteq> {}"
  shows "avail (release (fst (alloc s)) (snd (alloc s))) = avail s"
proof -
  obtain i where i: "i \<in> avail s" "0 < i" "i < 2 ^ 52" "fst (alloc s) = frame_addr i"
    "avail (snd (alloc s)) = avail s - {i}" "ok (snd (alloc s))"
    using alloc_takes[of s] assms alloc_null_iff[OF assms(1)] by metis
  moreover have "i \<in> managed (snd (alloc s))"
    using i(1) avail_managed alloc_managed by auto
  ultimately show ?thesis using release_avail[of "snd (alloc s)" i] by auto
qed

lemma take_frames_distinct:
  assumes "ok s" and "n \<le> card (avail s)"
  shows "\<exists>is. fst (take_frames alloc n s) = map frame_addr is \<and> length is = n \<and> distinct is \<and>
           set is \<subseteq> avail s \<and> avail (snd (take_frames alloc n s)) = avail s - set is \<and>
           ok (snd (take_frames alloc n s))"
  using assms
proof (induction n arbitrary: s)
  case 0
  then show ?case by simp
next
  case (Suc n)
  have "avail s \<noteq> {}" using Suc.prems(2) by auto
  then obtain i where i: "i \<in> avail s" "fst (alloc s) = frame_addr i"
    "avail (snd (alloc s)) = avail s - {i}" "ok (snd (alloc s))"
    using alloc_takes[of s] Suc.prems(1) alloc_null_iff[OF Suc.prems(1)] by metis
  have "n \<le> card (avail (snd (alloc s)))"
    using Suc.prems(2) i by (simp add: avail_finite)
  then obtain js where js: "fst (take_frames alloc n (snd (alloc s))) = map frame_addr js"
    "length js = n" "distinct js" "set js \<subseteq> avail s - {i}"
    "avail (snd (take_frames alloc n (snd (alloc s)))) = avail s - {i} - set js"
    "ok (snd (take_frames alloc n (snd (alloc s))))"
    using Suc.IH[OF i(4)] i(3) by auto
  then show ?case
    by (intro exI[of _ "i # js"]) (use i in \<open>auto simp: split_beta Let_def\<close>)
qed

end

text \<open>The frames a release may be given, and the frames \<^verbatim>\<open>pmm.c\<close> provides.\<close>

definition managed_pages :: "'a pmm_state_scheme \<Rightarrow> nat set" where
  "managed_pages s = {i. i < unat (total_pages s)}"

lemma pmm_alloc_page_fields [simp]:
  "total_pages (snd (pmm_alloc_page s)) = total_pages s"
  "bitmap (snd (pmm_alloc_page s)) = bitmap s"
  by (simp_all add: pmm_alloc_page_def split: option.splits)

lemma pmm_free_page_frame:
  assumes "pmm_inv s" and "i < unat (total_pages s)" and "0 < i"
  shows "free_pages (pmm_free_page (frame_addr i) s) = insert i (free_pages s) \<and>
         pmm_inv (pmm_free_page (frame_addr i) s)"
proof -
  have i52: "i < 2 ^ 52" using assms by (simp add: pmm_inv_def)
  note u = unat_frame_div[OF i52]
  show ?thesis
  proof (cases "page_used s i")
    case True
    then have "i \<notin> free_pages s" by (simp add: free_pages_def)
    then show ?thesis
      using True assms u pmm_inv_clear[of s "frame_addr i div PAGE_SIZE"]
        free_pages_clear[of "frame_addr i div PAGE_SIZE" s]
      by (simp add: pmm_free_page_def pmm_release_def bm_test_iff)
  next
    case False
    then have "i \<in> free_pages s" using assms by (simp add: free_pages_def)
    then show ?thesis
      using False assms u by (simp add: pmm_free_page_def pmm_release_def bm_test_iff insert_absorb)
  qed
qed

interpretation pmm_source: frame_source pmm_alloc_page pmm_free_page free_pages managed_pages pmm_inv
proof
  fix s :: "'a pmm_state_scheme" and i
  show "finite (free_pages s)" by simp
  show "free_pages s \<subseteq> managed_pages s" by (auto simp: managed_pages_def dest: free_pages_less)
  show "0 < i \<and> i < 2 ^ 52" if "pmm_inv s" "i \<in> free_pages s"
    using that free_pages_less[of i s] by (cases i) (auto simp: pmm_inv_def)
  show "pmm_alloc_page s = (0, s)" if "pmm_inv s" "free_pages s = {}"
    using that by (rule pmm_alloc_page_None)
  show "fst (pmm_alloc_page s) = frame_addr (Min (free_pages s))"
    if "pmm_inv s" "free_pages s \<noteq> {}"
    using pmm_alloc_page_Some[OF that] by simp
  have m: "Min (free_pages s) \<in> free_pages s \<and> unat (of_nat (Min (free_pages s)) :: u64) = Min (free_pages s)"
    if "pmm_inv s" "free_pages s \<noteq> {}"
  proof -
    have "Min (free_pages s) \<in> free_pages s" using that by simp
    moreover from this have "Min (free_pages s) < 18446744073709551616"
      using free_pages_less unat_u64_less[of "total_pages s"] less_trans by blast
    ultimately show ?thesis by (simp add: u64_of_nat_less)
  qed
  show "free_pages (snd (pmm_alloc_page s)) = free_pages s - {Min (free_pages s)}"
    if "pmm_inv s" "free_pages s \<noteq> {}"
    using pmm_alloc_page_Some[OF that] m[OF that] by (simp add: free_pages_set)
  show "managed_pages (snd (pmm_alloc_page s)) = managed_pages s"
    by (simp add: managed_pages_def)
  show "pmm_inv (snd (pmm_alloc_page s))" if "pmm_inv s"
    using that pmm_alloc_page_None[OF that] pmm_alloc_page_Some[OF that] m[OF that]
      pmm_inv_set[OF that, of "of_nat (Min (free_pages s))"]
    by (cases "free_pages s = {}") auto
  show "free_pages (pmm_free_page (frame_addr i) s) = insert i (free_pages s)"
    if "pmm_inv s" "i \<in> managed_pages s" "i < 2 ^ 52" "0 < i"
    using that pmm_free_page_frame[of s i] by (simp add: managed_pages_def)
  show "pmm_inv (pmm_free_page (frame_addr i) s)"
    if "pmm_inv s" "i \<in> managed_pages s" "i < 2 ^ 52" "0 < i"
    using that pmm_free_page_frame[of s i] by (simp add: managed_pages_def)
qed

section \<open>Initialisation\<close>

text \<open>
  The state during \<^verbatim>\<open>pmm_init\<close>, once the bitmap is filled: exactly the frames \<open>F\<close> are
  free, and memory outside the bitmap is as at the start.
\<close>

definition pmm_view :: "'a pmm_state_scheme \<Rightarrow> u64 \<Rightarrow> u64 \<Rightarrow> nat set \<Rightarrow> 'a pmm_state_scheme \<Rightarrow> bool" where
  "pmm_view s0 b tot F s \<longleftrightarrow> bitmap s = b \<and> total_pages s = tot \<and>
     F \<subseteq> {..<unat tot} \<and> free_pages s = F \<and> unat (used_pages s) + card F = unat tot \<and>
     (\<forall>a. a \<notin> bitmap_bytes s \<longrightarrow> mem s a = mem s0 a)"

lemma pmm_view_release:
  assumes "pmm_view s0 b tot F s" and "unat idx < unat tot"
  shows "pmm_view s0 b tot (insert (unat idx) F) (pmm_release idx s)"
proof (cases "bm_test idx s")
  case True
  then have n: "unat idx \<notin> F"
    using assms by (auto simp: pmm_view_def free_pages_def bm_test_iff)
  have fin: "finite F" using assms by (auto simp: pmm_view_def intro: finite_subset)
  have "insert (unat idx) F \<subseteq> {..<unat tot}" using assms by (auto simp: pmm_view_def)
  then have "card (insert (unat idx) F) \<le> unat tot"
    using card_mono[of "{..<unat tot}"] by fastforce
  then have "0 < unat (used_pages s)" using n fin assms by (auto simp: pmm_view_def)
  then have "unat (used_pages s - 1) + 1 = unat (used_pages s)" by (simp add: unat_sub_if')
  moreover have "mem (bm_clear idx s) a = mem s a" if "a \<notin> bitmap_bytes s" for a
    using that page_byte_in_bitmap[of idx s] assms by (auto simp: bm_clear_def pmm_view_def)
  ultimately show ?thesis
    using True n fin assms
    by (auto simp: pmm_view_def pmm_release_def free_pages_clear used_pages_bm)
next
  case False
  then have "unat idx \<in> F"
    using assms by (auto simp: pmm_view_def free_pages_def bm_test_iff)
  then show ?thesis using False assms by (simp add: pmm_release_def insert_absorb)
qed

lemma pmm_view_reserve:
  assumes "pmm_view s0 b tot F s" and "unat idx < unat tot"
  shows "pmm_view s0 b tot (F - {unat idx}) (pmm_reserve idx s)"
proof (cases "bm_test idx s")
  case False
  then have n: "unat idx \<in> F"
    using assms by (auto simp: pmm_view_def free_pages_def bm_test_iff)
  have fin: "finite F" using assms by (auto simp: pmm_view_def intro: finite_subset)
  then have c: "card (F - {unat idx}) + 1 = card F"
    using n by (metis Suc_eq_plus1 card_Suc_Diff1)
  then have "unat (used_pages s) + 1 \<le> unat tot" using assms by (simp add: pmm_view_def)
  then have "unat (used_pages s + 1) = unat (used_pages s) + 1"
    using unat_u64_less[of tot] by (simp add: unat_word_ariths)
  moreover have "mem (bm_set idx s) a = mem s a" if "a \<notin> bitmap_bytes s" for a
    using that mem_bm_set[of a s idx] assms by (auto simp: pmm_view_def)
  ultimately show ?thesis
    using False n c assms
    by (auto simp: pmm_view_def pmm_reserve_def free_pages_set used_pages_bm)
next
  case True
  then have "unat idx \<notin> F"
    using assms by (auto simp: pmm_view_def free_pages_def bm_test_iff)
  then show ?thesis using True assms by (simp add: pmm_reserve_def)
qed

lemma unat_index_add:
  "unat (a :: u64) + k < 18446744073709551616 \<Longrightarrow> unat (a + of_nat k) = unat a + k"
  by (simp add: unat_word_ariths u64_of_nat_less)

lemma pmm_view_release_range:
  assumes "pmm_view s0 b tot F s" and "unat start + n \<le> unat tot"
  shows "pmm_view s0 b tot (F \<union> {unat start..<unat start + n})
           (for_up n 0 (\<lambda>p s. pmm_release (start + p) s) s)"
proof (rule for_up_invariant[where I = "\<lambda>k. pmm_view s0 b tot (F \<union> {unat start..<unat start + k})"])
  show "pmm_view s0 b tot (F \<union> {unat start..<unat start + 0}) s" using assms by simp
next
  fix k t
  assume k: "k < n" and v: "pmm_view s0 b tot (F \<union> {unat start..<unat start + k}) t"
  then have u: "unat (start + (0 + of_nat k)) = unat start + k"
    using assms unat_u64_less[of tot] by (simp add: unat_index_add)
  have "F \<union> {unat start..<unat start + Suc k} = insert (unat start + k) (F \<union> {unat start..<unat start + k})"
    by auto
  then show "pmm_view s0 b tot (F \<union> {unat start..<unat start + Suc k}) (pmm_release (start + (0 + of_nat k)) t)"
    using pmm_view_release[OF v, of "start + (0 + of_nat k)"] u k assms by simp
qed

lemma pmm_view_reserve_range:
  assumes "pmm_view s0 b tot F s" and "unat start + n \<le> unat tot"
  shows "pmm_view s0 b tot (F - {unat start..<unat start + n}) (for_up n start pmm_reserve s)"
proof (rule for_up_invariant[where I = "\<lambda>k. pmm_view s0 b tot (F - {unat start..<unat start + k})"])
  show "pmm_view s0 b tot (F - {unat start..<unat start + 0}) s" using assms by simp
next
  fix k t
  assume k: "k < n" and v: "pmm_view s0 b tot (F - {unat start..<unat start + k}) t"
  then have u: "unat (start + of_nat k) = unat start + k"
    using assms unat_u64_less[of tot] by (simp add: unat_index_add)
  have "F - {unat start..<unat start + Suc k} = (F - {unat start..<unat start + k}) - {unat start + k}"
    by auto
  then show "pmm_view s0 b tot (F - {unat start..<unat start + Suc k}) (pmm_reserve (start + of_nat k) t)"
    using pmm_view_reserve[OF v, of "start + of_nat k"] u k assms by simp
qed

end
