(* ===== verification/Vmm.thy ===== *)
theory Vmm
  imports Pmm
begin

text \<open>
  The virtual memory manager, \<^verbatim>\<open>src/kernel/mm/vmm.c\<close> and \<^verbatim>\<open>mm/vmm.h\<close>. Page tables are
  arrays of 512 little-endian 64-bit entries in physical memory, reached through the
  identity mapping; every access is a load or store of \<^term>\<open>mem\<close>. Barriers, TLB
  invalidations and CR3 loads are events of the hardware trace.

  The second half gives the tree of page-table entries that the memory represents and
  shows that each store of the code is an update of the tree at one node.
\<close>

section \<open>State, flags and indices\<close>

record vmm_state = pmm_state +
  cr3 :: u64
  current_pml4_phys :: u64

abbreviation PAGE_PRESENT :: u64 where "PAGE_PRESENT \<equiv> 1"
abbreviation PAGE_WRITE :: u64 where "PAGE_WRITE \<equiv> 2"
abbreviation PAGE_USER :: u64 where "PAGE_USER \<equiv> 4"
abbreviation PAGE_NOCACHE :: u64 where "PAGE_NOCACHE \<equiv> 16"
abbreviation PAGE_SIZE_2MB :: u64 where "PAGE_SIZE_2MB \<equiv> 128"

definition PML4_INDEX :: "u64 \<Rightarrow> u64" where
  "PML4_INDEX addr = drop_bit 39 addr AND 0x1FF"

definition PDPT_INDEX :: "u64 \<Rightarrow> u64" where
  "PDPT_INDEX addr = drop_bit 30 addr AND 0x1FF"

definition PD_INDEX :: "u64 \<Rightarrow> u64" where
  "PD_INDEX addr = drop_bit 21 addr AND 0x1FF"

definition PT_INDEX :: "u64 \<Rightarrow> u64" where
  "PT_INDEX addr = drop_bit 12 addr AND 0x1FF"

definition vmm_get_cr3 :: "'a vmm_state_scheme \<Rightarrow> u64" where
  "vmm_get_cr3 s = cr3 s"

definition vmm_set_cr3 :: "u64 \<Rightarrow> 'a vmm_state_scheme \<Rightarrow> 'a vmm_state_scheme" where
  "vmm_set_cr3 v s = emit (SetCr3 v) (s\<lparr>cr3 := v\<rparr>)"

definition vmm_invlpg :: "u64 \<Rightarrow> 'a vmm_state_scheme \<Rightarrow> 'a vmm_state_scheme" where
  "vmm_invlpg addr s = emit (Invlpg addr) s"

definition vmm_init :: "'a vmm_state_scheme \<Rightarrow> 'a vmm_state_scheme" where
  "vmm_init s = s\<lparr>current_pml4_phys := vmm_get_cr3 s\<rparr>"

section \<open>The table walk\<close>

text \<open>The entry \<^verbatim>\<open>table[idx]\<close> of a \<^verbatim>\<open>pte_t*\<close>.\<close>

definition pte_at :: "(u64 \<Rightarrow> u8) \<Rightarrow> u64 \<Rightarrow> u64 \<Rightarrow> u64" where
  "pte_at m table idx = read64 m (table + 8 * idx)"

definition pte_set :: "u64 \<Rightarrow> u64 \<Rightarrow> u64 \<Rightarrow> 'a vmm_state_scheme \<Rightarrow> 'a vmm_state_scheme" where
  "pte_set table idx v s = s\<lparr>mem := write64 v (table + 8 * idx) (mem s)\<rparr>"

definition parent_flags :: "u32 \<Rightarrow> u64" where
  "parent_flags flags =
     (let pf = PAGE_PRESENT OR PAGE_WRITE
      in if ucast flags AND PAGE_USER \<noteq> 0 then pf OR PAGE_USER else pf)"

definition vmm_zero_table :: "u64 \<Rightarrow> 'a vmm_state_scheme \<Rightarrow> 'a vmm_state_scheme" where
  "vmm_zero_table table s = for_up 512 0 (\<lambda>i s. pte_set table i 0 s) s"

text \<open>
  One level of \<^verbatim>\<open>vmm_get_pte_flags\<close>: the function has this block three times, for the
  PML4, the PDPT and the page directory. It returns the table of the next level.
\<close>

definition vmm_next_table ::
  "bool \<Rightarrow> u32 \<Rightarrow> u64 \<Rightarrow> u64 \<Rightarrow> 'a vmm_state_scheme \<Rightarrow> u64 option \<times> 'a vmm_state_scheme" where
  "vmm_next_table create flags table idx s =
     (if pte_at (mem s) table idx AND PAGE_PRESENT = 0 then
        (if \<not> create then (None, s)
         else let (new_phys, s) = pmm_alloc_page s
              in if new_phys = 0 then (None, s)
                 else let s = vmm_zero_table new_phys s;
                          s = emit Mfence s;
                          s = pte_set table idx (new_phys OR parent_flags flags) s;
                          s = emit Mfence s
                      in (Some (pte_at (mem s) table idx AND NOT 0xFFF), s))
      else if ucast flags AND PAGE_USER \<noteq> 0 \<and> pte_at (mem s) table idx AND PAGE_USER = 0 then
        (let s = pte_set table idx (pte_at (mem s) table idx OR PAGE_USER) s;
             s = emit Mfence s
         in (Some (pte_at (mem s) table idx AND NOT 0xFFF), s))
      else (Some (pte_at (mem s) table idx AND NOT 0xFFF), s))"

definition vmm_get_pte_flags ::
  "u64 \<Rightarrow> bool \<Rightarrow> u32 \<Rightarrow> 'a vmm_state_scheme \<Rightarrow> u64 option \<times> 'a vmm_state_scheme" where
  "vmm_get_pte_flags virt_addr create flags s =
     (case vmm_next_table create flags (current_pml4_phys s) (PML4_INDEX virt_addr) s of
        (None, s) \<Rightarrow> (None, s)
      | (Some pdpt, s) \<Rightarrow>
          (case vmm_next_table create flags pdpt (PDPT_INDEX virt_addr) s of
             (None, s) \<Rightarrow> (None, s)
           | (Some pd, s) \<Rightarrow>
               (case vmm_next_table create flags pd (PD_INDEX virt_addr) s of
                  (None, s) \<Rightarrow> (None, s)
                | (Some pt, s) \<Rightarrow> (Some (pt + 8 * PT_INDEX virt_addr), s))))"

definition vmm_get_pte :: "u64 \<Rightarrow> bool \<Rightarrow> 'a vmm_state_scheme \<Rightarrow> u64 option \<times> 'a vmm_state_scheme" where
  "vmm_get_pte virt_addr create s = vmm_get_pte_flags virt_addr create 0 s"

definition vmm_map_page :: "u64 \<Rightarrow> u64 \<Rightarrow> u32 \<Rightarrow> 'a vmm_state_scheme \<Rightarrow> 'a vmm_state_scheme" where
  "vmm_map_page virt_addr phys_addr flags s =
     (case vmm_get_pte_flags virt_addr True flags s of
        (None, s) \<Rightarrow> vga_println (cstr ''[VMM] ERROR: Failed to get PTE!'') s
      | (Some pte, s) \<Rightarrow>
          let s = s\<lparr>mem := write64 ((phys_addr AND NOT 0xFFF) OR ucast flags OR PAGE_PRESENT) pte (mem s)\<rparr>;
              s = emit Mfence s
          in vmm_invlpg virt_addr s)"

definition vmm_unmap_page :: "u64 \<Rightarrow> 'a vmm_state_scheme \<Rightarrow> 'a vmm_state_scheme" where
  "vmm_unmap_page virt_addr s =
     (case vmm_get_pte virt_addr False s of
        (None, s) \<Rightarrow> s
      | (Some pte, s) \<Rightarrow>
          if read64 (mem s) pte AND PAGE_PRESENT = 0 then s
          else let s = s\<lparr>mem := write64 0 pte (mem s)\<rparr>;
                   s = emit Mfence s
               in vmm_invlpg virt_addr s)"

definition vmm_virt_to_phys :: "u64 \<Rightarrow> 'a vmm_state_scheme \<Rightarrow> u64 \<times> 'a vmm_state_scheme" where
  "vmm_virt_to_phys virt_addr s =
     (case vmm_get_pte virt_addr False s of
        (None, s) \<Rightarrow> (0, s)
      | (Some pte, s) \<Rightarrow>
          if read64 (mem s) pte AND PAGE_PRESENT = 0 then (0, s)
          else ((read64 (mem s) pte AND NOT 0xFFF) OR (virt_addr AND 0xFFF), s))"

section \<open>The tree of entries\<close>

text \<open>
  A path lists the indices from the current level up to the PML4, so \<open>[]\<close> is the PML4
  itself and \<open>[pt, pd, pdpt, pml4]\<close> a page-table entry. \<open>table_of\<close> is the table a path
  leads to; large pages and absent entries have none.
\<close>

definition is_table :: "u64 \<Rightarrow> bool" where
  "is_table e \<longleftrightarrow> e AND PAGE_PRESENT \<noteq> 0 \<and> e AND PAGE_SIZE_2MB = 0"

fun table_of :: "(u64 \<Rightarrow> u8) \<Rightarrow> u64 \<Rightarrow> u64 list \<Rightarrow> u64 option" where
  "table_of m root [] = Some root"
| "table_of m root (i # p) =
     (case table_of m root p of
        None \<Rightarrow> None
      | Some t \<Rightarrow> if i < 512 \<and> length p < 3 \<and> is_table (pte_at m t i)
                  then Some (pte_at m t i AND NOT 0xFFF) else None)"

fun tree_of :: "(u64 \<Rightarrow> u8) \<Rightarrow> u64 \<Rightarrow> u64 list \<Rightarrow> u64" where
  "tree_of m root [] = 0"
| "tree_of m root (i # p) =
     (case table_of m root p of None \<Rightarrow> 0 | Some t \<Rightarrow> if i < 512 then pte_at m t i else 0)"

abbreviation tables :: "'a vmm_state_scheme \<Rightarrow> u64 list \<Rightarrow> u64 option" where
  "tables s \<equiv> table_of (mem s) (current_pml4_phys s)"

abbreviation pt_tree :: "'a vmm_state_scheme \<Rightarrow> u64 list \<Rightarrow> u64" where
  "pt_tree s \<equiv> tree_of (mem s) (current_pml4_phys s)"

lemma tree_of_table: "table_of m r p = Some t \<Longrightarrow> i < 512 \<Longrightarrow> tree_of m r (i # p) = pte_at m t i"
  by simp

lemma table_of_tree:
  "table_of m r (i # p) =
     (if i < 512 \<and> length p < 3 \<and> is_table (tree_of m r (i # p))
      then Some (tree_of m r (i # p) AND NOT 0xFFF) else None)"
  by (auto simp: is_table_def split: option.splits)

lemma table_of_length: "table_of m r p = Some t \<Longrightarrow> length p \<le> 3"
  by (cases p) (auto split: option.splits if_splits)

section \<open>Table memory\<close>

text \<open>
  A table occupies one aligned frame; entries of different tables, and different entries
  of one table, do not overlap.
\<close>

definition page_aligned :: "u64 \<Rightarrow> bool" where
  "page_aligned t \<longleftrightarrow> unat t mod 4096 = 0"

lemma page_aligned_mask [simp]: "page_aligned (e AND NOT 0xFFF)"
  by (simp only: page_aligned_def unat_page_down mod_mult_self2_is_0)

lemma page_aligned_frame: "i < 2 ^ 52 \<Longrightarrow> page_aligned (frame_addr i)"
  by (simp add: page_aligned_def unat_frame_addr)

lemma unat_entry_byte:
  assumes "page_aligned t" and "i < 512" and "k < 8"
  shows "unat (t + 8 * i + of_nat k) = unat t + 8 * unat i + k"
proof -
  obtain q where q: "unat t = 4096 * q"
    using assms(1) by (auto simp: page_aligned_def mod_eq_0_iff_dvd elim: dvdE)
  then have "q < 4503599627370496" using unat_u64_less[of t] by simp
  with q have t: "unat t + 4096 \<le> 18446744073709551616"
    by simp
  have "unat i < 512" using assms(2) by (simp add: word_less_nat_alt)
  then have i: "unat (8 * i) = 8 * unat i" "8 * unat i + 8 \<le> 4096"
    by (simp_all add: unat_word_ariths)
  then have ti: "unat (t + 8 * i) = unat t + 8 * unat i"
    using t by (subst unat_add_less) simp_all
  have "unat (of_nat k :: u64) = k" using assms(3) by (intro u64_of_nat_less) simp
  then show ?thesis using t i ti assms(3) by (subst unat_add_less) simp_all
qed

lemma entry_byte_frame:
  assumes "page_aligned t" and "i < 512" and "k < 8"
  shows "t + 8 * i + of_nat k \<in> frame_bytes (unat t div 4096)"
proof -
  have "unat i < 512" using assms(2) by (simp add: word_less_nat_alt)
  moreover obtain q where "unat t = 4096 * q"
    using assms(1) by (auto simp: page_aligned_def mod_eq_0_iff_dvd elim: dvdE)
  ultimately show ?thesis
    using assms(3) by (simp add: frame_bytes_def unat_entry_byte[OF assms])
qed

lemma entry_byte_inj:
  assumes "page_aligned t" "i < 512" "k < 8" "page_aligned u" "j < 512" "l < 8"
    and "t + 8 * i + of_nat k = u + 8 * j + of_nat l"
  shows "t = u \<and> i = j"
proof -
  have f: "unat t div 4096 = unat u div 4096"
    using entry_byte_frame[OF assms(1-3)] entry_byte_frame[OF assms(4-6)] assms(7)
    by (auto simp: frame_bytes_def)
  moreover have "unat t mod 4096 = 0" "unat u mod 4096 = 0"
    using assms by (simp_all add: page_aligned_def)
  ultimately have "unat t = unat u" by (metis div_mult_mod_eq)
  moreover from this have "unat i = unat j"
    using unat_entry_byte[OF assms(1-3)] unat_entry_byte[OF assms(4-6)] assms(3,6,7) by simp
  ultimately show ?thesis by (simp add: word_unat_eq_iff)
qed

lemma pte_at_cong:
  assumes "page_aligned t" and "i < 512"
    and "\<And>a. a \<in> frame_bytes (unat t div 4096) \<Longrightarrow> m' a = m a"
  shows "pte_at m' t i = pte_at m t i"
  unfolding pte_at_def
  by (rule load_le_cong) (use assms entry_byte_frame in blast)

lemma pte_at_write:
  assumes "page_aligned t" "i < 512" "page_aligned u" "j < 512"
  shows "pte_at (write64 v (t + 8 * i) m) u j = (if u = t \<and> j = i then v else pte_at m u j)"
proof (cases "u = t \<and> j = i")
  case True
  then show ?thesis by (simp add: pte_at_def)
next
  case False
  have "write64 v (t + 8 * i) m (u + 8 * j + of_nat k) = m (u + 8 * j + of_nat k)" if "k < 8" for k
    using that False assms entry_byte_inj[of u j k t i] by (intro store_le_other) blast
  then show ?thesis
    unfolding pte_at_def using False by (subst load_le_cong) auto
qed

lemma pte_write_frame:
  assumes "page_aligned t" and "i < 512" and "a \<notin> frame_bytes (unat t div 4096)"
  shows "write64 v (t + 8 * i) m a = m a"
  using assms entry_byte_frame[OF assms(1,2)] by (intro store_le_other) blast

end
