(* ===== verification/VmmTree.thy ===== *)
theory VmmTree
  imports Vmm
begin

text \<open>
  Each store of \<^verbatim>\<open>vmm.c\<close> to a page table is an update of the tree of entries at one
  node. This theory has the invariant that makes this true (tables are distinct aligned
  frames, none of them free or part of the frame bitmap) and shows it for the three kinds
  of stores: a leaf entry, a flag of an upper entry, a link to a fresh zeroed table.
\<close>

section \<open>Stores and the tree\<close>

definition tables_separate :: "(u64 \<Rightarrow> u8) \<Rightarrow> u64 \<Rightarrow> bool" where
  "tables_separate m r \<longleftrightarrow> (\<forall>p t. table_of m r p = Some t \<longrightarrow> page_aligned t) \<and>
     (\<forall>p q t. table_of m r p = Some t \<longrightarrow> table_of m r q = Some t \<longrightarrow> p = q)"

lemma table_of_cong:
  assumes "\<And>p t. table_of m r p = Some t \<Longrightarrow>
      page_aligned t \<and> (\<forall>a \<in> frame_bytes (unat t div 4096). m' a = m a)"
  shows "table_of m' r p = table_of m r p" and "tree_of m' r p = tree_of m r p"
proof -
  have pte: "pte_at m' t i = pte_at m t i" if "table_of m r p = Some t" "i < 512" for p t i
    using assms[OF that(1)] that(2) by (intro pte_at_cong) auto
  show tab: "table_of m' r p = table_of m r p" for p
    by (induction p) (auto simp: pte split: option.splits)
  show "tree_of m' r p = tree_of m r p"
    by (cases p) (auto simp: tab pte split: option.splits)
qed

lemma pte_at_table_write:
  assumes "tables_separate m r" and "table_of m r p = Some t" and "i < 512"
    and "table_of m r q = Some u" and "j < 512"
  shows "pte_at (write64 v (t + 8 * i) m) u j = (if q = p \<and> j = i then v else pte_at m u j)"
proof -
  have "u = t \<longleftrightarrow> q = p" using assms(1,2,4) by (auto simp: tables_separate_def)
  moreover have "page_aligned t" "page_aligned u" using assms by (auto simp: tables_separate_def)
  ultimately show ?thesis using assms by (simp add: pte_at_write)
qed

text \<open>A store that links no table and unlinks none.\<close>

lemma store_keeps_tables:
  assumes sep: "tables_separate m r" and t: "table_of m r p = Some t" and i: "i < 512"
    and kind: "length p = 3 \<or> (is_table v = is_table (pte_at m t i) \<and>
                 v AND NOT 0xFFF = pte_at m t i AND NOT 0xFFF)"
  shows "table_of (write64 v (t + 8 * i) m) r q = table_of m r q"
    and "tree_of (write64 v (t + 8 * i) m) r = (tree_of m r)(i # p := v)"
proof -
  let ?m = "write64 v (t + 8 * i) m"
  show tab: "table_of ?m r q = table_of m r q" for q
  proof (induction q)
    case Nil
    then show ?case by simp
  next
    case (Cons j q)
    show ?case
    proof (cases "table_of m r q")
      case None
      then show ?thesis using Cons by simp
    next
      case (Some u)
      then show ?thesis
        using Cons kind t pte_at_table_write[OF sep t i Some, of j v] by auto
    qed
  qed
  show "tree_of ?m r = (tree_of m r)(i # p := v)"
  proof
    fix q
    show "tree_of ?m r q = ((tree_of m r)(i # p := v)) q"
      using t i pte_at_table_write[OF sep t i, of "tl q" _ "hd q" v]
      by (cases q) (auto simp: tab split: option.splits)
  qed
qed

text \<open>A store that links a zeroed table at \<open>f\<close>, which was no table before.\<close>

lemma store_links_table:
  assumes sep: "tables_separate m r" and t: "table_of m r p = Some t" and i: "i < 512"
    and p: "length p < 3" and old: "\<not> is_table (pte_at m t i)"
    and v: "is_table v" "v AND NOT 0xFFF = f"
    and f: "page_aligned f" "\<And>j. j < 512 \<Longrightarrow> pte_at m f j = 0" "\<And>q. table_of m r q \<noteq> Some f"
  shows "table_of (write64 v (t + 8 * i) m) r q = (if q = i # p then Some f else table_of m r q)"
    and "tree_of (write64 v (t + 8 * i) m) r = (tree_of m r)(i # p := v)"
proof -
  let ?m = "write64 v (t + 8 * i) m"
  have old_none: "table_of m r (i # p) = None" using t i old by simp
  have "page_aligned t" "f \<noteq> t" using sep t f(3) by (auto simp: tables_separate_def)
  then have zero: "pte_at ?m f j = 0" if "j < 512" for j
    using that f i by (simp add: pte_at_write)
  show tab: "table_of ?m r q = (if q = i # p then Some f else table_of m r q)" for q
  proof (induction q)
    case Nil
    then show ?case by simp
  next
    case (Cons j q)
    show ?case
    proof (cases "q = i # p")
      case True
      then show ?thesis using Cons old_none zero by (simp add: is_table_def)
    next
      case False
      then show ?thesis
        using Cons t i p v pte_at_table_write[OF sep t i, of q _ j v]
        by (auto split: option.splits)
    qed
  qed
  show "tree_of ?m r = (tree_of m r)(i # p := v)"
  proof
    fix q
    show "tree_of ?m r q = ((tree_of m r)(i # p := v)) q"
    proof (cases q)
      case Nil
      then show ?thesis by simp
    next
      case (Cons j q')
      show ?thesis
      proof (cases "q' = i # p")
        case True
        then show ?thesis using Cons old_none zero tab[of "i # p"] by (simp del: table_of.simps)
      next
        case False
        then show ?thesis
          using Cons t i pte_at_table_write[OF sep t i, of q' _ j v]
          by (auto simp: tab split: option.splits)
      qed
    qed
  qed
qed

section \<open>Zeroing a frame\<close>

lemma vmm_zero_table_spec:
  assumes "page_aligned t"
  obtains m where "vmm_zero_table t s = s\<lparr>mem := m\<rparr>" and "\<And>j. j < 512 \<Longrightarrow> pte_at m t j = 0"
    and "\<And>a. a \<notin> frame_bytes (unat t div 4096) \<Longrightarrow> m a = mem s a"
proof -
  have "\<exists>m. vmm_zero_table t s = s\<lparr>mem := m\<rparr> \<and> (\<forall>j. unat j < 512 \<longrightarrow> pte_at m t j = 0) \<and>
      (\<forall>a. a \<notin> frame_bytes (unat t div 4096) \<longrightarrow> m a = mem s a)"
    unfolding vmm_zero_table_def
  proof (rule for_up_invariant[where I = "\<lambda>k u. \<exists>m. u = s\<lparr>mem := m\<rparr> \<and>
        (\<forall>j. unat j < k \<longrightarrow> pte_at m t j = 0) \<and>
        (\<forall>a. a \<notin> frame_bytes (unat t div 4096) \<longrightarrow> m a = mem s a)"])
    show "\<exists>m. s = s\<lparr>mem := m\<rparr> \<and> (\<forall>j. unat j < 0 \<longrightarrow> pte_at m t j = 0) \<and>
        (\<forall>a. a \<notin> frame_bytes (unat t div 4096) \<longrightarrow> m a = mem s a)"
      by (intro exI[of _ "mem s"]) simp
  next
    fix k :: nat and u
    assume k: "k < 512" and "\<exists>m. u = s\<lparr>mem := m\<rparr> \<and> (\<forall>j. unat j < k \<longrightarrow> pte_at m t j = 0) \<and>
        (\<forall>a. a \<notin> frame_bytes (unat t div 4096) \<longrightarrow> m a = mem s a)"
    then obtain m where m: "u = s\<lparr>mem := m\<rparr>" "\<And>j. unat j < k \<Longrightarrow> pte_at m t j = 0"
      "\<And>a. a \<notin> frame_bytes (unat t div 4096) \<Longrightarrow> m a = mem s a" by blast
    have uk: "unat (of_nat k :: u64) = k" using k by (intro u64_of_nat_less) simp
    then have k512: "(of_nat k :: u64) < 512" using k by (simp add: word_less_nat_alt)
    let ?m = "write64 0 (t + 8 * of_nat k) m"
    have "pte_at ?m t j = 0" if "unat j < Suc k" for j
    proof (cases "j = of_nat k")
      case True
      then show ?thesis using assms k512 by (simp add: pte_at_write)
    next
      case False
      then have "unat j \<noteq> k" using uk by (metis word_unat_eq_iff)
      then have "unat j < k" using that by simp
      moreover have "j < 512" using that k by (simp add: word_less_nat_alt)
      ultimately show ?thesis using assms k512 m(2) by (simp add: pte_at_write)
    qed
    moreover have "?m a = mem s a" if "a \<notin> frame_bytes (unat t div 4096)" for a
      using that assms k512 m(3) by (simp add: pte_write_frame)
    ultimately show "\<exists>m. pte_set t (0 + of_nat k) 0 u = s\<lparr>mem := m\<rparr> \<and>
        (\<forall>j. unat j < Suc k \<longrightarrow> pte_at m t j = 0) \<and>
        (\<forall>a. a \<notin> frame_bytes (unat t div 4096) \<longrightarrow> m a = mem s a)"
      by (intro exI[of _ ?m]) (simp add: pte_set_def m(1))
  qed
  then show thesis using that by (auto simp: word_less_nat_alt)
qed

declare table_of.simps(2) [simp del] tree_of.simps(2) [simp del]

section \<open>States that agree on the frame bitmap\<close>

lemma free_pages_cong:
  assumes "bitmap t = bitmap s" and "total_pages t = total_pages s"
    and "\<And>a. a \<in> bitmap_bytes s \<Longrightarrow> mem t a = mem s a"
  shows "free_pages t = free_pages s"
proof -
  have "page_used t i = page_used s i" if "i < unat (total_pages s)" for i
  proof -
    have "i div 8 < (unat (total_pages s) + 7) div 8" using that by linarith
    then have "bitmap s + of_nat (i div 8) \<in> bitmap_bytes s" by (auto simp: bitmap_bytes_def)
    then show ?thesis using assms by (simp add: page_used_def)
  qed
  then show ?thesis using assms(2) by (auto simp: free_pages_def)
qed

lemma pmm_same:
  assumes "bitmap t = bitmap s" and "total_pages t = total_pages s" and "used_pages t = used_pages s"
    and "\<And>a. a \<in> bitmap_bytes s \<Longrightarrow> mem t a = mem s a"
  shows "free_pages t = free_pages s" "bitmap_bytes t = bitmap_bytes s"
    "pmm_inv t = pmm_inv s" "bitmap_safe t = bitmap_safe s"
proof -
  show f: "free_pages t = free_pages s" using assms by (intro free_pages_cong)
  show b: "bitmap_bytes t = bitmap_bytes s" using assms by (simp add: bitmap_bytes_def)
  show "pmm_inv t = pmm_inv s" "bitmap_safe t = bitmap_safe s"
    using assms f b by (simp_all add: pmm_inv_def bitmap_safe_def)
qed

lemma emit_mach [simp]: "mem (emit e s) = mem s" "hw_trace (emit e s) = hw_trace s @ [e]"
  by (simp_all add: emit_def)

lemma emit_pmm_fields [simp]:
  "bitmap (emit e s) = bitmap s" "total_pages (emit e s) = total_pages s"
  "used_pages (emit e s) = used_pages s"
  by (simp_all add: emit_def)

lemma emit_pmm [simp]:
  "free_pages (emit e s) = free_pages s" "bitmap_bytes (emit e s) = bitmap_bytes s"
  "pmm_inv (emit e s) = pmm_inv s" "bitmap_safe (emit e s) = bitmap_safe s"
  using pmm_same[of "emit e s" s] by simp_all

lemma emit_vmm_fields [simp]:
  "current_pml4_phys (emit e s) = current_pml4_phys s" "cr3 (emit e s) = cr3 s"
  by (simp_all add: emit_def)

lemma bm_set_hw_trace [simp]: "hw_trace (bm_set i s) = hw_trace s"
  by (simp add: bm_set_def)

lemma bm_set_vmm_fields [simp]:
  "current_pml4_phys (bm_set i s) = current_pml4_phys s" "cr3 (bm_set i s) = cr3 s"
  by (simp_all add: bm_set_def)

section \<open>The invariant\<close>

text \<open>
  Tables are aligned and distinct, no table frame is free or holds part of the frame
  bitmap, entries have no bit above the 52-bit physical address field, and the managed
  memory fits into that field.
\<close>

definition vmm_inv :: "'a vmm_state_scheme \<Rightarrow> bool" where
  "vmm_inv s \<longleftrightarrow> pmm_inv s \<and> bitmap_safe s \<and>
     tables_separate (mem s) (current_pml4_phys s) \<and>
     (\<forall>p t. tables s p = Some t \<longrightarrow> unat t div 4096 \<notin> free_pages s \<and>
        frame_bytes (unat t div 4096) \<inter> bitmap_bytes s = {}) \<and>
     (\<forall>p. drop_bit 52 (pt_tree s p) = 0) \<and> unat (total_pages s) \<le> 2 ^ 40"

lemma vmm_inv_emit [simp]: "vmm_inv (emit e s) = vmm_inv s"
  by (simp add: vmm_inv_def)

lemma vmm_invD:
  assumes "vmm_inv s"
  shows "pmm_inv s" "bitmap_safe s" "tables_separate (mem s) (current_pml4_phys s)"
    "tables s p = Some t \<Longrightarrow> page_aligned t"
    "tables s p = Some t \<Longrightarrow> unat t div 4096 \<notin> free_pages s"
    "tables s p = Some t \<Longrightarrow> a \<in> frame_bytes (unat t div 4096) \<Longrightarrow> a \<notin> bitmap_bytes s"
    "drop_bit 52 (pt_tree s p) = 0" "unat (total_pages s) \<le> 2 ^ 40"
  using assms unfolding vmm_inv_def tables_separate_def by blast+

text \<open>
  The bytes that belong neither to the bitmap nor to a table nor to a free frame: the
  kernel image, the stacks, the frames handed out before.
\<close>

definition kept_bytes :: "'a vmm_state_scheme \<Rightarrow> u64 set" where
  "kept_bytes s = {a. a \<notin> bitmap_bytes s \<and> unat a div 4096 \<notin> free_pages s \<and>
     (\<forall>p t. tables s p = Some t \<longrightarrow> unat t div 4096 \<noteq> unat a div 4096)}"

definition vmm_frame :: "'a vmm_state_scheme \<Rightarrow> 'a vmm_state_scheme \<Rightarrow> bool" where
  "vmm_frame s t \<longleftrightarrow>
     (\<exists>m n p. t = s\<lparr>mem := m, hw_trace := hw_trace s @ replicate n Mfence, used_pages := p\<rparr>) \<and>
     kept_bytes s \<subseteq> kept_bytes t \<and> (\<forall>a \<in> kept_bytes s. mem t a = mem s a)"

lemma vmm_frame_refl: "vmm_frame s s"
proof -
  have "s = s\<lparr>mem := mem s, hw_trace := hw_trace s @ replicate 0 Mfence, used_pages := used_pages s\<rparr>"
    by simp
  then show ?thesis unfolding vmm_frame_def by blast
qed

lemma vmm_frame_trans:
  assumes 1: "vmm_frame s t" and 2: "vmm_frame t u"
  shows "vmm_frame s u"
proof -
  obtain m n p where t: "t = s\<lparr>mem := m, hw_trace := hw_trace s @ replicate n Mfence, used_pages := p\<rparr>"
    using 1 unfolding vmm_frame_def by blast
  obtain m' n' p' where u: "u = t\<lparr>mem := m', hw_trace := hw_trace t @ replicate n' Mfence, used_pages := p'\<rparr>"
    using 2 unfolding vmm_frame_def by blast
  have "u = s\<lparr>mem := m', hw_trace := hw_trace s @ replicate (n + n') Mfence, used_pages := p'\<rparr>"
    unfolding u t by (simp add: replicate_add)
  then have "\<exists>m n p. u = s\<lparr>mem := m, hw_trace := hw_trace s @ replicate n Mfence, used_pages := p\<rparr>"
    by blast
  moreover have "kept_bytes s \<subseteq> kept_bytes u" "\<forall>a \<in> kept_bytes s. mem u a = mem s a"
    using 1 2 unfolding vmm_frame_def by auto
  ultimately show ?thesis unfolding vmm_frame_def by blast
qed

lemma vmm_frame_fields:
  assumes "vmm_frame s t"
  shows "bitmap t = bitmap s" "total_pages t = total_pages s" "cr3 t = cr3 s"
    "current_pml4_phys t = current_pml4_phys s" "vga_buffer t = vga_buffer s"
    "vga_cursor_x t = vga_cursor_x s" "vga_cursor_y t = vga_cursor_y s" "vga_color t = vga_color s"
    "vmm_state.more t = vmm_state.more s"
  using assms unfolding vmm_frame_def by auto

section \<open>Entry bits\<close>

lemma page_aligned_iff: "page_aligned t \<longleftrightarrow> t AND NOT 0xFFF = t"
proof
  assume "page_aligned t"
  then have "unat t div 4096 * 4096 = unat t" by (auto simp: page_aligned_def)
  then show "t AND NOT 0xFFF = t" by (simp only: word_u64_eq_iff unat_page_down)
next
  assume "t AND NOT 0xFFF = t"
  then show "page_aligned t" by (metis page_aligned_mask)
qed

lemma or_low_bits:
  assumes "page_aligned x" and "y AND NOT 0xFFF = 0"
  shows "(x OR y) AND NOT 0xFFF = x"
  using assms by (simp add: page_aligned_iff bit.conj_disj_distrib2)

lemma page_aligned_and_low:
  assumes "page_aligned x" and "y AND 0xFFF = y"
  shows "x AND y = 0"
proof -
  have "x AND y = (x AND NOT 0xFFF) AND (y AND 0xFFF)" using assms by (simp add: page_aligned_iff)
  also have "\<dots> = (x AND y) AND (NOT 0xFFF AND 0xFFF)" by (simp only: ac_simps)
  finally show ?thesis by simp
qed

lemma or_and_low:
  assumes "page_aligned x" and "y AND 0xFFF = y"
  shows "(x OR z) AND y = z AND y"
  using page_aligned_and_low[OF assms] by (simp add: bit.conj_disj_distrib2)

lemma parent_flags_cases: "parent_flags flags = 3 \<or> parent_flags flags = 7"
  by (simp add: parent_flags_def)

lemma link_entry:
  assumes "page_aligned x"
  shows "is_table (x OR parent_flags flags)" "(x OR parent_flags flags) AND NOT 0xFFF = x"
    "drop_bit 52 (x OR parent_flags flags) = drop_bit 52 x"
    "(x OR parent_flags flags) AND PAGE_PRESENT \<noteq> 0"
  using parent_flags_cases[of flags] or_low_bits[OF assms, of "parent_flags flags"]
    or_and_low[OF assms, of _ "parent_flags flags"]
  by (auto simp: is_table_def)

definition grow_entry :: "u32 \<Rightarrow> u64 \<Rightarrow> u64 \<Rightarrow> u64" where
  "grow_entry flags f e =
     (if e AND PAGE_PRESENT = 0 then f OR parent_flags flags
      else if ucast flags AND PAGE_USER \<noteq> 0 then e OR PAGE_USER else e)"

lemma or_user:
  "is_table (e OR PAGE_USER) = is_table e" "(e OR PAGE_USER) AND NOT 0xFFF = e AND NOT 0xFFF"
  "drop_bit 52 (e OR PAGE_USER) = drop_bit 52 e"
  by (simp_all add: is_table_def bit.conj_disj_distrib2)

lemma or_user_set: "e AND PAGE_USER \<noteq> 0 \<Longrightarrow> e OR PAGE_USER = e"
proof -
  assume "e AND PAGE_USER \<noteq> 0"
  then have "bit e 2" by (simp add: and_exp_eq_0_iff_not_bit[of e 2, simplified])
  then show ?thesis
    by (intro bit_word_eqI) (auto simp: bit_or_iff bit_exp_iff[of 2, simplified])
qed

section \<open>A fresh zeroed frame\<close>

lemma free_frame_bounds:
  assumes "vmm_inv s" and "f \<in> free_pages s"
  shows "0 < f" "f < 2 ^ 40" "page_aligned (frame_addr f)" "frame_addr f \<noteq> 0"
    "unat (frame_addr f) div 4096 = f" "drop_bit 52 (frame_addr f) = 0"
proof -
  show "0 < f" using pmm_source.avail_bounds[of s f] vmm_invD(1)[OF assms(1)] assms(2) by simp
  show f: "f < 2 ^ 40"
    using free_pages_less[OF assms(2)] vmm_invD(8)[OF assms(1)] by linarith
  then have "f < 2 ^ 52" by simp
  then show "page_aligned (frame_addr f)" "frame_addr f \<noteq> 0" "unat (frame_addr f) div 4096 = f"
    using \<open>0 < f\<close> frame_addr_eq_0[of f] unat_frame_addr[of f] by (auto intro: page_aligned_frame)
  have "unat (drop_bit 52 (frame_addr f)) = 0"
    using unat_frame_addr[of f] f by (simp add: unat_drop_bit_eq drop_bit_nat_def)
  then show "drop_bit 52 (frame_addr f) = 0" by (simp add: unsigned_eq_0_iff)
qed

lemma vmm_alloc_zero:
  assumes inv: "vmm_inv s" and ne: "free_pages s \<noteq> {}"
  defines "f \<equiv> Min (free_pages s)"
  defines "s1 \<equiv> vmm_zero_table (frame_addr f) (bm_set (of_nat f) s)"
  obtains m where "s1 = s\<lparr>mem := m, used_pages := used_pages s + 1\<rparr>"
    and "\<And>p. tables s1 p = tables s p" and "\<And>p. pt_tree s1 p = pt_tree s p"
    and "\<And>j. j < 512 \<Longrightarrow> pte_at m (frame_addr f) j = 0"
    and "free_pages s1 = free_pages s - {f}" and "pmm_inv s1" and "bitmap_safe s1"
    and "\<And>a. a \<notin> bitmap_bytes s \<Longrightarrow> unat a div 4096 \<noteq> f \<Longrightarrow> m a = mem s a"
proof -
  note D = vmm_invD[OF inv]
  have f: "f \<in> free_pages s" using ne by (simp add: f_def)
  note fb = free_frame_bounds[OF inv f]
  have uf: "unat (of_nat f :: u64) = f" using fb(2) by (intro u64_of_nat_less) simp
  have flt: "unat (of_nat f :: u64) < unat (total_pages s)" using f uf by (simp add: free_pages_less)
  let ?b = "bm_set (of_nat f) s"
  obtain m where m: "s1 = ?b\<lparr>mem := m\<rparr>" "\<And>j. j < 512 \<Longrightarrow> pte_at m (frame_addr f) j = 0"
    "\<And>a. a \<notin> frame_bytes f \<Longrightarrow> m a = mem ?b a"
    using vmm_zero_table_spec[OF fb(3), of ?b] fb(5) unfolding s1_def by metis
  have bm: "m a = mem ?b a" if "a \<in> bitmap_bytes s" for a
    using that D(2) f by (intro m(3)) (auto simp: bitmap_safe_def frame_bytes_def)
  have out: "m a = mem s a" if "a \<notin> bitmap_bytes s" "unat a div 4096 \<noteq> f" for a
    using that flt m(3)[of a] by (simp add: frame_bytes_def mem_bm_set)
  have p: "free_pages s1 = free_pages ?b" "pmm_inv s1 = pmm_inv ?b" "bitmap_safe s1 = bitmap_safe ?b"
    using pmm_same[of s1 ?b] bm by (simp_all add: m(1))
  have keep: "page_aligned t \<and> (\<forall>a \<in> frame_bytes (unat t div 4096). m a = mem s a)"
    if "tables s q = Some t" for q t
  proof (intro conjI ballI)
    show "page_aligned t" by (rule D(4)[OF that])
    fix a assume a: "a \<in> frame_bytes (unat t div 4096)"
    then have "unat a div 4096 \<noteq> f" using D(5)[OF that] f by (auto simp: frame_bytes_def)
    then show "m a = mem s a" by (rule out[OF D(6)[OF that a]])
  qed
  show thesis
  proof (rule that)
    show "s1 = s\<lparr>mem := m, used_pages := used_pages s + 1\<rparr>" by (simp add: m(1) bm_set_def)
    show "tables s1 q = tables s q" "pt_tree s1 q = pt_tree s q" for q
      using table_of_cong[of "mem s" "current_pml4_phys s" m, OF keep] by (simp_all add: m(1))
    show "free_pages s1 = free_pages s - {f}" using p(1) by (simp add: free_pages_set uf)
    show "pmm_inv s1" using p(2) pmm_inv_set[OF D(1), of "of_nat f"] f uf by simp
    show "bitmap_safe s1" using p(3) D(2) by (auto simp: bitmap_safe_def free_pages_set)
  qed (use m(2) out in auto)
qed

section \<open>One level of the walk\<close>

text \<open>
  \<open>vmm_grown q v s t\<close>: from \<open>s\<close> to \<open>t\<close> the entry at \<open>q\<close> became \<open>v\<close>, an entry that
  points to a table, and nothing else happened to the tree.
\<close>

definition vmm_grown :: "u64 list \<Rightarrow> u64 \<Rightarrow> 'a vmm_state_scheme \<Rightarrow> 'a vmm_state_scheme \<Rightarrow> bool" where
  "vmm_grown q v s t \<longleftrightarrow> vmm_inv t \<and> pt_tree t = (pt_tree s)(q := v) \<and> is_table v \<and>
     tables t q = Some (v AND NOT 0xFFF) \<and> (\<forall>p u. tables s p = Some u \<longrightarrow> tables t p = Some u) \<and>
     vmm_frame s t"

lemma vmm_inv_store:
  assumes inv: "vmm_inv s" and t: "tables s p = Some t" and i: "i < 512"
    and v: "length p = 3 \<or> (is_table v = is_table (pte_at (mem s) t i) \<and>
              v AND NOT 0xFFF = pte_at (mem s) t i AND NOT 0xFFF)" "drop_bit 52 v = 0"
  shows "vmm_inv (pte_set t i v s)" "tables (pte_set t i v s) q = tables s q"
    "pt_tree (pte_set t i v s) = (pt_tree s)(i # p := v)"
    "free_pages (pte_set t i v s) = free_pages s" "bitmap_bytes (pte_set t i v s) = bitmap_bytes s"
    "a \<notin> frame_bytes (unat t div 4096) \<Longrightarrow> mem (pte_set t i v s) a = mem s a"
proof -
  note D = vmm_invD[OF inv]
  let ?s = "pte_set t i v s"
  have m: "mem ?s = write64 v (t + 8 * i) (mem s)" "current_pml4_phys ?s = current_pml4_phys s"
    "total_pages ?s = total_pages s" "bitmap ?s = bitmap s" "used_pages ?s = used_pages s"
    by (simp_all add: pte_set_def)
  show tab: "tables ?s q = tables s q" for q
    using store_keeps_tables(1)[OF D(3) t i, of v q] v by (simp add: m)
  show tree: "pt_tree ?s = (pt_tree s)(i # p := v)"
    using store_keeps_tables(2)[OF D(3) t i, of v] v by (simp add: m)
  show out: "a \<notin> frame_bytes (unat t div 4096) \<Longrightarrow> mem ?s a = mem s a" for a
    using D(4)[OF t] i by (simp add: m pte_write_frame)
  have "mem ?s a = mem s a" if "a \<in> bitmap_bytes s" for a
    using that D(6)[OF t] by (intro out) blast
  note same = pmm_same[of ?s s, OF m(4) m(3) m(5) this]
  show "free_pages ?s = free_pages s" "bitmap_bytes ?s = bitmap_bytes s"
    using same(1,2) by auto
  have "tables_separate (mem ?s) (current_pml4_phys ?s)"
    using D(3) tab unfolding tables_separate_def m(2) by simp
  then show "vmm_inv ?s"
    using inv same tab tree v(2) m(3) unfolding vmm_inv_def by simp
qed

lemma kept_bytes_eq:
  assumes "bitmap_bytes t = bitmap_bytes s" "free_pages t = free_pages s" "\<And>p. tables t p = tables s p"
  shows "kept_bytes t = kept_bytes s"
  using assms by (simp add: kept_bytes_def)

lemma kept_bytes_table: "a \<in> kept_bytes s \<Longrightarrow> tables s p = Some t \<Longrightarrow> a \<notin> frame_bytes (unat t div 4096)"
  by (fastforce simp: kept_bytes_def frame_bytes_def)


lemma vmm_next_table_user:
  assumes inv: "vmm_inv s" and t: "tables s p = Some t" and p: "length p < 3" and i: "i < 512"
    and tb: "is_table (pt_tree s (i # p))"
  shows "\<exists>s'. vmm_next_table create flags t i s
      = (Some (pt_tree s (i # p) AND NOT 0xFFF), s') \<and>
      vmm_grown (i # p) (grow_entry flags f (pt_tree s (i # p))) s s' \<and> free_pages s' = free_pages s"
proof -
  define e where "e = pt_tree s (i # p)"
  have pe: "pte_at (mem s) t i = e" using tree_of_table[OF t i] by (simp add: e_def)
  have e: "is_table e" "e AND PAGE_PRESENT \<noteq> 0" using tb by (simp_all add: e_def is_table_def)
  have tab: "tables s (i # p) = Some (e AND NOT 0xFFF)"
    using i p e by (subst table_of_tree) (simp add: e_def)
  let ?u = "pte_set t i (e OR PAGE_USER) s"
  have d: "drop_bit 52 (e OR PAGE_USER) = 0"
    using vmm_invD(7)[OF inv, of "i # p"] by (simp only: or_user e_def)
  have "length p = 3 \<or> is_table (e OR PAGE_USER) = is_table (pte_at (mem s) t i) \<and>
      (e OR PAGE_USER) AND NOT 0xFFF = pte_at (mem s) t i AND NOT 0xFFF"
    by (simp only: pe or_user simp_thms)
  note st = vmm_inv_store[OF inv t i this d]
  have pu: "pte_at (mem ?u) t i = e OR PAGE_USER"
    using vmm_invD(4)[OF inv t] i by (simp add: pte_set_def pte_at_write)
  show ?thesis
    unfolding e_def[symmetric]
  proof (cases "ucast flags AND PAGE_USER \<noteq> 0 \<and> e AND PAGE_USER = 0")
    case True
    let ?s = "emit Mfence ?u"
    have "vmm_next_table create flags t i s = (Some (e AND NOT 0xFFF), ?s)"
      using True e pe pu or_user(2)[of e] by (simp add: vmm_next_table_def Let_def)
    moreover have "vmm_frame s ?s"
      unfolding vmm_frame_def
    proof (intro conjI ballI)
      have "?s = s\<lparr>mem := mem ?u, hw_trace := hw_trace s @ replicate 1 Mfence, used_pages := used_pages s\<rparr>"
        by (simp add: emit_def pte_set_def)
      then show "\<exists>m n p. ?s = s\<lparr>mem := m, hw_trace := hw_trace s @ replicate n Mfence, used_pages := p\<rparr>"
        by blast
      show "kept_bytes s \<subseteq> kept_bytes ?s" using kept_bytes_eq[of ?s s] st(2,4,5) by simp
      show "mem ?s a = mem s a" if "a \<in> kept_bytes s" for a
        using st(6) kept_bytes_table[OF that t] by simp
    qed
    moreover have "grow_entry flags f e = e OR PAGE_USER" using True e by (simp add: grow_entry_def)
    ultimately show "\<exists>s'. vmm_next_table create flags t i s = (Some (e AND NOT 0xFFF), s') \<and>
        vmm_grown (i # p) (grow_entry flags f e) s s' \<and> free_pages s' = free_pages s"
      using e st(1-4) tab or_user(1,2)[of e] by (simp add: vmm_grown_def)
  next
    case False
    then have "grow_entry flags f e = e"
      using e by (auto simp: grow_entry_def or_user_set)
    moreover have "vmm_next_table create flags t i s = (Some (e AND NOT 0xFFF), s)"
      using False e pe by (auto simp: vmm_next_table_def)
    moreover have "(pt_tree s)(i # p := e) = pt_tree s" by (simp add: e_def)
    ultimately show "\<exists>s'. vmm_next_table create flags t i s = (Some (e AND NOT 0xFFF), s') \<and>
        vmm_grown (i # p) (grow_entry flags f e) s s' \<and> free_pages s' = free_pages s"
      using inv e tab by (simp add: vmm_grown_def vmm_frame_refl)
  qed
qed

lemma vmm_next_table_alloc:
  assumes inv: "vmm_inv s" and t: "tables s p = Some t" and p: "length p < 3" and i: "i < 512"
    and e: "pt_tree s (i # p) AND PAGE_PRESENT = 0" and ne: "free_pages s \<noteq> {}"
  defines "f \<equiv> Min (free_pages s)"
  shows "\<exists>s'. vmm_next_table True flags t i s = (Some (frame_addr f), s') \<and>
      vmm_grown (i # p) (grow_entry flags (frame_addr f) (pt_tree s (i # p))) s s' \<and>
      free_pages s' = free_pages s - {f}"
proof -
  note D = vmm_invD[OF inv]
  have f: "f \<in> free_pages s" using ne by (simp add: f_def)
  note fb = free_frame_bounds[OF inv f]
  define v where "v = frame_addr f OR parent_flags flags"
  have v: "is_table v" "v AND NOT 0xFFF = frame_addr f" "drop_bit 52 v = 0"
    using link_entry[OF fb(3), of flags] fb(6) by (simp_all add: v_def)
  define s1 where "s1 = vmm_zero_table (frame_addr f) (bm_set (of_nat f) s)"
  obtain m where m: "s1 = s\<lparr>mem := m, used_pages := used_pages s + 1\<rparr>"
    "\<And>p. tables s1 p = tables s p" "\<And>p. pt_tree s1 p = pt_tree s p"
    "\<And>j. j < 512 \<Longrightarrow> pte_at m (frame_addr f) j = 0"
    "free_pages s1 = free_pages s - {f}" "pmm_inv s1" "bitmap_safe s1"
    "\<And>a. a \<notin> bitmap_bytes s \<Longrightarrow> unat a div 4096 \<noteq> f \<Longrightarrow> m a = mem s a"
    using vmm_alloc_zero[OF inv ne] unfolding s1_def f_def by metis
  have m1: "mem s1 = m" "current_pml4_phys s1 = current_pml4_phys s" "bitmap s1 = bitmap s"
    "total_pages s1 = total_pages s" by (simp_all add: m(1))
  have bb: "bitmap_bytes s1 = bitmap_bytes s" by (simp add: bitmap_bytes_def m1)
  have sep: "tables_separate m (current_pml4_phys s)"
    using D(3) m(2) by (simp add: tables_separate_def m1)
  have t1: "table_of m (current_pml4_phys s) p = Some t" using m(2)[of p] t by (simp add: m1)
  have old: "\<not> is_table (pte_at m t i)"
    using m(3)[of "i # p"] tree_of_table[OF t1 i] e by (simp add: m1 is_table_def)
  have fresh: "table_of m (current_pml4_phys s) q \<noteq> Some (frame_addr f)" for q
    using m(2)[of q] D(5)[of q "frame_addr f"] f fb(5) by (auto simp: m1)
  let ?u = "pte_set t i v s1"
  let ?s = "emit Mfence (pte_set t i v (emit Mfence s1))"
  have mu: "mem ?u = write64 v (t + 8 * i) m" "current_pml4_phys ?u = current_pml4_phys s"
    "bitmap ?u = bitmap s1" "total_pages ?u = total_pages s1" "used_pages ?u = used_pages s1"
    by (simp_all add: pte_set_def m1)
  note link = store_links_table[OF sep t1 i p old v(1,2) fb(3) m(4) fresh]
  have tab: "tables ?u q = (if q = i # p then Some (frame_addr f) else tables s q)" for q
    using link(1)[of q] m(2)[of q] by (simp add: mu m1)
  have tree: "pt_tree ?u = (pt_tree s)(i # p := v)"
    using link(2) m(3) by (auto simp: mu m1 fun_eq_iff)
  have out: "mem ?u a = m a" if "a \<notin> frame_bytes (unat t div 4096)" for a
    using that D(4)[OF t] i by (simp add: mu pte_write_frame)
  have "mem ?u a = mem s1 a" if "a \<in> bitmap_bytes s1" for a
    using that D(6)[OF t] out by (auto simp: bb m1)
  note same = pmm_same[of ?u s1, OF mu(3-5) this]
  have tt: "t \<noteq> frame_addr f" using fresh[of p] t1 by auto
  have "tables_separate (mem ?u) (current_pml4_phys ?u)"
    using D(3) fresh m(2) fb(3) unfolding tables_separate_def tab by (auto simp: m1 mu(2) split: if_splits)
  moreover have "frame_bytes f \<inter> bitmap_bytes s = {}"
    using D(2) f by (auto simp: bitmap_safe_def frame_bytes_def)
  ultimately have inv': "vmm_inv ?u"
    using inv same m(5-7) tab tree v(3) fb(5) bb unfolding vmm_inv_def
    by (auto simp: mu(4) m1(4))
  have s: "?s = emit Mfence (emit Mfence ?u)" by (simp add: emit_def pte_set_def)
  have "vmm_frame s ?s"
    unfolding vmm_frame_def
  proof (intro conjI ballI)
    have "?s = s\<lparr>mem := mem ?u, hw_trace := hw_trace s @ replicate 2 Mfence, used_pages := used_pages s + 1\<rparr>"
      by (simp add: emit_def pte_set_def m(1) numeral_2_eq_2)
    then show "\<exists>m n p. ?s = s\<lparr>mem := m, hw_trace := hw_trace s @ replicate n Mfence, used_pages := p\<rparr>"
      by blast
    show "kept_bytes s \<subseteq> kept_bytes ?s"
      using f fb(5) same(1,2) by (auto simp: s kept_bytes_def bb m(5) tab)
    show "mem ?s a = mem s a" if "a \<in> kept_bytes s" for a
      using that kept_bytes_table[OF that t] f out m(8)[of a] by (auto simp: s kept_bytes_def)
  qed
  moreover have "vmm_next_table True flags t i s = (Some (frame_addr f), ?s)"
  proof -
    have "pmm_alloc_page s = (frame_addr f, bm_set (of_nat f) s)"
      using pmm_alloc_page_Some[OF D(1) ne] by (simp add: f_def)
    moreover have "pte_at (mem s) t i AND PAGE_PRESENT = 0" using e tree_of_table[OF t i] by simp
    moreover have "pte_at (mem ?s) t i = v"
      using D(4)[OF t] i by (simp add: s mu(1) pte_at_write)
    ultimately show ?thesis
      using fb(4) v(2) by (simp add: vmm_next_table_def Let_def s1_def[symmetric] v_def[symmetric])
  qed
  moreover have "grow_entry flags (frame_addr f) (pt_tree s (i # p)) = v"
    using e by (simp add: grow_entry_def v_def)
  moreover have "free_pages ?s = free_pages s - {f}" using same(1) m(5) by (simp add: s)
  ultimately show ?thesis
    using inv' v tab tree table_of_tree[of "mem s" "current_pml4_phys s" i p] e
    by (auto simp: vmm_grown_def s is_table_def)
qed

end
