(* ===== verification/PmmInit.thy ===== *)
theory PmmInit
  imports Pmm
begin

text \<open>
  Correctness of \<^verbatim>\<open>pmm_init\<close>: what the boot loader's memory map has to satisfy, and
  which frames are free afterwards.
\<close>

section \<open>The memory map the code relies on\<close>

abbreviation map_count :: "(u64 \<Rightarrow> u8) \<Rightarrow> nat" where
  "map_count m \<equiv> unat (memory_map_entry_count m)"

definition map_entry :: "(u64 \<Rightarrow> u8) \<Rightarrow> nat \<Rightarrow> memory_map_entry_t" where
  "map_entry m i = memory_map_entries m (of_nat i)"

definition entry_end :: "memory_map_entry_t \<Rightarrow> nat" where
  "entry_end e = unat (e_base e) + unat (e_length e)"

definition usable_pages :: "(u64 \<Rightarrow> u8) \<Rightarrow> nat \<Rightarrow> nat set" where
  "usable_pages m n = (\<Union>i \<in> {i. i < n \<and> e_type (map_entry m i) = 1}.
     {unat (e_base (map_entry m i)) div 4096
        ..< unat (e_base (map_entry m i)) div 4096 + unat (e_length (map_entry m i)) div 4096})"

definition bitmap_start :: "u64 \<Rightarrow> u64" where
  "bitmap_start kernel_end = (kernel_end + 4095) AND NOT 0xFFF"

definition ram_pages :: "(u64 \<Rightarrow> u8) \<Rightarrow> nat" where
  "ram_pages m = Max (insert 0 ((\<lambda>i. entry_end (map_entry m i)) ` {..<map_count m})) div 4096"

definition reserved_end :: "(u64 \<Rightarrow> u8) \<Rightarrow> u64 \<Rightarrow> nat" where
  "reserved_end m kernel_end = (unat (bitmap_start kernel_end) + (ram_pages m + 7) div 8 + 4095) div 4096"

text \<open>
  What it means for a frame, without reference to the arithmetic of the code: all its bytes
  belong to an entry, some of them do; it holds a byte below the first megabyte, of the kernel
  image or of the bitmap.
\<close>

definition frame_within :: "memory_map_entry_t \<Rightarrow> nat \<Rightarrow> bool" where
  "frame_within e f \<longleftrightarrow> unat (e_base e) \<le> f * 4096 \<and> f * 4096 + 4096 \<le> entry_end e"

definition frame_meets :: "memory_map_entry_t \<Rightarrow> nat \<Rightarrow> bool" where
  "frame_meets e f \<longleftrightarrow> f * 4096 < entry_end e \<and> unat (e_base e) < f * 4096 + 4096"

definition usable_entries :: "(u64 \<Rightarrow> u8) \<Rightarrow> memory_map_entry_t set" where
  "usable_entries m = {map_entry m i | i. i < map_count m \<and> e_type (map_entry m i) = 1}"

definition usable_aligned :: "(u64 \<Rightarrow> u8) \<Rightarrow> bool" where
  "usable_aligned m \<longleftrightarrow> (\<forall>e \<in> usable_entries m. 4096 dvd unat (e_base e))"

definition frame_reserved :: "(u64 \<Rightarrow> u8) \<Rightarrow> u64 \<Rightarrow> u64 \<Rightarrow> nat \<Rightarrow> bool" where
  "frame_reserved m kernel_start kernel_end f \<longleftrightarrow> f * 4096 < 0x100000 \<or>
     unat kernel_start < f * 4096 + 4096 \<and> f * 4096 < unat (bitmap_start kernel_end) + (ram_pages m + 7) div 8"

text \<open>
  No entry wraps; the map ends below the kernel's end, so the bitmap does not overwrite
  it; the first megabyte and the kernel with its bitmap lie in the described memory.
\<close>

definition boot_map_ok :: "u64 \<Rightarrow> u64 \<Rightarrow> (u64 \<Rightarrow> u8) \<Rightarrow> bool" where
  "boot_map_ok kernel_start kernel_end m \<longleftrightarrow>
     (\<forall>i < map_count m. entry_end (map_entry m i) < 2 ^ 64) \<and>
     0x10002 + 24 * map_count m \<le> unat kernel_end \<and>
     unat kernel_end < 2 ^ 62 \<and> unat kernel_start \<le> unat kernel_end \<and>
     256 \<le> ram_pages m \<and> reserved_end m kernel_end \<le> ram_pages m"

lemma map_count_less: "map_count m < 65536"
  using unsigned_less[of "memory_map_entry_count m"] by simp

lemma pmm_max_addr_eq:
  assumes "\<forall>i < map_count m. entry_end (map_entry m i) < 2 ^ 64"
  shows "unat (pmm_max_addr (memory_map_entry_count m) m) = Max (insert 0 ((\<lambda>i. entry_end (map_entry m i)) ` {..<map_count m}))"
proof -
  let ?f = "\<lambda>i. entry_end (map_entry m i)"
  show ?thesis
    unfolding pmm_max_addr_def
  proof (rule for_up_invariant[where I = "\<lambda>k mx. unat mx = Max (insert 0 (?f ` {..<k}))"])
    show "unat (0 :: u64) = Max (insert 0 (?f ` {..<0}))" by simp
  next
    fix k and mx :: u64
    assume k: "k < map_count m" and mx: "unat mx = Max (insert 0 (?f ` {..<k}))"
    let ?e = "map_entry m k"
    have "unat (e_base ?e + e_length ?e) = ?f k"
      using assms k by (simp add: entry_end_def unat_word_ariths)
    moreover have "insert 0 (?f ` {..<Suc k}) = insert (?f k) (insert 0 (?f ` {..<k}))"
      by (auto simp: lessThan_Suc)
    moreover have "Max (insert (?f k) (insert 0 (?f ` {..<k}))) = max (?f k) (unat mx)"
      unfolding mx by (rule Max_insert) simp_all
    ultimately have "Max (insert 0 (?f ` {..<Suc k})) = max (unat (e_base ?e + e_length ?e)) (unat mx)"
      by simp
    then show "unat (let e = memory_map_entries m (0 + of_nat k); end_addr = e_base e + e_length e
          in if end_addr > mx then end_addr else mx) = Max (insert 0 (?f ` {..<Suc k}))"
      by (simp add: Let_def map_entry_def[symmetric] word_less_nat_alt max_def)
  qed
qed

lemma unat_bitmap_start:
  assumes "unat kernel_end < 2 ^ 62"
  shows "unat kernel_end \<le> unat (bitmap_start kernel_end)"
    and "unat (bitmap_start kernel_end) \<le> unat kernel_end + 4095"
proof -
  have "unat (kernel_end + 4095) = unat kernel_end + 4095"
    using assms by (simp add: unat_word_ariths)
  then have "unat (bitmap_start kernel_end) = (unat kernel_end + 4095) div 4096 * 4096"
    by (simp only: bitmap_start_def unat_page_down)
  then show "unat kernel_end \<le> unat (bitmap_start kernel_end)"
    and "unat (bitmap_start kernel_end) \<le> unat kernel_end + 4095"
    by linarith+
qed

lemma pmm_fill_bitmap_eq:
  "pmm_fill_bitmap n s =
     s\<lparr>mem := (\<lambda>a. if \<exists>k < unat n. a = bitmap s + of_nat k then 0xFF else mem s a)\<rparr>"
  unfolding pmm_fill_bitmap_def
proof (rule for_up_invariant[where I = "\<lambda>n t. t = s\<lparr>mem :=
        (\<lambda>a. if \<exists>k < n. a = bitmap s + of_nat k then 0xFF else mem s a)\<rparr>"])
  fix k t
  assume t: "t = s\<lparr>mem := (\<lambda>a. if \<exists>j < k. a = bitmap s + of_nat j then 0xFF else mem s a)\<rparr>"
  have "(\<lambda>a. if \<exists>j < k. a = bitmap s + of_nat j then 0xFF else mem s a)(bitmap s + of_nat k := 0xFF)
      = (\<lambda>a. if \<exists>j < Suc k. a = bitmap s + of_nat j then 0xFF else mem s a)"
    by (auto simp: fun_eq_iff less_Suc_eq)
  then show "t\<lparr>mem := (mem t)(bitmap t + (0 + of_nat k) := 0xFF)\<rparr> = s\<lparr>mem :=
        (\<lambda>a. if \<exists>j < Suc k. a = bitmap s + of_nat j then 0xFF else mem s a)\<rparr>"
    by (simp add: t)
qed simp

lemma total_pages_fill: "total_pages (pmm_fill_bitmap n s) = total_pages s"
  by (simp add: pmm_fill_bitmap_eq)

section \<open>The steps of the initialisation\<close>

lemma free_pages_filled:
  assumes "\<forall>a \<in> bitmap_bytes s. mem s a = 0xFF"
  shows "free_pages s = {}"
proof -
  have "page_used s i" if "i < unat (total_pages s)" for i
  proof -
    have "i div 8 < (unat (total_pages s) + 7) div 8" using that by simp
    then have "bitmap s + of_nat (i div 8) \<in> bitmap_bytes s" by (auto simp: bitmap_bytes_def)
    then have "mem s (bitmap s + of_nat (i div 8)) = mask 8" using assms by (simp add: mask_numeral)
    then show ?thesis by (simp add: page_used_def bit_mask_iff)
  qed
  then show ?thesis by (auto simp: free_pages_def)
qed

lemma map_entry_cong:
  assumes "i < map_count m" and "0x10002 + 24 * map_count m \<le> lo" and "lo < 2 ^ 63"
    and "\<And>a. unat a < lo \<Longrightarrow> m' a = m a"
  shows "map_entry m' i = map_entry m i"
proof -
  have i: "unat (of_nat i :: u64) = i" using assms(1) map_count_less[of m] by (simp add: u64_of_nat_less)
  have a: "unat (MEMORY_MAP_BASE + 2 + 24 * of_nat i + of_nat j :: u64) < lo" if "j < 24" for j
  proof -
    have "unat (MEMORY_MAP_BASE + 2 + 24 * of_nat i :: u64) = 0x10002 + 24 * i"
      using assms(1) map_count_less[of m] i by (simp add: unat_word_ariths)
    moreover have "0x10002 + 24 * i + j < lo" using assms(1,2) that by linarith
    ultimately show ?thesis using assms(3) by (simp add: unat_index_add)
  qed
  have j: "MEMORY_MAP_BASE + 2 + 24 * of_nat i + of_nat k + of_nat j
      = MEMORY_MAP_BASE + 2 + 24 * of_nat i + (of_nat (k + j) :: u64)" for k j
    by simp
  have "load_le n m' (MEMORY_MAP_BASE + 2 + 24 * of_nat i + of_nat k)
      = (load_le n m (MEMORY_MAP_BASE + 2 + 24 * of_nat i + of_nat k) :: 'w::len word)"
    if "k + n \<le> 24" for n k
    using that by (intro load_le_cong) (simp only: j, intro assms(4) a, simp)
  from this[of 0 8] this[of 8 8] this[of 16 4] this[of 20 4] show ?thesis
    by (simp add: map_entry_def memory_map_entries_def Let_def)
qed

lemma usable_pages_0: "usable_pages m 0 = {}"
  by (simp add: usable_pages_def)

lemma usable_pages_Suc:
  "usable_pages m (Suc n) = usable_pages m n \<union>
     (if e_type (map_entry m n) = 1
      then {unat (e_base (map_entry m n)) div 4096
             ..< unat (e_base (map_entry m n)) div 4096 + unat (e_length (map_entry m n)) div 4096}
      else {})"
proof -
  have "{i. i < Suc n \<and> e_type (map_entry m i) = 1}
      = {i. i < n \<and> e_type (map_entry m i) = 1} \<union> (if e_type (map_entry m n) = 1 then {n} else {})"
    by (auto simp: less_Suc_eq)
  then show ?thesis by (simp add: usable_pages_def)
qed

lemma pmm_view_free_usable:
  fixes s0 s :: "'a pmm_state_scheme"
  defines "m \<equiv> mem s0"
  assumes v: "pmm_view s0 b tot {} s"
    and lo: "0x10002 + 24 * map_count m \<le> lo" "lo < 2 ^ 63" "\<And>a. a \<in> bitmap_bytes s \<Longrightarrow> lo \<le> unat a"
    and fits: "\<And>i. i < map_count m \<Longrightarrow>
        unat (e_base (map_entry m i)) div 4096 + unat (e_length (map_entry m i)) div 4096 \<le> unat tot"
  shows "pmm_view s0 b tot (usable_pages m (map_count m)) (pmm_free_usable (memory_map_entry_count m) s)"
proof -
  have bb: "bitmap_bytes t = bitmap_bytes s" if "pmm_view s0 b tot F t" for F t
    using that v by (simp add: bitmap_bytes_def pmm_view_def)
  have low: "mem t a = m a" if "pmm_view s0 b tot F t" "unat a < lo" for F t a
    using that lo(3)[of a] bb[OF that(1)] by (auto simp: pmm_view_def m_def)
  show ?thesis
    unfolding pmm_free_usable_def
  proof (rule for_up_invariant[where I = "\<lambda>k. pmm_view s0 b tot (usable_pages m k)"])
    show "pmm_view s0 b tot (usable_pages m 0) s" using v by (simp add: usable_pages_def)
  next
    fix k t
    assume k: "k < map_count m" and t: "pmm_view s0 b tot (usable_pages m k) t"
    have e: "map_entry (mem t) k = map_entry m k"
      using k lo low[OF t] by (intro map_entry_cong[of k m lo]) auto
    have i: "memory_map_entries (mem t) (0 + of_nat k) = map_entry m k"
      using e by (simp add: map_entry_def)
    show "pmm_view s0 b tot (usable_pages m (Suc k))
       (let e = memory_map_entries (mem t) (0 + of_nat k)
        in if e_type e \<noteq> 1 then t
           else let start = e_base e div PAGE_SIZE; pages = e_length e div PAGE_SIZE
                in for_up (unat pages) 0 (\<lambda>p s. pmm_release (start + p) s) t)"
      unfolding i Let_def usable_pages_Suc
      using t pmm_view_release_range[OF t, of "e_base (map_entry m k) div PAGE_SIZE"
          "unat (e_length (map_entry m k) div PAGE_SIZE)"] fits[OF k]
      by (simp add: unat_div)
  qed
qed

lemma pmm_max_addr_pages:
  assumes "boot_map_ok kernel_start kernel_end m"
  shows "unat (pmm_max_addr (memory_map_entry_count m) m div PAGE_SIZE) = ram_pages m"
    and "ram_pages m < 2 ^ 52"
    and "i < map_count m \<Longrightarrow>
      unat (e_base (map_entry m i)) div 4096 + unat (e_length (map_entry m i)) div 4096 \<le> ram_pages m"
proof -
  have mx: "unat (pmm_max_addr (memory_map_entry_count m) m) = Max (insert 0 ((\<lambda>i. entry_end (map_entry m i)) ` {..<map_count m}))"
    using assms by (intro pmm_max_addr_eq) (simp add: boot_map_ok_def)
  then show r: "unat (pmm_max_addr (memory_map_entry_count m) m div PAGE_SIZE) = ram_pages m"
    by (simp add: unat_div ram_pages_def)
  then show "ram_pages m < 2 ^ 52"
    using unat_u64_less[of "pmm_max_addr (memory_map_entry_count m) m"] by (simp add: unat_div)
  assume "i < map_count m"
  then have "entry_end (map_entry m i) \<le> unat (pmm_max_addr (memory_map_entry_count m) m)"
    unfolding mx by (intro Max_ge) auto
  then have "entry_end (map_entry m i) div 4096 \<le> ram_pages m"
    unfolding r[symmetric] by (simp add: unat_div div_le_mono)
  moreover have "unat (e_base (map_entry m i)) div 4096 + unat (e_length (map_entry m i)) div 4096
      \<le> entry_end (map_entry m i) div 4096"
    unfolding entry_end_def by linarith
  ultimately show "unat (e_base (map_entry m i)) div 4096 + unat (e_length (map_entry m i)) div 4096
      \<le> ram_pages m" by linarith
qed

text \<open>The state before the entries are freed: the bitmap is placed and filled.\<close>

lemma pmm_view_start:
  assumes ok: "boot_map_ok kernel_start kernel_end (mem s)"
  defines "tot \<equiv> pmm_max_addr (memory_map_entry_count (mem s)) (mem s) div PAGE_SIZE"
  defines "s1 \<equiv> s\<lparr>total_pages := tot, bitmap := bitmap_start kernel_end\<rparr>"
  shows "pmm_view s1 (bitmap_start kernel_end) tot {}
           ((pmm_fill_bitmap ((tot + 7) div 8) s1)\<lparr>used_pages := tot\<rparr>)"
proof -
  let ?s = "(pmm_fill_bitmap ((tot + 7) div 8) s1)\<lparr>used_pages := tot\<rparr>"
  have "unat tot < 2 ^ 52" using pmm_max_addr_pages[OF ok] by (simp add: tot_def)
  then have n: "unat ((tot + 7) div 8) = (unat tot + 7) div 8"
    by (simp add: unat_div unat_word_ariths)
  have "\<forall>a \<in> bitmap_bytes ?s. mem ?s a = 0xFF"
    by (auto simp: pmm_fill_bitmap_eq bitmap_bytes_def n s1_def)
  then have "free_pages ?s = {}" by (rule free_pages_filled)
  moreover have "mem ?s a = mem s1 a" if "a \<notin> bitmap_bytes ?s" for a
    using that by (auto simp: pmm_fill_bitmap_eq bitmap_bytes_def n s1_def)
  ultimately show ?thesis
    by (simp add: pmm_view_def pmm_fill_bitmap_eq s1_def)
qed

lemma bitmap_extent:
  assumes ok: "boot_map_ok kernel_start kernel_end m" and "bitmap t = bitmap_start kernel_end"
    and "unat (total_pages t) = ram_pages m" and "a \<in> bitmap_bytes t"
  shows "unat kernel_end \<le> unat a" and "unat a < unat (bitmap_start kernel_end) + (ram_pages m + 7) div 8"
proof -
  have ke: "unat kernel_end < 2 ^ 62" using ok by (simp add: boot_map_ok_def)
  obtain k where k: "a = bitmap_start kernel_end + of_nat k" "k < (ram_pages m + 7) div 8"
    using assms by (auto simp: bitmap_bytes_def)
  have "ram_pages m < 2 ^ 52" using ok by (rule pmm_max_addr_pages)
  then have "unat a = unat (bitmap_start kernel_end) + k"
    using k unat_bitmap_start[OF ke] ke by (simp add: unat_index_add)
  then show "unat kernel_end \<le> unat a"
    and "unat a < unat (bitmap_start kernel_end) + (ram_pages m + 7) div 8"
    using unat_bitmap_start[OF ke] k(2) by linarith+
qed

lemma unat_reserved_end:
  assumes ok: "boot_map_ok kernel_start kernel_end m" and tot: "unat tot = ram_pages m"
  shows "unat ((bitmap_start kernel_end + (tot + 7) div 8 + PAGE_SIZE - 1) div PAGE_SIZE)
           = reserved_end m kernel_end"
proof -
  have ke: "unat kernel_end < 2 ^ 62" using ok by (simp add: boot_map_ok_def)
  have r: "ram_pages m < 2 ^ 52" using ok by (rule pmm_max_addr_pages)
  then have n: "unat ((tot + 7) div 8) = (ram_pages m + 7) div 8"
    using tot by (simp add: unat_div unat_word_ariths)
  have e: "bitmap_start kernel_end + (tot + 7) div 8 + PAGE_SIZE - 1
      = bitmap_start kernel_end + (tot + 7) div 8 + of_nat 4095" by simp
  have "unat (bitmap_start kernel_end + (tot + 7) div 8)
      = unat (bitmap_start kernel_end) + (ram_pages m + 7) div 8"
    using n r ke unat_bitmap_start[OF ke] by (simp add: unat_word_ariths)
  then show ?thesis
    using r ke unat_bitmap_start[OF ke] unfolding e unat_div
    by (subst unat_index_add) (simp_all add: reserved_end_def)
qed

lemma pmm_init_view:
  assumes ok: "boot_map_ok kernel_start kernel_end (mem s)"
  shows "pmm_view (s\<lparr>total_pages := pmm_max_addr (memory_map_entry_count (mem s)) (mem s) div PAGE_SIZE, bitmap := bitmap_start kernel_end\<rparr>)
     (bitmap_start kernel_end) (pmm_max_addr (memory_map_entry_count (mem s)) (mem s) div PAGE_SIZE)
     (usable_pages (mem s) (map_count (mem s)) - {..<256}
        - {unat kernel_start div 4096..<reserved_end (mem s) kernel_end})
     (pmm_init kernel_start kernel_end s)"
proof -
  define tot where "tot = pmm_max_addr (memory_map_entry_count (mem s)) (mem s) div PAGE_SIZE"
  define b where "b = bitmap_start kernel_end"
  define s1 where "s1 = s\<lparr>total_pages := tot, bitmap := b\<rparr>"
  define s2 where "s2 = (pmm_fill_bitmap ((tot + 7) div 8) s1)\<lparr>used_pages := tot\<rparr>"
  define U where "U = usable_pages (mem s) (map_count (mem s))"
  have m: "mem s1 = mem s" by (simp add: s1_def)
  have tot: "unat tot = ram_pages (mem s)"
    using pmm_max_addr_pages(1)[OF ok] by (simp add: tot_def)
  have v2: "pmm_view s1 b tot {} s2"
    using pmm_view_start[OF ok] by (simp add: s1_def s2_def b_def tot_def)
  then have s2: "bitmap s2 = b" "total_pages s2 = tot" by (auto simp: pmm_view_def)
  have v3: "pmm_view s1 b tot U (pmm_free_usable (memory_map_entry_count (mem s)) s2)"
    unfolding U_def m[symmetric]
  proof (rule pmm_view_free_usable[OF v2, where lo = "unat kernel_end"])
    show "0x10002 + 24 * map_count (mem s1) \<le> unat kernel_end" "unat kernel_end < 2 ^ 63"
      using ok by (simp_all add: m boot_map_ok_def)
    show "unat kernel_end \<le> unat a" if "a \<in> bitmap_bytes s2" for a
      using that bitmap_extent(1)[OF ok, of s2 a] s2 tot b_def by simp
    show "unat (e_base (map_entry (mem s1) i)) div 4096
        + unat (e_length (map_entry (mem s1) i)) div 4096 \<le> unat tot" if "i < map_count (mem s1)" for i
      using that pmm_max_addr_pages(3)[OF ok, of i] tot m by simp
  qed
  have v4: "pmm_view s1 b tot (U - {..<256}) (pmm_reserve_low (pmm_free_usable (memory_map_entry_count (mem s)) s2))"
    using pmm_view_reserve_range[OF v3, of 0 256] ok tot
    by (simp add: pmm_reserve_low_def boot_map_ok_def atLeast0LessThan)
  let ?stop = "unat ((b + (tot + 7) div 8 + PAGE_SIZE - 1) div PAGE_SIZE)"
  have e: "?stop = reserved_end (mem s) kernel_end"
    using unat_reserved_end[OF ok tot] by (simp add: b_def)
  have ks: "unat kernel_start div 4096 \<le> reserved_end (mem s) kernel_end"
    using ok unat_bitmap_start[of kernel_end]
    by (auto simp: boot_map_ok_def reserved_end_def intro!: div_le_mono)
  have "pmm_view s1 b tot (U - {..<256} - {unat kernel_start div 4096..<reserved_end (mem s) kernel_end})
      (pmm_reserve_kernel kernel_start ((tot + 7) div 8) (pmm_reserve_low (pmm_free_usable (memory_map_entry_count (mem s)) s2)))"
  proof -
    have "bitmap (pmm_reserve_low (pmm_free_usable (memory_map_entry_count (mem s)) s2)) = b" using v4 by (simp add: pmm_view_def)
    then show ?thesis
      using pmm_view_reserve_range[OF v4, of "kernel_start div PAGE_SIZE" "?stop - unat kernel_start div 4096"]
        ks e ok tot by (simp add: pmm_reserve_kernel_def Let_def unat_div boot_map_ok_def)
  qed
  moreover have "pmm_init kernel_start kernel_end s
      = pmm_reserve_kernel kernel_start ((tot + 7) div 8) (pmm_reserve_low (pmm_free_usable (memory_map_entry_count (mem s)) s2))"
    by (simp add: pmm_init_def Let_def s2_def s1_def b_def tot_def bitmap_start_def
        add.commute[of 4095] total_pages_fill)
  ultimately show ?thesis by (simp add: s1_def b_def tot_def U_def)
qed

section \<open>After initialisation\<close>

lemma pmm_init_facts:
  assumes "boot_map_ok kernel_start kernel_end (mem s)"
  defines "t \<equiv> pmm_init kernel_start kernel_end s"
  shows "unat (total_pages t) = ram_pages (mem s)" "bitmap t = bitmap_start kernel_end"
    "free_pages t = usable_pages (mem s) (map_count (mem s)) - {..<256}
                      - {unat kernel_start div 4096..<reserved_end (mem s) kernel_end}"
    "pmm_inv t" "bitmap_safe t" "a \<notin> bitmap_bytes t \<Longrightarrow> mem t a = mem s a"
proof -
  have v: "pmm_view (s\<lparr>total_pages := pmm_max_addr (memory_map_entry_count (mem s)) (mem s) div PAGE_SIZE, bitmap := bitmap_start kernel_end\<rparr>)
     (bitmap_start kernel_end) (pmm_max_addr (memory_map_entry_count (mem s)) (mem s) div PAGE_SIZE)
     (usable_pages (mem s) (map_count (mem s)) - {..<256}
        - {unat kernel_start div 4096..<reserved_end (mem s) kernel_end}) t"
    unfolding t_def by (rule pmm_init_view[OF assms(1)])
  note r = pmm_max_addr_pages[OF assms(1)]
  show tot: "unat (total_pages t) = ram_pages (mem s)" "bitmap t = bitmap_start kernel_end"
    using v r(1) by (auto simp: pmm_view_def)
  show free: "free_pages t = usable_pages (mem s) (map_count (mem s)) - {..<256}
                     - {unat kernel_start div 4096..<reserved_end (mem s) kernel_end}"
    using v by (simp add: pmm_view_def)
  show "pmm_inv t" using v r by (auto simp: pmm_inv_def pmm_view_def)
  show "a \<notin> bitmap_bytes t \<Longrightarrow> mem t a = mem s a" using v by (simp add: pmm_view_def)
  show "bitmap_safe t"
    unfolding bitmap_safe_def
  proof
    fix a assume a: "a \<in> bitmap_bytes t"
    have "unat kernel_start div 4096 \<le> unat a div 4096"
      using bitmap_extent(1)[OF assms(1) tot(2,1) a] assms(1)
      by (intro div_le_mono) (simp add: boot_map_ok_def)
    moreover have "unat a div 4096 < reserved_end (mem s) kernel_end"
      using bitmap_extent(2)[OF assms(1) tot(2,1) a] unfolding reserved_end_def by linarith
    ultimately show "unat a div 4096 \<notin> free_pages t" unfolding free by simp
  qed
qed

section \<open>The frames in terms of bytes\<close>

lemma reserved_frames:
  "f < 256 \<or> unat ks div 4096 \<le> f \<and> f < reserved_end m ke \<longleftrightarrow> frame_reserved m ks ke f"
proof -
  have "unat ks div 4096 \<le> f \<longleftrightarrow> unat ks < f * 4096 + 4096" by linarith
  moreover have "f < (x + 4095) div 4096 \<longleftrightarrow> f * 4096 < x" for x :: nat by linarith
  ultimately show ?thesis unfolding frame_reserved_def reserved_end_def by auto
qed

lemma usable_pages_iff:
  "f \<in> usable_pages m (map_count m) \<longleftrightarrow> (\<exists>e \<in> usable_entries m.
     unat (e_base e) div 4096 \<le> f \<and> f < unat (e_base e) div 4096 + unat (e_length e) div 4096)"
  unfolding usable_pages_def usable_entries_def by auto

lemma usable_frame_within:
  fixes e :: memory_map_entry_t
  assumes "4096 dvd unat (e_base e)"
  shows "unat (e_base e) div 4096 \<le> f \<and> f < unat (e_base e) div 4096 + unat (e_length e) div 4096
    \<longleftrightarrow> frame_within e f"
proof -
  obtain b where b: "unat (e_base e) = 4096 * b" using assms by (auto simp: dvd_def)
  show ?thesis unfolding frame_within_def entry_end_def b by (simp, linarith)
qed

lemma usable_frame_meets:
  "unat (e_base e) div 4096 \<le> f \<and> f < unat (e_base e) div 4096 + unat (e_length e) div 4096 \<Longrightarrow> frame_meets e f"
  unfolding frame_meets_def entry_end_def by linarith

lemma pmm_init_free:
  assumes "boot_map_ok kernel_start kernel_end (mem s)"
  shows "free_pages (pmm_init kernel_start kernel_end s)
      \<subseteq> {f. (\<exists>e \<in> usable_entries (mem s). frame_meets e f) \<and> \<not> frame_reserved (mem s) kernel_start kernel_end f}"
    and "usable_aligned (mem s) \<Longrightarrow> free_pages (pmm_init kernel_start kernel_end s)
      = {f. (\<exists>e \<in> usable_entries (mem s). frame_within e f) \<and> \<not> frame_reserved (mem s) kernel_start kernel_end f}"
proof -
  have "f \<in> free_pages (pmm_init kernel_start kernel_end s) \<longleftrightarrow>
      f \<in> usable_pages (mem s) (map_count (mem s)) \<and> \<not> frame_reserved (mem s) kernel_start kernel_end f" for f
    unfolding pmm_init_facts(3)[OF assms] reserved_frames[symmetric] by auto
  note free = this[unfolded usable_pages_iff]
  show "free_pages (pmm_init kernel_start kernel_end s)
      \<subseteq> {f. (\<exists>e \<in> usable_entries (mem s). frame_meets e f) \<and> \<not> frame_reserved (mem s) kernel_start kernel_end f}"
    using free usable_frame_meets by blast
  assume "usable_aligned (mem s)"
  then show "free_pages (pmm_init kernel_start kernel_end s)
      = {f. (\<exists>e \<in> usable_entries (mem s). frame_within e f) \<and> \<not> frame_reserved (mem s) kernel_start kernel_end f}"
    using free usable_frame_within unfolding usable_aligned_def by blast
qed

text \<open>
  The alignment matters: \<^verbatim>\<open>pmm_init\<close> rounds base and length of an entry down separately, so an
  entry that starts inside a frame makes that frame free, although its first bytes lie before
  the entry, in whatever the map says of them.
\<close>

lemma pmm_init_unaligned:
  assumes "boot_map_ok kernel_start kernel_end (mem s)" and "e \<in> usable_entries (mem s)"
    and "\<not> 4096 dvd unat (e_base e)" and "4096 \<le> unat (e_length e)"
    and "\<not> frame_reserved (mem s) kernel_start kernel_end (unat (e_base e) div 4096)"
  shows "unat (e_base e) div 4096 \<in> free_pages (pmm_init kernel_start kernel_end s)"
    and "unat (e_base e) div 4096 * 4096 < unat (e_base e)"
proof -
  have "0 < unat (e_length e) div 4096" using assms(4) by (simp add: div_greater_zero_iff)
  then have "unat (e_base e) div 4096 \<in> usable_pages (mem s) (map_count (mem s))"
    unfolding usable_pages_iff using assms(2) by auto
  then show "unat (e_base e) div 4096 \<in> free_pages (pmm_init kernel_start kernel_end s)"
    unfolding pmm_init_facts(3)[OF assms(1)] using assms(5)[folded reserved_frames] by auto
  have "unat (e_base e) div 4096 * 4096 \<noteq> unat (e_base e)" using assms(3) by (metis dvd_triv_right)
  then show "unat (e_base e) div 4096 * 4096 < unat (e_base e)"
    using div_times_less_eq_dividend[of "unat (e_base e)" 4096] by linarith
qed

section \<open>A concrete boot\<close>

text \<open>
  A boot map with two usable entries, the low 640 KiB and 128 KiB above the first
  megabyte, and a kernel of 64 KiB.
\<close>

definition example_map :: "u64 \<Rightarrow> u8" where
  "example_map = (\<lambda>_. 0)(0x10000 := 2, 0x1000C := 0x0A, 0x10012 := 1,
     0x1001C := 0x10, 0x10024 := 0x02, 0x1002A := 1)"

definition blank_screen :: "u16 list" where
  "blank_screen = replicate 2000 0"

definition example_boot :: pmm_state where
  "example_boot = \<lparr>mem = example_map, hw_trace = [], vga_buffer = blank_screen,
     vga_cursor_x = 0, vga_cursor_y = 0, vga_color = 15,
     bitmap = 0, total_pages = 0, used_pages = 0\<rparr>"

lemma mem_example_boot: "mem example_boot = example_map"
  by (simp add: example_boot_def)

lemma example_map_entries:
  "memory_map_entry_count example_map = 2"
  "map_entry example_map 0 = \<lparr>e_base = 0, e_length = 0xA0000, e_type = 1, e_reserved = 0\<rparr>"
  "map_entry example_map 1 = \<lparr>e_base = 0x100000, e_length = 0x20000, e_type = 1, e_reserved = 0\<rparr>"
  by code_simp+

lemma example_ram: "ram_pages example_map = 288"
proof -
  have "{..<map_count example_map} = {0, 1}" by (auto simp: example_map_entries)
  then have "(\<lambda>i. entry_end (map_entry example_map i)) ` {..<map_count example_map} = {0xA0000, 0x120000}"
    by (simp add: example_map_entries[unfolded One_nat_def] entry_end_def)
  then show ?thesis by (simp add: ram_pages_def)
qed

lemma example_reserved_end:
  "bitmap_start 0x110000 = 0x110000" "reserved_end example_map 0x110000 = 273"
  by (simp_all add: reserved_end_def bitmap_start_def example_ram)

lemma example_boot_ok: "boot_map_ok 0x100000 0x110000 (mem example_boot)"
proof -
  have "\<forall>i < map_count example_map. entry_end (map_entry example_map i) < 2 ^ 64"
    by (auto simp: example_map_entries[unfolded One_nat_def] entry_end_def less_2_cases_iff)
  then show ?thesis
    by (simp add: boot_map_ok_def example_boot_def example_ram example_reserved_end
        example_map_entries)
qed

lemma example_aligned: "usable_aligned example_map"
  unfolding usable_aligned_def usable_entries_def
  by (auto simp: example_map_entries[unfolded One_nat_def] less_2_cases_iff)

definition example_kernel :: pmm_state where
  "example_kernel = pmm_init 0x100000 0x110000 example_boot"

lemma example_free: "free_pages example_kernel = {273..<288}"
proof -
  have "usable_pages example_map (Suc (Suc 0)) = {0..<160} \<union> {256..<288}"
    by (simp only: usable_pages_Suc example_map_entries[unfolded One_nat_def] usable_pages_0) simp
  then have u: "usable_pages example_map 2 = {0..<160} \<union> {256..<288}"
    by (simp only: numeral_2_eq_2)
  have "usable_pages example_map 2 - {..<256} - {256..<273} = {273..<288}" unfolding u by auto
  then show ?thesis
    using pmm_init_facts(3)[OF example_boot_ok]
    by (simp add: example_kernel_def mem_example_boot example_reserved_end example_map_entries)
qed

lemma example_kernel_facts:
  "pmm_inv example_kernel" "bitmap_safe example_kernel" "total_pages example_kernel = 288"
  "bitmap example_kernel = 0x110000"
proof -
  note f = pmm_init_facts[OF example_boot_ok]
  show "pmm_inv example_kernel" "bitmap_safe example_kernel"
    using f(4,5) by (simp_all add: example_kernel_def)
  show "bitmap example_kernel = 0x110000"
    using f(2) by (simp add: example_kernel_def example_reserved_end)
  have "unat (total_pages example_kernel) = unat (288 :: u64)"
    using f(1) by (simp add: example_kernel_def mem_example_boot example_ram)
  then show "total_pages example_kernel = 288" by (simp only: word_u64_eq_iff)
qed

section \<open>Properties\<close>

text \<open>
  C2: after \<^verbatim>\<open>pmm_init\<close> on a boot memory map whose entries do not wrap, the manager covers every
  frame up to the highest address described. If the usable entries start on page boundaries, a frame is free exactly
  if all its bytes lie in one usable entry and none lies below the first megabyte, in the
  kernel image or in the bitmap; for any other map, a free frame has a byte in a usable entry
  and none in the reserved areas. The counter of used pages is right, the bitmap lies in
  reserved frames, and no byte outside the bitmap was written.
\<close>

theorem pmm_init_correct:
  assumes "boot_map_ok kernel_start kernel_end (mem s)"
  shows "let t = pmm_init kernel_start kernel_end s; reserved = frame_reserved (mem s) kernel_start kernel_end in
    unat (total_pages t) = ram_pages (mem s) \<and> bitmap t = bitmap_start kernel_end \<and>
    (usable_aligned (mem s) \<longrightarrow>
       free_pages t = {f. (\<exists>e \<in> usable_entries (mem s). frame_within e f) \<and> \<not> reserved f}) \<and>
    free_pages t \<subseteq> {f. (\<exists>e \<in> usable_entries (mem s). frame_meets e f) \<and> \<not> reserved f} \<and>
    pmm_inv t \<and> bitmap_safe t \<and> (\<forall>a. a \<notin> bitmap_bytes t \<longrightarrow> mem t a = mem s a)"
  using pmm_init_facts[OF assms] pmm_init_free[OF assms] by (simp add: Let_def)

lemma pmm_init_correct_witness:
  "free_pages (pmm_init 0x100000 0x110000 example_boot)
     = {f. (\<exists>e \<in> usable_entries example_map. frame_within e f) \<and> \<not> frame_reserved example_map 0x100000 0x110000 f} \<and>
   free_pages (pmm_init 0x100000 0x110000 example_boot) = {273..<288} \<and>
   pmm_inv (pmm_init 0x100000 0x110000 example_boot)"
  using pmm_init_correct[OF example_boot_ok] example_aligned example_free
  by (simp add: Let_def mem_example_boot example_kernel_def)

text \<open>
  C6: \<^verbatim>\<open>pmm_alloc_page\<close> returns the address of the lowest free frame, which it takes out
  of the free set, keeping the invariant, counting it and writing only the bitmap; with no
  free frame it returns 0 and changes nothing.
\<close>

theorem pmm_alloc_page_correct:
  assumes "pmm_inv s"
  shows "if free_pages s = {} then pmm_alloc_page s = (0, s)
    else let (p, t) = pmm_alloc_page s; f = Min (free_pages s) in
      p = frame_addr f \<and> p \<noteq> 0 \<and> unat p = f * 4096 \<and> free_pages t = free_pages s - {f} \<and>
      pmm_inv t \<and> unat (used_pages t) = unat (used_pages s) + 1 \<and>
      (\<forall>a. a \<notin> bitmap_bytes s \<longrightarrow> mem t a = mem s a)"
proof (cases "free_pages s = {}")
  case True
  then show ?thesis using pmm_alloc_page_None[OF assms] by simp
next
  case False
  define f where "f = Min (free_pages s)"
  have f: "f \<in> free_pages s" using False by (simp add: f_def)
  then have b: "0 < f" "f < 2 ^ 52" using pmm_source.avail_bounds[OF assms] by auto
  then have u: "unat (of_nat f :: u64) = f" by (intro u64_of_nat_less) simp
  have "unat (of_nat f :: u64) < unat (total_pages s)" using f u by (simp add: free_pages_less)
  then have "\<forall>a. a \<notin> bitmap_bytes s \<longrightarrow> mem (bm_set (of_nat f) s) a = mem s a"
    by (simp add: mem_bm_set)
  then show ?thesis
    using False f b u pmm_alloc_page_Some[OF assms False] pmm_inv_set[OF assms, of "of_nat f"]
      used_pages_set[OF assms, of "of_nat f"]
    by (simp add: Let_def f_def[symmetric] free_pages_set unat_frame_addr frame_addr_eq_0)
qed

lemma pmm_alloc_page_correct_witness:
  "fst (pmm_alloc_page example_kernel) = 0x111000 \<and>
   free_pages (snd (pmm_alloc_page example_kernel)) = {274..<288}"
proof -
  have "Min {273..<288} = (273 :: nat)" by (rule Min_eqI) auto
  moreover have "{273..<288} - {273} = {274..<288 :: nat}" by auto
  ultimately show ?thesis
    using pmm_alloc_page_correct[OF example_kernel_facts(1)] example_free
    by (simp add: split_beta Let_def frame_addr_def)
qed

text \<open>
  C7: if the usable entries of the memory map start on page boundaries, then from the
  initialised state \<open>n\<close> allocations, as long as that many frames are free, return \<open>n\<close> different
  page-aligned frames, each with all its bytes in a usable entry and none below the first
  megabyte, in the kernel image or in the bitmap; one further allocation after all frames are
  taken fails.
\<close>

theorem pmm_allocations_disjoint:
  assumes "boot_map_ok kernel_start kernel_end (mem s)" and "usable_aligned (mem s)"
    and "n \<le> card (free_pages (pmm_init kernel_start kernel_end s))"
  shows "\<exists>fs. fst (take_frames pmm_alloc_page n (pmm_init kernel_start kernel_end s)) = map frame_addr fs \<and>
     length fs = n \<and> distinct fs \<and> distinct (map frame_addr fs) \<and>
     (\<forall>f \<in> set fs. (\<exists>e \<in> usable_entries (mem s). frame_within e f) \<and> f < ram_pages (mem s) \<and>
        \<not> frame_reserved (mem s) kernel_start kernel_end f \<and>
        frame_bytes f \<inter> bitmap_bytes (pmm_init kernel_start kernel_end s) = {}) \<and>
     (n = card (free_pages (pmm_init kernel_start kernel_end s)) \<longrightarrow>
        fst (pmm_alloc_page (snd (take_frames pmm_alloc_page n (pmm_init kernel_start kernel_end s)))) = 0)"
proof -
  define t where "t = pmm_init kernel_start kernel_end s"
  note i = pmm_init_facts[OF assms(1), folded t_def]
  obtain fs where fs: "fst (take_frames pmm_alloc_page n t) = map frame_addr fs" "length fs = n"
    "distinct fs" "set fs \<subseteq> free_pages t"
    "free_pages (snd (take_frames pmm_alloc_page n t)) = free_pages t - set fs"
    "pmm_inv (snd (take_frames pmm_alloc_page n t))"
    using pmm_source.take_frames_distinct[OF i(4)] assms(3) unfolding t_def by metis
  have "frame_addr f \<noteq> frame_addr g" if "f \<in> set fs" "g \<in> set fs" "f \<noteq> g" for f g
    using that fs(4) pmm_source.avail_bounds[OF i(4), of f] pmm_source.avail_bounds[OF i(4), of g]
      frame_addr_inj[of f g] by auto
  then have "distinct (map frame_addr fs)" using fs(3) by (auto simp: distinct_map inj_on_def)
  moreover have "frame_bytes f \<inter> bitmap_bytes t = {}" if "f \<in> set fs" for f
    using that fs(4) i(5) by (auto simp: frame_bytes_def bitmap_safe_def)
  moreover have "fst (pmm_alloc_page (snd (take_frames pmm_alloc_page n t))) = 0"
    if "n = card (free_pages t)"
  proof -
    have "card (set fs) = card (free_pages t)" using fs(2,3) that by (simp add: distinct_card)
    then have "set fs = free_pages t" using fs(4) by (intro card_subset_eq) auto
    then show ?thesis using fs(5,6) by (simp add: pmm_source.alloc_null_iff)
  qed
  moreover have "f < ram_pages (mem s)" if "f \<in> set fs" for f
    using that fs(4) free_pages_less[of f t] i(1) by auto
  ultimately show ?thesis
    unfolding t_def[symmetric] using fs(1-4) pmm_init_free(2)[OF assms(1,2), folded t_def]
    by (intro exI[of _ fs]) fastforce
qed

lemma pmm_allocations_disjoint_witness:
  "\<exists>fs. fst (take_frames pmm_alloc_page 15 example_kernel) = map frame_addr fs \<and> distinct fs \<and>
     fst (pmm_alloc_page (snd (take_frames pmm_alloc_page 15 example_kernel))) = 0"
  using pmm_allocations_disjoint[OF example_boot_ok, of 15] example_free example_aligned
  by (auto simp: example_kernel_def mem_example_boot)

text \<open>
  C9: allocating a frame and freeing it gives back the same set of free frames and the same
  count of used frames; freeing a frame that is already free changes nothing.
\<close>

theorem pmm_alloc_free_roundtrip:
  assumes "pmm_inv s" and "free_pages s \<noteq> {}"
  shows "let (p, t) = pmm_alloc_page s; u = pmm_free_page p t in
    free_pages u = free_pages s \<and> used_pages u = used_pages s \<and> pmm_inv u \<and> pmm_free_page p u = u"
proof -
  obtain p t where pt: "pmm_alloc_page s = (p, t)" by force
  obtain i where i: "i \<in> free_pages s" "0 < i" "i < 2 ^ 52" "p = frame_addr i"
    "free_pages t = free_pages s - {i}" "pmm_inv t"
    using pmm_source.alloc_takes[OF assms(1)] pmm_source.alloc_null_iff[OF assms(1)] assms(2) pt
    by (metis fst_conv snd_conv)
  have tot: "total_pages t = total_pages s" using pmm_alloc_page_fields(1)[of s] pt by simp
  then have lt: "i < unat (total_pages t)" using i(1) by (simp add: free_pages_less)
  define u where "u = pmm_free_page p t"
  have u: "free_pages u = free_pages s" "pmm_inv u"
    using pmm_free_page_frame[OF i(6) lt i(2)] i by (auto simp: u_def)
  have "total_pages u = total_pages s"
    using tot by (simp add: u_def pmm_free_page_def pmm_release_def)
  then have "unat (used_pages u) = unat (used_pages s)"
    using u assms(1) by (simp add: pmm_inv_def)
  moreover have "pmm_free_page p u = u"
  proof -
    have "\<not> page_used u i" using i(1) u(1) by (auto simp: free_pages_def)
    then show ?thesis
      using i(4) unat_frame_div[OF i(3)] by (simp add: pmm_free_page_def pmm_release_def bm_test_iff)
  qed
  ultimately show ?thesis
    using u by (simp add: pt Let_def u_def[symmetric] word_u64_eq_iff)
qed

lemma pmm_alloc_free_roundtrip_witness:
  "let (p, t) = pmm_alloc_page example_kernel in free_pages (pmm_free_page p t) = {273..<288}"
  using pmm_alloc_free_roundtrip[OF example_kernel_facts(1)] example_free
  by (simp add: split_beta Let_def)

text \<open>
  C10: \<^verbatim>\<open>pmm_free_page\<close> does not check its argument against the size of the bitmap: freeing
  an address behind the managed memory clears a bit of whatever lies behind the bitmap and
  decrements the counter of used pages.
\<close>

theorem pmm_free_page_unchecked:
  fixes s :: "'a pmm_state_scheme"
  assumes "unat phys div 4096 \<ge> 8 * ((unat (total_pages s) + 7) div 8)"
    and "page_used s (unat phys div 4096)"
  shows "page_byte s (phys div PAGE_SIZE) \<notin> bitmap_bytes s \<and>
    mem (pmm_free_page phys s) (page_byte s (phys div PAGE_SIZE))
      \<noteq> mem s (page_byte s (phys div PAGE_SIZE)) \<and>
    used_pages (pmm_free_page phys s) = used_pages s - 1"
proof -
  let ?i = "phys div PAGE_SIZE"
  have u: "unat ?i = unat phys div 4096" by (simp add: unat_div)
  have "page_byte s ?i \<noteq> bitmap s + of_nat k" if "k < (unat (total_pages s) + 7) div 8" for k
  proof -
    have "k < 2 ^ 64" "unat ?i div 8 < 2 ^ 64" "k \<noteq> unat ?i div 8"
      using that assms(1) unat_u64_less[of "total_pages s"] unat_u64_less[of ?i] u
      by (auto simp: less_mult_imp_div_less)
    then have "unat (of_nat k :: u64) \<noteq> unat (of_nat (unat ?i div 8) :: u64)"
      by (simp add: u64_of_nat_less)
    then show ?thesis unfolding page_byte_nat by auto
  qed
  then have "page_byte s ?i \<notin> bitmap_bytes s" by (auto simp: bitmap_bytes_def)
  moreover have "page_used s (unat ?i)" using assms(2) u by simp
  moreover from this have "\<not> page_used (bm_clear ?i s) (unat ?i)"
    using page_used_clear[of "unat ?i" ?i s] unat_u64_less[of ?i] by simp
  ultimately show ?thesis
    by (auto simp: pmm_free_page_def pmm_release_def bm_test_iff used_pages_bm page_used_def
        page_byte_nat bm_clear_def)
qed

text \<open>Two frames whose bitmap byte is followed by a byte of other data.\<close>

definition example_overrun :: pmm_state where
  "example_overrun = example_boot\<lparr>mem := (\<lambda>_. 0xFF), bitmap := 0x110000, total_pages := 2, used_pages := 2\<rparr>"

lemma pmm_free_page_unchecked_witness:
  "mem (pmm_free_page 0x8000 example_overrun) 0x110001 \<noteq> 0xFF"
  using pmm_free_page_unchecked[of example_overrun "0x8000"]
  by (simp add: example_overrun_def example_boot_def page_used_def page_byte_def)

end
