(* ===== verification/VmmMap.thy ===== *)
theory VmmMap
  imports VmmTree PmmInit
begin

text \<open>
  What the page tables mean to the processor, and that \<^verbatim>\<open>vmm_map_page\<close>,
  \<^verbatim>\<open>vmm_unmap_page\<close> and \<^verbatim>\<open>vmm_virt_to_phys\<close> of \<^verbatim>\<open>mm/vmm.c\<close> update and read that
  meaning at exactly one page.
\<close>

section \<open>Virtual page numbers\<close>

definition vpn :: "u64 \<Rightarrow> u64" where
  "vpn va = take_bit 36 (drop_bit 12 va)"

definition va_path :: "u64 \<Rightarrow> u64 list" where
  "va_path va = [PT_INDEX va, PD_INDEX va, PDPT_INDEX va, PML4_INDEX va]"

lemma index_bits:
  "PML4_INDEX va = take_bit 9 (drop_bit 39 va)" "PDPT_INDEX va = take_bit 9 (drop_bit 30 va)"
  "PD_INDEX va = take_bit 9 (drop_bit 21 va)" "PT_INDEX va = take_bit 9 (drop_bit 12 va)"
  by (simp_all add: PML4_INDEX_def PDPT_INDEX_def PD_INDEX_def PT_INDEX_def take_bit_eq_mask mask_numeral)

lemma index_less [simp]:
  "PML4_INDEX va < 512" "PDPT_INDEX va < 512" "PD_INDEX va < 512" "PT_INDEX va < 512"
proof -
  have "unat (take_bit 9 (x :: u64)) < 512" for x
    by (simp add: unsigned_take_bit_eq take_bit_nat_def)
  then show "PML4_INDEX va < 512" "PDPT_INDEX va < 512" "PD_INDEX va < 512" "PT_INDEX va < 512"
    by (simp_all add: index_bits word_less_nat_alt)
qed

lemma va_path_vpn: "va_path va = va_path va' \<longleftrightarrow> vpn va = vpn va'"
proof
  assume p: "va_path va = va_path va'"
  have b: "bit va (n + k) = bit va' (n + k)"
    if "take_bit 9 (drop_bit n va) = take_bit 9 (drop_bit n va')" "k < 9" for n k
    using arg_cong[OF that(1), of "\<lambda>w. bit w k"] that(2) by (simp add: bit_take_bit_iff bit_drop_bit_eq)
  show "vpn va = vpn va'"
  proof (rule bit_word_eqI)
    fix k assume "k < LENGTH(64)"
    consider "k < 9" | "9 \<le> k" "k < 18" | "18 \<le> k" "k < 27" | "27 \<le> k" "k < 36" | "36 \<le> k" by linarith
    then show "bit (vpn va) k = bit (vpn va') k"
      using p b[of 12 k] b[of 21 "k - 9"] b[of 30 "k - 18"] b[of 39 "k - 27"]
      by cases (auto simp: va_path_def index_bits vpn_def bit_take_bit_iff bit_drop_bit_eq)
  qed
next
  assume v: "vpn va = vpn va'"
  have "take_bit 9 (drop_bit (12 + n) w) = take_bit 9 (drop_bit n (vpn w))" if "n + 9 \<le> 36" for n and w :: u64
    using that by (intro bit_word_eqI) (auto simp: vpn_def bit_take_bit_iff bit_drop_bit_eq ac_simps)
  from this[of 0] this[of 9] this[of 18] this[of 27] show "va_path va = va_path va'"
    by (simp add: va_path_def index_bits v)
qed

section \<open>Address translation by the processor\<close>

text \<open>
  The four-level walk of the architecture: the physical address field of an entry is
  bits 12 to 51; a PDPT or page-directory entry with bit 7 set maps a large page.
\<close>

definition phys_field :: "u64 \<Rightarrow> u64" where
  "phys_field e = e AND 0xFFFFFFFFFF000"

definition mmu_translate :: "(u64 \<Rightarrow> u8) \<Rightarrow> u64 \<Rightarrow> u64 \<Rightarrow> u64 option" where
  "mmu_translate m root va =
     (let e4 = pte_at m root (PML4_INDEX va) in
      if \<not> is_table e4 then None
      else let e3 = pte_at m (phys_field e4) (PDPT_INDEX va) in
      if e3 AND PAGE_PRESENT = 0 then None
      else if e3 AND PAGE_SIZE_2MB \<noteq> 0 then Some ((phys_field e3 AND NOT (mask 30)) OR (va AND mask 30))
      else let e2 = pte_at m (phys_field e3) (PD_INDEX va) in
      if e2 AND PAGE_PRESENT = 0 then None
      else if e2 AND PAGE_SIZE_2MB \<noteq> 0 then Some ((phys_field e2 AND NOT (mask 21)) OR (va AND mask 21))
      else let e1 = pte_at m (phys_field e2) (PT_INDEX va) in
      if e1 AND PAGE_PRESENT = 0 then None else Some (phys_field e1 OR (va AND 0xFFF)))"

definition translation :: "'a vmm_state_scheme \<Rightarrow> u64 \<Rightarrow> u64 option" where
  "translation s va = mmu_translate (mem s) (current_pml4_phys s) va"

text \<open>The same on the tree of entries.\<close>

definition tree_translate :: "(u64 list \<Rightarrow> u64) \<Rightarrow> u64 \<Rightarrow> u64 option" where
  "tree_translate E va =
     (let e4 = E [PML4_INDEX va]; e3 = E [PDPT_INDEX va, PML4_INDEX va];
          e2 = E [PD_INDEX va, PDPT_INDEX va, PML4_INDEX va]; e1 = E (va_path va) in
      if \<not> is_table e4 then None
      else if e3 AND PAGE_PRESENT = 0 then None
      else if e3 AND PAGE_SIZE_2MB \<noteq> 0 then Some ((phys_field e3 AND NOT (mask 30)) OR (va AND mask 30))
      else if e2 AND PAGE_PRESENT = 0 then None
      else if e2 AND PAGE_SIZE_2MB \<noteq> 0 then Some ((phys_field e2 AND NOT (mask 21)) OR (va AND mask 21))
      else if e1 AND PAGE_PRESENT = 0 then None else Some (phys_field e1 OR (va AND 0xFFF)))"

lemma phys_field_plain: "drop_bit 52 e = 0 \<Longrightarrow> phys_field e = e AND NOT 0xFFF"
proof (rule bit_word_eqI)
  fix k assume d: "drop_bit 52 e = 0"
  have c: "(0xFFFFFFFFFF000 :: u64) = mask 52 AND NOT (mask 12)" by (simp add: mask_numeral)
  have "\<not> bit e k" if "52 \<le> k"
    using arg_cong[OF d, of "\<lambda>w. bit w (k - 52)"] that by (simp add: bit_drop_bit_eq)
  then have "bit (e AND mask 52 AND NOT (mask 12)) k = bit (e AND NOT (mask 12)) k"
    by (cases "52 \<le> k") (auto simp: bit_simps)
  moreover have "NOT 0xFFF = NOT (mask 12 :: u64)" by (simp add: mask_numeral)
  ultimately show "bit (phys_field e) k = bit (e AND NOT 0xFFF) k"
    unfolding phys_field_def c by (simp only:)
qed

lemma table_below: "is_table (tree_of m r (i # p)) \<Longrightarrow> length p < 3 \<Longrightarrow> i < 512 \<Longrightarrow>
    table_of m r (i # p) = Some (tree_of m r (i # p) AND NOT 0xFFF)"
  by (subst table_of_tree) simp

lemma pte_below:
  assumes "is_table (tree_of m r (i # p))" "length p < 3" "i < 512" "j < 512"
  shows "pte_at m (tree_of m r (i # p) AND NOT 0xFFF) j = tree_of m r (j # i # p)"
  using tree_of_table[OF table_below[OF assms(1-3)] assms(4)] by simp

lemma tree_root: "i < 512 \<Longrightarrow> tree_of m r [i] = pte_at m r i"
  by (simp add: tree_of_table)

lemma tree_child_absent: "\<not> is_table (tree_of m r (i # p)) \<Longrightarrow> tree_of m r (j # i # p) = 0"
  by (simp add: tree_of.simps(2)[of m r j] table_of_tree)

lemma translation_tree:
  assumes "vmm_inv s"
  shows "translation s va = tree_translate (pt_tree s) va"
proof -
  let ?E = "pt_tree s"
  have ph: "phys_field (?E p) = ?E p AND NOT 0xFFF" for p
    by (rule phys_field_plain[OF vmm_invD(7)[OF assms]])
  have below: "pte_at (mem s) (phys_field (?E (i # p))) j = ?E (j # i # p)"
    if "is_table (?E (i # p))" "length p < 3" "i < 512" "j < 512" for i p j
    using pte_below[OF that] ph by (simp only:)
  have root: "pte_at (mem s) (current_pml4_phys s) (PML4_INDEX va) = ?E [PML4_INDEX va]"
    by (simp add: tree_root)
  show ?thesis
    unfolding translation_def mmu_translate_def tree_translate_def root va_path_def Let_def
    by (auto simp: below is_table_def)
qed

section \<open>Growing the tree\<close>

definition absent :: "u64 \<Rightarrow> bool" where
  "absent e \<longleftrightarrow> e AND PAGE_PRESENT = 0"

text \<open>The entries a walk along the indices \<open>is\<close> below the path \<open>p\<close> passes.\<close>

fun nodes :: "u64 list \<Rightarrow> u64 list \<Rightarrow> u64 list set" where
  "nodes p [] = {}"
| "nodes p (i # is) = insert (i # p) (nodes (i # p) is)"

fun absent_count :: "(u64 list \<Rightarrow> u64) \<Rightarrow> u64 list \<Rightarrow> u64 list \<Rightarrow> nat" where
  "absent_count E p [] = 0"
| "absent_count E p (i # is) = (if absent (E (i # p)) then 1 else 0) + absent_count E (i # p) is"

definition tree_grows :: "u64 list set \<Rightarrow> (u64 list \<Rightarrow> u64) \<Rightarrow> (u64 list \<Rightarrow> u64) \<Rightarrow> bool" where
  "tree_grows Q E E' \<longleftrightarrow>
     (\<forall>q. E' q = E q \<or> q \<in> Q \<and> (absent (E q) \<or> is_table (E q)) \<and> is_table (E' q))"

lemma nodes_length: "q \<in> nodes p is \<Longrightarrow> length p < length q \<and> length q \<le> length p + length is"
  by (induction p "is" rule: nodes.induct) auto

lemma nodes_self: "p \<notin> nodes p is"
  using nodes_length by blast

lemma absent_count_cong:
  "(\<And>q. q \<in> nodes p is \<Longrightarrow> E' q = E q) \<Longrightarrow> absent_count E' p is = absent_count E p is"
  by (induction p "is" rule: nodes.induct) auto

lemma tree_grows_trans:
  "tree_grows Q E E' \<Longrightarrow> tree_grows R E' E'' \<Longrightarrow> tree_grows (Q \<union> R) E E''"
  unfolding tree_grows_def by (metis Un_iff)

lemma tree_translate_kinds:
  "tree_translate E va =
     (let e4 = E [PML4_INDEX va]; e3 = E [PDPT_INDEX va, PML4_INDEX va];
          e2 = E [PD_INDEX va, PDPT_INDEX va, PML4_INDEX va]; e1 = E (va_path va) in
      if \<not> is_table e4 then None
      else if absent e3 then None
      else if \<not> is_table e3 then Some ((phys_field e3 AND NOT (mask 30)) OR (va AND mask 30))
      else if absent e2 then None
      else if \<not> is_table e2 then Some ((phys_field e2 AND NOT (mask 21)) OR (va AND mask 21))
      else if absent e1 then None else Some (phys_field e1 OR (va AND 0xFFF)))"
  unfolding tree_translate_def Let_def absent_def is_table_def by (simp cong: if_cong)

lemma absent_not_table: "absent e \<Longrightarrow> \<not> is_table e"
  by (simp add: absent_def is_table_def)

lemma absent_0 [simp]: "absent 0"
  by (simp add: absent_def)

lemma tree_translate_grows:
  assumes g: "tree_grows Q E E'" and Q: "\<And>q. q \<in> Q \<Longrightarrow> length q \<le> 3"
    and closed: "\<And>i p j. \<not> is_table (E (i # p)) \<Longrightarrow> E (j # i # p) = 0"
  shows "tree_translate E' va = tree_translate E va"
proof -
  have leaf: "E' (va_path va) = E (va_path va)"
    using g Q[of "va_path va"] unfolding tree_grows_def by (force simp: va_path_def)
  have up: "E' q = E q \<or> (absent (E q) \<or> is_table (E q)) \<and> is_table (E' q)" for q
    using g unfolding tree_grows_def by blast
  define p4 where "p4 = [PML4_INDEX va]"
  define p3 where "p3 = PDPT_INDEX va # p4"
  define p2 where "p2 = PD_INDEX va # p3"
  have c: "\<not> is_table (E p4) \<Longrightarrow> E p3 = 0" "\<not> is_table (E p3) \<Longrightarrow> E p2 = 0"
    "\<not> is_table (E p2) \<Longrightarrow> E (va_path va) = 0"
    unfolding p2_def p3_def p4_def va_path_def using closed by blast+
  have n: "absent (E q) \<Longrightarrow> \<not> is_table (E q)" "absent (E' q) \<Longrightarrow> \<not> is_table (E' q)" for q
    by (rule absent_not_table; assumption)+
  show ?thesis
    unfolding tree_translate_kinds Let_def leaf p4_def[symmetric] p3_def[symmetric] p2_def[symmetric]
    using up[of p4] up[of p3] up[of p2] c n[of p4] n[of p3] n[of p2] absent_0
    by (cases "is_table (E p4)"; cases "is_table (E p3)"; cases "is_table (E p2)"; auto)
qed

section \<open>The creating walk\<close>

text \<open>The three levels of \<^verbatim>\<open>vmm_get_pte_flags\<close> as one recursion over the indices.\<close>

fun descend :: "u32 \<Rightarrow> u64 \<Rightarrow> u64 list \<Rightarrow> 'a vmm_state_scheme \<Rightarrow> u64 option \<times> 'a vmm_state_scheme" where
  "descend flags t [] s = (Some t, s)"
| "descend flags t (i # is) s =
     (case vmm_next_table True flags t i s of
        (None, s) \<Rightarrow> (None, s)
      | (Some u, s) \<Rightarrow> descend flags u is s)"

lemma vmm_get_pte_flags_descend:
  "vmm_get_pte_flags va True flags s =
     (case descend flags (current_pml4_phys s) [PML4_INDEX va, PDPT_INDEX va, PD_INDEX va] s of
        (r, s') \<Rightarrow> (map_option (\<lambda>pt. pt + 8 * PT_INDEX va) r, s'))"
  by (simp add: vmm_get_pte_flags_def split: prod.splits option.splits)

abbreviation wants_user :: "u32 \<Rightarrow> bool" where
  "wants_user flags \<equiv> ucast flags AND PAGE_USER \<noteq> 0"

lemma grow_entry_user:
  assumes "page_aligned f" and "wants_user flags"
  shows "grow_entry flags f e AND PAGE_USER \<noteq> 0"
proof -
  have "(f OR parent_flags flags) AND PAGE_USER = parent_flags flags AND PAGE_USER"
    by (rule or_and_low[OF assms(1)]) simp
  then show ?thesis
    using assms(2) by (simp add: grow_entry_def parent_flags_def bit.conj_disj_distrib2)
qed

lemma vmm_next_table_create:
  assumes inv: "vmm_inv s" and t: "tables s p = Some t" and p: "length p < 3" and i: "i < 512"
    and small: "absent (pt_tree s (i # p)) \<or> is_table (pt_tree s (i # p))"
  shows "if absent (pt_tree s (i # p)) \<and> free_pages s = {}
    then vmm_next_table True flags t i s = (None, s)
    else \<exists>v s'. vmm_next_table True flags t i s = (Some (v AND NOT 0xFFF), s') \<and>
      vmm_grown (i # p) v s s' \<and> (wants_user flags \<longrightarrow> v AND PAGE_USER \<noteq> 0) \<and>
      card (free_pages s') + (if absent (pt_tree s (i # p)) then 1 else 0) = card (free_pages s)"
proof (cases "absent (pt_tree s (i # p))")
  case a: True
  show ?thesis
  proof (cases "free_pages s = {}")
    case True
    then have "pmm_alloc_page s = (0, s)" using vmm_invD(1)[OF inv] by (simp add: pmm_alloc_page_None)
    then show ?thesis
      using a True tree_of_table[OF t i] by (simp add: vmm_next_table_def absent_def)
  next
    case False
    define f where "f = Min (free_pages s)"
    have f: "f \<in> free_pages s" using False by (simp add: f_def)
    note fb = free_frame_bounds[OF inv f]
    define v where "v = grow_entry flags (frame_addr f) (pt_tree s (i # p))"
    have v: "v = frame_addr f OR parent_flags flags" using a by (simp add: v_def grow_entry_def absent_def)
    obtain s' where s': "vmm_next_table True flags t i s = (Some (frame_addr f), s')"
      "vmm_grown (i # p) v s s'" "free_pages s' = free_pages s - {f}"
      using vmm_next_table_alloc[OF inv t p i _ False, of flags] a
      unfolding f_def[symmetric] v_def by (auto simp: absent_def)
    have "v AND NOT 0xFFF = frame_addr f" unfolding v by (rule link_entry(2)[OF fb(3)])
    moreover have "card (free_pages s') + 1 = card (free_pages s)"
      using s'(3) f by (metis Suc_eq_plus1 card_Suc_Diff1 finite_free_pages)
    moreover have "wants_user flags \<longrightarrow> v AND PAGE_USER \<noteq> 0"
      unfolding v_def using grow_entry_user[OF fb(3)] by blast
    ultimately show ?thesis using a False s' by auto
  qed
next
  case False
  define v where "v = grow_entry flags 0 (pt_tree s (i # p))"
  have tb: "is_table (pt_tree s (i # p))" using small False by blast
  obtain s' where s': "vmm_next_table True flags t i s = (Some (pt_tree s (i # p) AND NOT 0xFFF), s')"
    "vmm_grown (i # p) v s s'" "free_pages s' = free_pages s"
    using vmm_next_table_user[OF inv t p i tb, of True flags 0] unfolding v_def by blast
  have "v AND NOT 0xFFF = pt_tree s (i # p) AND NOT 0xFFF"
    using False by (simp only: v_def grow_entry_def absent_def if_False or_user(2) split: if_splits) blast
  moreover have "wants_user flags \<longrightarrow> v AND PAGE_USER \<noteq> 0"
    unfolding v_def using grow_entry_user[of 0 flags] by (simp add: page_aligned_def)
  ultimately show ?thesis using False s' by (auto intro!: exI[of _ v])
qed

definition walk_done :: "u32 \<Rightarrow> u64 list \<Rightarrow> u64 list \<Rightarrow> 'a vmm_state_scheme \<Rightarrow> u64 option
    \<Rightarrow> 'a vmm_state_scheme \<Rightarrow> bool" where
  "walk_done flags p is s r s' \<longleftrightarrow> vmm_inv s' \<and> vmm_frame s s' \<and>
     tree_grows (nodes p is) (pt_tree s) (pt_tree s') \<and>
     (\<forall>q u. tables s q = Some u \<longrightarrow> tables s' q = Some u) \<and>
     (if absent_count (pt_tree s) p is \<le> card (free_pages s)
      then (\<exists>u. r = Some u \<and> tables s' (rev is @ p) = Some u) \<and>
           card (free_pages s') + absent_count (pt_tree s) p is = card (free_pages s) \<and>
           (\<forall>q \<in> nodes p is. is_table (pt_tree s' q) \<and> (wants_user flags \<longrightarrow> pt_tree s' q AND PAGE_USER \<noteq> 0))
      else r = None \<and> free_pages s' = {})"

lemma walk_done_step:
  assumes g: "vmm_grown (i # p) v s s1" and u: "wants_user flags \<longrightarrow> v AND PAGE_USER \<noteq> 0"
    and small: "absent (pt_tree s (i # p)) \<or> is_table (pt_tree s (i # p))"
    and c: "card (free_pages s1) + (if absent (pt_tree s (i # p)) then 1 else 0) = card (free_pages s)"
    and w: "walk_done flags (i # p) is s1 r s'"
  shows "walk_done flags p (i # is) s r s'"
proof -
  have G: "pt_tree s1 = (pt_tree s)(i # p := v)" "is_table v" "vmm_frame s s1"
    "\<And>q u. tables s q = Some u \<Longrightarrow> tables s1 q = Some u"
    using g by (auto simp: vmm_grown_def)
  have out: "i # p \<notin> nodes (i # p) is" by (rule nodes_self)
  have cnt: "absent_count (pt_tree s1) (i # p) is = absent_count (pt_tree s) (i # p) is"
    using out by (intro absent_count_cong) (auto simp: G(1))
  have "tree_grows {i # p} (pt_tree s) (pt_tree s1)" using G small by (auto simp: tree_grows_def)
  moreover have gr: "tree_grows (nodes (i # p) is) (pt_tree s1) (pt_tree s')"
    using w by (simp add: walk_done_def)
  ultimately have "tree_grows (nodes p (i # is)) (pt_tree s) (pt_tree s')"
    using tree_grows_trans by fastforce
  moreover have "pt_tree s' (i # p) = v"
    using gr out unfolding tree_grows_def G(1) by (metis fun_upd_same)
  ultimately show ?thesis
    using w G u c vmm_frame_trans[OF G(3)] unfolding walk_done_def cnt
    by (simp split: if_splits)
qed

lemma descend_spec:
  assumes "vmm_inv s" and "tables s p = Some t" and "length p + length is \<le> 3" and "list_all (\<lambda>i. i < 512) is"
    and "\<And>q. q \<in> nodes p is \<Longrightarrow> absent (pt_tree s q) \<or> is_table (pt_tree s q)"
  shows "\<exists>r s'. descend flags t is s = (r, s') \<and> walk_done flags p is s r s'"
  using assms
proof (induction "is" arbitrary: p t s)
  case Nil
  then show ?case by (simp add: walk_done_def vmm_frame_refl tree_grows_def)
next
  case (Cons i "is")
  have i: "i < 512" "length p < 3" and small: "absent (pt_tree s (i # p)) \<or> is_table (pt_tree s (i # p))"
    using Cons.prems by auto
  note st = vmm_next_table_create[OF Cons.prems(1,2) i(2,1) small, of flags]
  show ?case
  proof (cases "absent (pt_tree s (i # p)) \<and> free_pages s = {}")
    case True
    then show ?thesis using st Cons.prems(1)
      by (simp add: walk_done_def vmm_frame_refl tree_grows_def)
  next
    case False
    then obtain v s1 where 1: "vmm_next_table True flags t i s = (Some (v AND NOT 0xFFF), s1)"
      "vmm_grown (i # p) v s s1" "wants_user flags \<longrightarrow> v AND PAGE_USER \<noteq> 0"
      "card (free_pages s1) + (if absent (pt_tree s (i # p)) then 1 else 0) = card (free_pages s)"
      using st unfolding if_not_P[OF False] by blast
    have G: "vmm_inv s1" "tables s1 (i # p) = Some (v AND NOT 0xFFF)"
      "pt_tree s1 = (pt_tree s)(i # p := v)" using 1(2) by (auto simp: vmm_grown_def)
    have "\<exists>r s'. descend flags (v AND NOT 0xFFF) is s1 = (r, s') \<and> walk_done flags (i # p) is s1 r s'"
    proof (rule Cons.IH[OF G(1,2)])
      show "length (i # p) + length is \<le> 3" "list_all (\<lambda>i. i < 512) is" using Cons.prems by auto
      show "absent (pt_tree s1 q) \<or> is_table (pt_tree s1 q)" if "q \<in> nodes (i # p) is" for q
        using that Cons.prems(5)[of q] nodes_self[of "i # p" "is"] by (auto simp: G(3))
    qed
    then obtain r s' where r: "descend flags (v AND NOT 0xFFF) is s1 = (r, s')"
      "walk_done flags (i # p) is s1 r s'" by blast
    have "descend flags t (i # is) s = (r, s')" using 1(1) r(1) by simp
    moreover have "walk_done flags p (i # is) s r s'" by (rule walk_done_step[OF 1(2,3) small 1(4) r(2)])
    ultimately show ?thesis by blast
  qed
qed

section \<open>Mapping a page\<close>

definition walk_indices :: "u64 \<Rightarrow> u64 list" where
  "walk_indices va = [PML4_INDEX va, PDPT_INDEX va, PD_INDEX va]"

text \<open>No large page covers the address.\<close>

definition small_path :: "'a vmm_state_scheme \<Rightarrow> u64 \<Rightarrow> bool" where
  "small_path s va \<longleftrightarrow>
     (\<forall>q \<in> nodes [] (walk_indices va). absent (pt_tree s q) \<or> is_table (pt_tree s q))"

definition missing_tables :: "'a vmm_state_scheme \<Rightarrow> u64 \<Rightarrow> nat" where
  "missing_tables s va = absent_count (pt_tree s) [] (walk_indices va)"

definition user_page :: "'a vmm_state_scheme \<Rightarrow> u64 \<Rightarrow> bool" where
  "user_page s va \<longleftrightarrow>
     (\<forall>q \<in> insert (va_path va) (nodes [] (walk_indices va)). pt_tree s q AND PAGE_USER \<noteq> 0)"

lemma missing_tables_le: "missing_tables s va \<le> 3"
  by (simp add: missing_tables_def walk_indices_def)

lemma vmm_get_pte_create:
  assumes "vmm_inv s" and "small_path s va"
  obtains r s' where "vmm_get_pte_flags va True flags s = (map_option (\<lambda>pt. pt + 8 * PT_INDEX va) r, s')"
    and "walk_done flags [] (walk_indices va) s r s'"
proof -
  have "\<exists>r s'. descend flags (current_pml4_phys s) (walk_indices va) s = (r, s') \<and>
      walk_done flags [] (walk_indices va) s r s'"
    using assms by (intro descend_spec) (auto simp: small_path_def walk_indices_def)
  then show thesis
    using that unfolding vmm_get_pte_flags_descend walk_indices_def[symmetric] by fastforce
qed

lemma walk_done_translation:
  assumes "vmm_inv s" and "walk_done flags [] (walk_indices va) s r s'"
  shows "translation s' va' = translation s va'"
proof -
  have "vmm_inv s'" "tree_grows (nodes [] (walk_indices va)) (pt_tree s) (pt_tree s')"
    using assms(2) by (simp_all add: walk_done_def)
  moreover from this(2) have "tree_translate (pt_tree s') va' = tree_translate (pt_tree s) va'"
    by (rule tree_translate_grows)
      (auto simp: walk_indices_def tree_child_absent)
  ultimately show ?thesis using assms(1) by (simp add: translation_tree)
qed

lemma tree_translate_leaf:
  assumes "\<And>q. q \<in> nodes [] (walk_indices va) \<Longrightarrow> is_table (E q)"
  shows "tree_translate (E(va_path va := v)) va' =
    (if vpn va' = vpn va then if absent v then None else Some (phys_field v OR (va' AND 0xFFF))
     else tree_translate E va')"
proof -
  have n: "absent e \<Longrightarrow> \<not> is_table e" for e by (rule absent_not_table)
  have "is_table (E [PML4_INDEX va])" "is_table (E [PDPT_INDEX va, PML4_INDEX va])"
    "is_table (E [PD_INDEX va, PDPT_INDEX va, PML4_INDEX va])"
    using assms by (auto simp: walk_indices_def)
  moreover have "va_path va' = va_path va \<longleftrightarrow> vpn va' = vpn va" by (rule va_path_vpn)
  moreover have "vpn va' = vpn va \<Longrightarrow> PML4_INDEX va' = PML4_INDEX va \<and> PDPT_INDEX va' = PDPT_INDEX va \<and>
      PD_INDEX va' = PD_INDEX va"
    using va_path_vpn[of va' va] by (simp add: va_path_def)
  moreover have "va_path va \<noteq> [a]" "va_path va \<noteq> [a, b]" "va_path va \<noteq> [a, b, c]" for a b c
    by (simp_all add: va_path_def)
  ultimately show ?thesis
    using n unfolding tree_translate_kinds Let_def by (auto simp: eq_commute[of "[_]"] eq_commute[of "[_, _]"] eq_commute[of "[_, _, _]"])
qed

text \<open>A store to the page-table entry of \<open>va\<close>.\<close>

lemma vmm_leaf_store:
  assumes inv: "vmm_inv s" and t: "tables s (rev (walk_indices va)) = Some pt"
    and tb: "\<And>q. q \<in> nodes [] (walk_indices va) \<Longrightarrow> is_table (pt_tree s q)" and v: "drop_bit 52 v = 0"
  defines "s' \<equiv> s\<lparr>mem := write64 v (pt + 8 * PT_INDEX va) (mem s)\<rparr>"
  shows "vmm_inv s'" "pt_tree s' = (pt_tree s)(va_path va := v)"
    "translation s' va' = (if vpn va' = vpn va
       then if absent v then None else Some (phys_field v OR (va' AND 0xFFF)) else translation s va')"
    "free_pages s' = free_pages s" "kept_bytes s' = kept_bytes s" "a \<in> kept_bytes s \<Longrightarrow> mem s' a = mem s a"
proof -
  have s': "s' = pte_set pt (PT_INDEX va) v s" by (simp add: s'_def pte_set_def)
  have p: "PT_INDEX va # rev (walk_indices va) = va_path va" "length (rev (walk_indices va)) = 3"
    by (simp_all add: walk_indices_def va_path_def)
  note st = vmm_inv_store[OF inv t index_less(4)[of va] disjI1[OF p(2)] v, folded s']
  show 1: "vmm_inv s'" "free_pages s' = free_pages s" using st(1,4) by auto
  show 2: "pt_tree s' = (pt_tree s)(va_path va := v)" using st(3) by (simp only: p)
  show "kept_bytes s' = kept_bytes s" by (rule kept_bytes_eq[OF st(5,4,2)])
  show "a \<in> kept_bytes s \<Longrightarrow> mem s' a = mem s a" using st(6) kept_bytes_table[OF _ t] by blast
  show "translation s' va' = (if vpn va' = vpn va
       then if absent v then None else Some (phys_field v OR (va' AND 0xFFF)) else translation s va')"
    unfolding translation_tree[OF 1(1)] translation_tree[OF inv] 2 by (rule tree_translate_leaf[OF tb])
qed

section \<open>The operations\<close>

definition page_entry :: "u64 \<Rightarrow> u32 \<Rightarrow> u64" where
  "page_entry pa flags = (pa AND NOT 0xFFF) OR ucast flags OR PAGE_PRESENT"

lemma page_entry_bits:
  assumes "drop_bit 52 pa = 0" and "ucast flags AND NOT 0xFFF = (0 :: u64)"
  shows "drop_bit 52 (page_entry pa flags) = 0" "phys_field (page_entry pa flags) = pa AND NOT 0xFFF"
    "\<not> absent (page_entry pa flags)" "wants_user flags \<Longrightarrow> page_entry pa flags AND PAGE_USER \<noteq> 0"
proof -
  have "drop_bit 52 (ucast flags :: u64) = 0"
    by (intro bit_word_eqI) (auto simp: bit_drop_bit_eq bit_ucast_iff dest: bit_imp_le_length)
  then show d: "drop_bit 52 (page_entry pa flags) = 0"
    using assms(1) by (simp add: page_entry_def drop_bit_or drop_bit_and)
  have "(ucast flags OR PAGE_PRESENT) AND NOT 0xFFF = 0"
    using assms(2) by (simp add: bit.conj_disj_distrib2)
  then have "page_entry pa flags AND NOT 0xFFF = pa AND NOT 0xFFF"
    using or_low_bits[of "pa AND NOT 0xFFF" "ucast flags OR PAGE_PRESENT"]
    by (simp only: page_entry_def or.assoc page_aligned_mask)
  then show "phys_field (page_entry pa flags) = pa AND NOT 0xFFF" by (simp only: phys_field_plain[OF d])
  show "\<not> absent (page_entry pa flags)" by (simp add: absent_def page_entry_def bit.conj_disj_distrib2)
  assume "wants_user flags"
  moreover have "page_entry pa flags AND PAGE_USER = (ucast flags OR PAGE_PRESENT) AND PAGE_USER"
    unfolding page_entry_def or.assoc by (rule or_and_low[OF page_aligned_mask]) simp
  ultimately show "page_entry pa flags AND PAGE_USER \<noteq> 0"
    by (simp add: bit.conj_disj_distrib2)
qed

definition mapped_as :: "u64 \<Rightarrow> u64 \<Rightarrow> (u64 \<Rightarrow> u64 option) \<Rightarrow> u64 \<Rightarrow> u64 option" where
  "mapped_as va pa tr va' = (if vpn va' = vpn va then Some ((pa AND NOT 0xFFF) OR (va' AND 0xFFF)) else tr va')"

lemma vmm_map_page_mapped:
  assumes inv: "vmm_inv s" and small: "small_path s va" and room: "missing_tables s va \<le> card (free_pages s)"
    and pa: "drop_bit 52 pa = 0" and fl: "ucast flags AND NOT 0xFFF = (0 :: u64)"
  defines "s' \<equiv> vmm_map_page va pa flags s"
  shows "vmm_inv s'" "translation s' = mapped_as va pa (translation s)"
    "pt_tree s' (va_path va) = page_entry pa flags"
    "wants_user flags \<Longrightarrow> user_page s' va"
    "card (free_pages s') + missing_tables s va = card (free_pages s)"
    "\<exists>n. hw_trace s' = hw_trace s @ replicate n Mfence @ [Mfence, Invlpg va]"
    "kept_bytes s \<subseteq> kept_bytes s'" "a \<in> kept_bytes s \<Longrightarrow> mem s' a = mem s a"
    "\<exists>m h p. s' = s\<lparr>mem := m, hw_trace := h, used_pages := p\<rparr>"
proof -
  obtain r s1 where g: "vmm_get_pte_flags va True flags s = (map_option (\<lambda>pt. pt + 8 * PT_INDEX va) r, s1)"
    and w: "walk_done flags [] (walk_indices va) s r s1"
    using vmm_get_pte_create[OF inv small] .
  obtain pt where pt: "r = Some pt" "tables s1 (rev (walk_indices va)) = Some pt"
    and c: "card (free_pages s1) + missing_tables s va = card (free_pages s)"
    and tb: "\<And>q. q \<in> nodes [] (walk_indices va) \<Longrightarrow> is_table (pt_tree s1 q)"
      "\<And>q. q \<in> nodes [] (walk_indices va) \<Longrightarrow> wants_user flags \<Longrightarrow> pt_tree s1 q AND PAGE_USER \<noteq> 0"
    using w room unfolding walk_done_def missing_tables_def by (simp split: if_splits) blast
  have s1: "vmm_inv s1" "vmm_frame s s1" using w by (simp_all add: walk_done_def)
  note tr = walk_done_translation[OF inv w]
  note e = page_entry_bits[OF pa fl]
  define u where "u = s1\<lparr>mem := write64 (page_entry pa flags) (pt + 8 * PT_INDEX va) (mem s1)\<rparr>"
  note st = vmm_leaf_store[OF s1(1) pt(2) tb(1) e(1), folded u_def]
  have s': "s' = emit (Invlpg va) (emit Mfence u)"
    by (simp add: s'_def vmm_map_page_def g pt(1) u_def page_entry_def Let_def vmm_invlpg_def)
  have em: "translation (emit x z) = translation z" "kept_bytes (emit x z) = kept_bytes z" for x and z :: "'a vmm_state_scheme"
    by (simp_all add: translation_def kept_bytes_def fun_eq_iff)
  show "vmm_inv s'" using st(1) by (simp add: s')
  show "translation s' = mapped_as va pa (translation s)"
    using st(3) tr e(2,3) by (simp add: s' em mapped_as_def fun_eq_iff)
  show "pt_tree s' (va_path va) = page_entry pa flags" using st(2) by (simp add: s')
  show "user_page s' va" if "wants_user flags"
    using st(2) e(4)[OF that] tb(2)[OF _ that] by (auto simp: user_page_def s' fun_upd_def)
  show "card (free_pages s') + missing_tables s va = card (free_pages s)" using st(4) c by (simp add: s')
  obtain m n p where f: "s1 = s\<lparr>mem := m, hw_trace := hw_trace s @ replicate n Mfence, used_pages := p\<rparr>"
    using s1(2) unfolding vmm_frame_def by blast
  show "\<exists>n. hw_trace s' = hw_trace s @ replicate n Mfence @ [Mfence, Invlpg va]"
    by (intro exI[of _ n]) (simp add: s' u_def f)
  have "s' = s\<lparr>mem := mem u, hw_trace := hw_trace s', used_pages := p\<rparr>"
    by (simp add: s' u_def f emit_def)
  then show "\<exists>m h p. s' = s\<lparr>mem := m, hw_trace := h, used_pages := p\<rparr>" by blast
  have k: "kept_bytes s \<subseteq> kept_bytes s1" using s1(2) by (simp add: vmm_frame_def)
  then show "kept_bytes s \<subseteq> kept_bytes s'" using st(5) by (simp add: s' em)
  show "mem s' a = mem s a" if "a \<in> kept_bytes s"
    using that k st(6)[of a] s1(2) by (auto simp: s' vmm_frame_def)
qed

section \<open>Reading walks\<close>

lemma vmm_next_table_read:
  "vmm_next_table False 0 t i s =
     (if absent (pte_at (mem s) t i) then None else Some (pte_at (mem s) t i AND NOT 0xFFF), s)"
  by (simp add: vmm_next_table_def absent_def)

lemma vmm_get_pte_read:
  "vmm_get_pte va False s =
     (let e4 = pte_at (mem s) (current_pml4_phys s) (PML4_INDEX va);
          e3 = pte_at (mem s) (e4 AND NOT 0xFFF) (PDPT_INDEX va);
          e2 = pte_at (mem s) (e3 AND NOT 0xFFF) (PD_INDEX va)
      in if absent e4 \<or> absent e3 \<or> absent e2 then None
         else Some ((e2 AND NOT 0xFFF) + 8 * PT_INDEX va), s)"
  by (auto simp: vmm_get_pte_def vmm_get_pte_flags_def vmm_next_table_read Let_def)

lemma vmm_get_pte_small:
  assumes "small_path s va"
  shows "vmm_get_pte va False s
    = (map_option (\<lambda>pt. pt + 8 * PT_INDEX va) (tables s (rev (walk_indices va))), s)"
proof -
  let ?E = "pt_tree s"
  let ?p4 = "[PML4_INDEX va]"
  let ?p3 = "PDPT_INDEX va # ?p4"
  let ?p2 = "PD_INDEX va # ?p3"
  have sm: "absent (?E ?p4) \<or> is_table (?E ?p4)" "absent (?E ?p3) \<or> is_table (?E ?p3)"
    "absent (?E ?p2) \<or> is_table (?E ?p2)"
    using assms by (simp_all add: small_path_def walk_indices_def)
  have e4: "pte_at (mem s) (current_pml4_phys s) (PML4_INDEX va) = ?E ?p4"
    by (simp add: tree_root)
  have e3: "is_table (?E ?p4) \<Longrightarrow> pte_at (mem s) (?E ?p4 AND NOT 0xFFF) (PDPT_INDEX va) = ?E ?p3"
    by (rule pte_below) simp_all
  have e2: "is_table (?E ?p3) \<Longrightarrow> pte_at (mem s) (?E ?p3 AND NOT 0xFFF) (PD_INDEX va) = ?E ?p2"
    by (rule pte_below) simp_all
  have none: "\<not> is_table (?E ?p4) \<Longrightarrow> ?E ?p3 = 0" "\<not> is_table (?E ?p3) \<Longrightarrow> ?E ?p2 = 0"
    by (simp_all add: tree_child_absent)
  have pt: "tables s (rev (walk_indices va)) = (if is_table (?E ?p2) then Some (?E ?p2 AND NOT 0xFFF) else None)"
    by (simp add: walk_indices_def table_of_tree)
  show ?thesis
    unfolding vmm_get_pte_read Let_def e4 pt
    using sm e3 e2 none absent_not_table[of "?E ?p4"] absent_not_table[of "?E ?p3"] absent_not_table[of "?E ?p2"]
    by (cases "is_table (?E ?p4)"; cases "is_table (?E ?p3)"; cases "is_table (?E ?p2)"; auto)
qed

lemma small_path_tables:
  assumes "small_path s va" and "tables s (rev (walk_indices va)) = Some pt" and "q \<in> nodes [] (walk_indices va)"
  shows "is_table (pt_tree s q)"
proof -
  have "is_table (pt_tree s [PD_INDEX va, PDPT_INDEX va, PML4_INDEX va])"
    using assms(2) by (simp add: walk_indices_def table_of_tree split: if_splits)
  moreover from this have "is_table (pt_tree s [PDPT_INDEX va, PML4_INDEX va])"
    using tree_child_absent absent_0 absent_not_table by metis
  moreover from this have "is_table (pt_tree s [PML4_INDEX va])"
    using tree_child_absent absent_0 absent_not_table by metis
  ultimately show ?thesis using assms(3) by (auto simp: walk_indices_def)
qed

lemma translation_small:
  assumes "vmm_inv s" and "small_path s va"
  shows "translation s va = (if absent (pt_tree s (va_path va)) then None
           else Some ((pt_tree s (va_path va) AND NOT 0xFFF) OR (va AND 0xFFF)))"
proof -
  have ph: "phys_field (pt_tree s q) = pt_tree s q AND NOT 0xFFF" for q
    by (rule phys_field_plain[OF vmm_invD(7)[OF assms(1)]])
  have c: "\<not> is_table (pt_tree s [PML4_INDEX va]) \<Longrightarrow> pt_tree s [PDPT_INDEX va, PML4_INDEX va] = 0"
    "\<not> is_table (pt_tree s [PDPT_INDEX va, PML4_INDEX va]) \<Longrightarrow>
       pt_tree s [PD_INDEX va, PDPT_INDEX va, PML4_INDEX va] = 0"
    "\<not> is_table (pt_tree s [PD_INDEX va, PDPT_INDEX va, PML4_INDEX va]) \<Longrightarrow> pt_tree s (va_path va) = 0"
    by (simp_all add: va_path_def tree_child_absent)
  have sm: "absent (pt_tree s q) \<or> is_table (pt_tree s q)"
    if "q \<in> nodes [] (walk_indices va)" for q using assms(2) that by (simp add: small_path_def)
  note sm' = sm[of "[PML4_INDEX va]"] sm[of "[PDPT_INDEX va, PML4_INDEX va]"]
    sm[of "[PD_INDEX va, PDPT_INDEX va, PML4_INDEX va]"]
  have "tree_translate (pt_tree s) va = (if absent (pt_tree s (va_path va)) then None
      else Some (phys_field (pt_tree s (va_path va)) OR (va AND 0xFFF)))"
    unfolding tree_translate_kinds Let_def using c sm' absent_not_table absent_0
    by (auto simp: walk_indices_def)
  then show ?thesis by (simp only: translation_tree[OF assms(1)] ph)
qed

lemma pte_read_small:
  assumes "tables s (rev (walk_indices va)) = Some pt"
  shows "read64 (mem s) (pt + 8 * PT_INDEX va) = pt_tree s (va_path va)"
proof -
  have "va_path va = PT_INDEX va # rev (walk_indices va)" by (simp add: va_path_def walk_indices_def)
  then show ?thesis using tree_of_table[OF assms index_less(4)[of va]] by (simp add: pte_at_def)
qed

lemma leaf_absent_without_table:
  "tables s (rev (walk_indices va)) = None \<Longrightarrow> pt_tree s (va_path va) = 0"
  by (simp add: va_path_def walk_indices_def tree_of.simps(2)[of _ _ "PT_INDEX va"])

lemma vmm_virt_to_phys_small:
  assumes "vmm_inv s" and "small_path s va"
  shows "vmm_virt_to_phys va s = (case translation s va of None \<Rightarrow> 0 | Some pa \<Rightarrow> pa, s)"
proof (cases "tables s (rev (walk_indices va))")
  case None
  then show ?thesis
    using leaf_absent_without_table[OF None] translation_small[OF assms]
    by (simp add: vmm_virt_to_phys_def vmm_get_pte_small[OF assms(2)])
next
  case (Some pt)
  then show ?thesis
    using pte_read_small[OF Some] translation_small[OF assms]
    by (simp add: vmm_virt_to_phys_def vmm_get_pte_small[OF assms(2)] absent_def)
qed

lemma vmm_unmap_page_cases:
  assumes small: "small_path s va"
  obtains (none) "absent (pt_tree s (va_path va))" "vmm_unmap_page va s = s"
    | (leaf) pt where "tables s (rev (walk_indices va)) = Some pt" "\<not> absent (pt_tree s (va_path va))"
        "vmm_unmap_page va s
          = emit (Invlpg va) (emit Mfence (s\<lparr>mem := write64 0 (pt + 8 * PT_INDEX va) (mem s)\<rparr>))"
proof (cases "tables s (rev (walk_indices va))")
  case None
  then show thesis
    using none leaf_absent_without_table[OF None]
    by (simp add: vmm_unmap_page_def vmm_get_pte_small[OF small])
next
  case (Some pt)
  then show thesis
    using none leaf[OF Some] pte_read_small[OF Some]
    by (cases "absent (pt_tree s (va_path va))")
      (simp_all add: vmm_unmap_page_def vmm_get_pte_small[OF small] absent_def Let_def vmm_invlpg_def)
qed

lemma translation_emit [simp]: "translation (emit x s) = translation s"
  by (simp add: translation_def fun_eq_iff)

lemma small_path_vpn: "vpn va' = vpn va \<Longrightarrow> small_path s va' = small_path s va"
  using va_path_vpn[of va' va] by (simp add: small_path_def walk_indices_def va_path_def)

lemma vmm_unmap_page_small:
  assumes inv: "vmm_inv s" and small: "small_path s va"
  defines "s' \<equiv> vmm_unmap_page va s"
  shows "vmm_inv s' \<and> (\<forall>va'. translation s' va' = (if vpn va' = vpn va then None else translation s va')) \<and>
    free_pages s' = free_pages s \<and> (\<forall>a \<in> kept_bytes s. mem s' a = mem s a) \<and>
    hw_trace s' = hw_trace s @ (if translation s va = None then [] else [Mfence, Invlpg va])"
  using small
proof (cases rule: vmm_unmap_page_cases)
  case none
  have "translation s va' = None" if "vpn va' = vpn va" for va'
  proof -
    have "va_path va' = va_path va" using that by (simp add: va_path_vpn)
    then show ?thesis
      using none(1) small small_path_vpn[OF that, of s] by (simp add: translation_small[OF inv])
  qed
  then show ?thesis using none inv by (auto simp: s'_def)
next
  case (leaf pt)
  have "drop_bit 52 (0 :: u64) = 0" by simp
  note st = vmm_leaf_store[OF inv leaf(1) small_path_tables[OF small leaf(1)] this]
  have "translation s va \<noteq> None" using leaf(2) by (simp add: translation_small[OF inv small])
  then show ?thesis using st by (simp add: s'_def leaf(3))
qed

end
