(* ===== verification/VmmProps.thy ===== *)
theory VmmProps
  imports VmmMap
begin

text \<open>
  The interface of the virtual memory manager as a map from virtual pages to physical
  addresses, its interpretation on \<^verbatim>\<open>mm/vmm.c\<close>, and the properties of the component.
\<close>

section \<open>Paths without large pages stay so\<close>

lemma tree_grows_small:
  assumes "tree_grows Q (pt_tree s) (pt_tree s')" and "small_path s va"
  shows "small_path s' va"
  using assms unfolding tree_grows_def small_path_def by metis

lemma small_path_leaf:
  assumes "pt_tree s' = (pt_tree s)(va_path va := v)" and "small_path s va'"
  shows "small_path s' va'"
  using assms by (auto simp: small_path_def walk_indices_def va_path_def)

lemma vmm_map_page_small:
  assumes inv: "vmm_inv s" and small: "small_path s va" and room: "missing_tables s va \<le> card (free_pages s)"
    and pa: "drop_bit 52 pa = 0" and fl: "ucast flags AND NOT 0xFFF = (0 :: u64)" and va': "small_path s va'"
  shows "small_path (vmm_map_page va pa flags s) va'"
proof -
  obtain r s1 where g: "vmm_get_pte_flags va True flags s = (map_option (\<lambda>pt. pt + 8 * PT_INDEX va) r, s1)"
    and w: "walk_done flags [] (walk_indices va) s r s1"
    using vmm_get_pte_create[OF inv small] .
  obtain pt where pt: "r = Some pt" "tables s1 (rev (walk_indices va)) = Some pt"
    and tb: "\<And>q. q \<in> nodes [] (walk_indices va) \<Longrightarrow> is_table (pt_tree s1 q)"
    using w room unfolding walk_done_def missing_tables_def by (simp split: if_splits) blast
  have s1: "vmm_inv s1" "small_path s1 va'"
    using w tree_grows_small[OF _ va'] by (auto simp: walk_done_def)
  define u where "u = s1\<lparr>mem := write64 (page_entry pa flags) (pt + 8 * PT_INDEX va) (mem s1)\<rparr>"
  have "pt_tree u = (pt_tree s1)(va_path va := page_entry pa flags)"
    unfolding u_def by (rule vmm_leaf_store(2)[OF s1(1) pt(2) tb page_entry_bits(1)[OF pa fl]])
  then have "small_path u va'" using s1(2) by (rule small_path_leaf)
  moreover have "vmm_map_page va pa flags s = emit (Invlpg va) (emit Mfence u)"
    by (simp add: vmm_map_page_def g pt(1) u_def page_entry_def Let_def vmm_invlpg_def)
  ultimately show ?thesis by (simp add: small_path_def)
qed

lemma vmm_map_page_failed_small:
  assumes inv: "vmm_inv s" and small: "small_path s va" and room: "card (free_pages s) < missing_tables s va"
  obtains s1 where "vmm_map_page va pa flags s = vga_println (cstr ''[VMM] ERROR: Failed to get PTE!'') s1"
    and "vmm_inv s1" and "translation s1 = translation s" and "free_pages s1 = {}" and "vmm_frame s s1"
    and "\<And>w. small_path s w \<Longrightarrow> small_path s1 w"
proof -
  obtain r s1 where g: "vmm_get_pte_flags va True flags s = (map_option (\<lambda>pt. pt + 8 * PT_INDEX va) r, s1)"
    and w: "walk_done flags [] (walk_indices va) s r s1"
    using vmm_get_pte_create[OF inv small] .
  have "r = None" "free_pages s1 = {}" "vmm_inv s1" "vmm_frame s s1"
    "tree_grows (nodes [] (walk_indices va)) (pt_tree s) (pt_tree s1)"
    using w room unfolding walk_done_def missing_tables_def by (auto split: if_splits)
  moreover from this have "vmm_map_page va pa flags s
      = vga_println (cstr ''[VMM] ERROR: Failed to get PTE!'') s1"
    by (simp add: vmm_map_page_def g)
  ultimately show thesis using that walk_done_translation[OF inv w] tree_grows_small by blast
qed

section \<open>Printing leaves the tables alone\<close>

lemma vga_only_mem:
  assumes "vga_only s t"
  shows "mem t = mem s" "\<exists>es. list_all vga_event es \<and> hw_trace t = hw_trace s @ es"
  using assms by (auto elim!: vga_onlyE)

lemma vga_only_pmm:
  fixes s t :: "'a pmm_state_scheme"
  assumes "vga_only s t"
  shows "bitmap t = bitmap s" "total_pages t = total_pages s" "used_pages t = used_pages s"
    "free_pages t = free_pages s" "bitmap_bytes t = bitmap_bytes s" "pmm_inv t = pmm_inv s"
    "bitmap_safe t = bitmap_safe s"
proof -
  show f: "bitmap t = bitmap s" "total_pages t = total_pages s" "used_pages t = used_pages s"
    using assms by (auto elim!: vga_onlyE)
  have "mem t a = mem s a" for a using vga_only_mem(1)[OF assms] by simp
  then show "free_pages t = free_pages s" "bitmap_bytes t = bitmap_bytes s" "pmm_inv t = pmm_inv s"
    "bitmap_safe t = bitmap_safe s"
    using pmm_same[OF f] by auto
qed

lemma vga_only_vmm:
  fixes s t :: "'a vmm_state_scheme"
  assumes "vga_only s t"
  shows "current_pml4_phys t = current_pml4_phys s" "cr3 t = cr3 s" "vmm_inv t = vmm_inv s"
    "translation t = translation s" "kept_bytes t = kept_bytes s" "small_path t = small_path s"
    "missing_tables t = missing_tables s"
proof -
  show f: "current_pml4_phys t = current_pml4_phys s" "cr3 t = cr3 s"
    using assms by (auto elim!: vga_onlyE)
  note e = f vga_only_mem(1)[OF assms] vga_only_pmm[OF assms]
  show "vmm_inv t = vmm_inv s" "kept_bytes t = kept_bytes s"
    by (simp_all add: vmm_inv_def kept_bytes_def e)
  show "translation t = translation s" "small_path t = small_path s" "missing_tables t = missing_tables s"
    by (simp_all add: translation_def small_path_def missing_tables_def fun_eq_iff e)
qed

section \<open>The interface\<close>

text \<open>
  A table of pages: \<open>mappable s va pa\<close> says that there is room to map the page of \<open>va\<close>,
  \<open>walkable s va\<close> that the operations understand the tables above \<open>va\<close>.
\<close>

locale address_space =
  fixes lookup :: "'s \<Rightarrow> u64 \<Rightarrow> u64 option"
    and map_page :: "u64 \<Rightarrow> u64 \<Rightarrow> 's \<Rightarrow> 's"
    and unmap_page :: "u64 \<Rightarrow> 's \<Rightarrow> 's"
    and mappable :: "'s \<Rightarrow> u64 \<Rightarrow> u64 \<Rightarrow> bool"
    and walkable :: "'s \<Rightarrow> u64 \<Rightarrow> bool"
  assumes map_lookup: "mappable s va pa \<Longrightarrow> lookup (map_page va pa s) = mapped_as va pa (lookup s)"
    and map_walkable: "mappable s va pa \<Longrightarrow> walkable s va' \<Longrightarrow> walkable (map_page va pa s) va'"
    and mappable_walkable: "mappable s va pa \<Longrightarrow> walkable s va"
    and unmap_lookup: "walkable s va \<Longrightarrow>
        lookup (unmap_page va s) va' = (if vpn va' = vpn va then None else lookup s va')"
begin

lemma map_unmap:
  assumes "mappable s va pa" and "\<And>va'. vpn va' = vpn va \<Longrightarrow> lookup s va' = None"
  shows "lookup (unmap_page va (map_page va pa s)) = lookup s"
proof
  fix va'
  have "walkable (map_page va pa s) va"
    using assms(1) by (blast intro: map_walkable mappable_walkable)
  then show "lookup (unmap_page va (map_page va pa s)) va' = lookup s va'"
    using assms by (simp add: unmap_lookup map_lookup mapped_as_def)
qed

lemma map_map_commute:
  assumes "mappable s va pa" "mappable s vb pb" "vpn va \<noteq> vpn vb"
    and "mappable (map_page va pa s) vb pb" "mappable (map_page vb pb s) va pa"
  shows "lookup (map_page vb pb (map_page va pa s)) = lookup (map_page va pa (map_page vb pb s))"
  using assms by (auto simp: map_lookup mapped_as_def fun_eq_iff)

lemma remap:
  assumes "mappable s va pa" "mappable (map_page va pa s) va pb"
  shows "lookup (map_page va pb (map_page va pa s)) va
    = Some ((pb AND NOT 0xFFF) OR (va AND 0xFFF))"
  using assms by (simp add: map_lookup mapped_as_def)

end

text \<open>Kernel pages are mapped with the flags present and writable.\<close>

abbreviation KERNEL_FLAGS :: u32 where "KERNEL_FLAGS \<equiv> 3"

definition can_map :: "'a vmm_state_scheme \<Rightarrow> u64 \<Rightarrow> u64 \<Rightarrow> bool" where
  "can_map s va pa \<longleftrightarrow> vmm_inv s \<and> small_path s va \<and>
     missing_tables s va \<le> card (free_pages s) \<and> drop_bit 52 pa = 0"

definition can_walk :: "'a vmm_state_scheme \<Rightarrow> u64 \<Rightarrow> bool" where
  "can_walk s va \<longleftrightarrow> vmm_inv s \<and> small_path s va"

interpretation vmm_space: address_space translation "\<lambda>va pa. vmm_map_page va pa KERNEL_FLAGS"
  vmm_unmap_page can_map can_walk
proof
  have fl: "ucast KERNEL_FLAGS AND NOT 0xFFF = (0 :: u64)" by simp
  fix s :: "'a vmm_state_scheme" and va pa va'
  show "translation (vmm_map_page va pa KERNEL_FLAGS s) = mapped_as va pa (translation s)"
    if "can_map s va pa"
    using that fl by (intro vmm_map_page_mapped) (auto simp: can_map_def)
  show "can_walk (vmm_map_page va pa KERNEL_FLAGS s) va'" if "can_map s va pa" "can_walk s va'"
    using that vmm_map_page_mapped(1)[OF _ _ _ _ fl, of s va pa]
      vmm_map_page_small[OF _ _ _ _ fl, of s va pa va'] by (simp add: can_map_def can_walk_def)
  show "can_walk s va" if "can_map s va pa" using that by (simp add: can_map_def can_walk_def)
  show "translation (vmm_unmap_page va s) va' = (if vpn va' = vpn va then None else translation s va')"
    if "can_walk s va"
    using that vmm_unmap_page_small[of s va] by (simp add: can_walk_def)
qed

section \<open>A concrete address space\<close>

text \<open>
  The machine of the boot example with an empty PML4 in the kernel image, at 1 MiB.
\<close>

definition example_vmm :: vmm_state where
  "example_vmm = \<lparr>mem = mem example_kernel, hw_trace = [], vga_buffer = blank_screen,
     vga_cursor_x = 0, vga_cursor_y = 0, vga_color = 15, bitmap = bitmap example_kernel,
     total_pages = total_pages example_kernel, used_pages = used_pages example_kernel,
     cr3 = 0x100000, current_pml4_phys = 0x100000\<rparr>"

lemma empty_root:
  assumes "\<And>i. i < 512 \<Longrightarrow> pte_at m r i = 0"
  shows "table_of m r p = (if p = [] then Some r else None)" "tree_of m r p = 0"
proof -
  show t: "table_of m r p = (if p = [] then Some r else None)" for p
    by (induction p) (auto simp: table_of.simps(2) assms is_table_def)
  show "tree_of m r p = 0" by (cases p) (auto simp: tree_of.simps(2) t assms)
qed

lemma example_vmm_fields:
  "mem example_vmm = mem example_kernel" "bitmap example_vmm = 0x110000" "total_pages example_vmm = 288"
  "used_pages example_vmm = used_pages example_kernel" "current_pml4_phys example_vmm = 0x100000"
  by (simp_all add: example_vmm_def example_kernel_facts)

lemma example_vmm_pmm:
  "free_pages example_vmm = {273..<288}" "pmm_inv example_vmm" "bitmap_safe example_vmm"
  "a \<in> bitmap_bytes example_vmm \<Longrightarrow> unat a div 4096 = 272"
proof -
  have e: "bitmap example_vmm = bitmap example_kernel" "total_pages example_vmm = total_pages example_kernel"
    "used_pages example_vmm = used_pages example_kernel" "\<And>a. mem example_vmm a = mem example_kernel a"
    by (simp_all add: example_vmm_def)
  note same = pmm_same[OF e(1-3), OF e(4)]
  show "free_pages example_vmm = {273..<288}" "pmm_inv example_vmm" "bitmap_safe example_vmm"
    using same example_free example_kernel_facts by simp_all
  assume "a \<in> bitmap_bytes example_vmm"
  then obtain k where k: "a = 0x110000 + of_nat k" "k < 36"
    by (auto simp: bitmap_bytes_def example_vmm_fields)
  then have "unat a = 0x110000 + k" using unat_index_add[of "0x110000" k] by simp
  then show "unat a div 4096 = 272" using k(2) by simp
qed

lemma example_root_empty: "i < 512 \<Longrightarrow> pte_at (mem example_vmm) 0x100000 i = 0"
proof -
  assume i: "i < 512"
  have al: "page_aligned 0x100000" by (simp add: page_aligned_def)
  have out: "mem example_kernel a = example_map a" if "unat a div 4096 = 256" for a
  proof -
    have "bitmap_bytes example_vmm = bitmap_bytes example_kernel"
      by (simp add: bitmap_bytes_def example_vmm_def)
    then have "a \<notin> bitmap_bytes example_kernel" using example_vmm_pmm(4)[of a] that by auto
    then show ?thesis
      using pmm_init_facts(6)[OF example_boot_ok, of a] by (simp add: example_kernel_def mem_example_boot)
  qed
  have "pte_at (mem example_vmm) 0x100000 i = pte_at (\<lambda>_. 0) 0x100000 i"
  proof (rule pte_at_cong[OF al i])
    fix a :: u64 assume "a \<in> frame_bytes (unat (0x100000 :: u64) div 4096)"
    then have f: "unat a div 4096 = 256" by (simp add: frame_bytes_def)
    then have "1048576 \<le> unat a" by linarith
    then have "a \<noteq> b" if "unat b < 1048576" for b using that by auto
    then have "example_map a = 0" by (simp add: example_map_def)
    then show "mem example_vmm a = 0" using out[OF f] by (simp add: example_vmm_fields)
  qed
  also have "\<dots> = 0" by (rule bit_word_eqI) (simp add: pte_at_def bit_load_le)
  finally show ?thesis .
qed

lemma example_vmm_tables:
  "tables example_vmm p = (if p = [] then Some 0x100000 else None)" "pt_tree example_vmm p = 0"
  using empty_root[of "mem example_vmm" "0x100000" p] example_root_empty
  by (simp_all add: example_vmm_fields)

lemma example_vmm_inv: "vmm_inv example_vmm"
proof -
  have "page_aligned 0x100000" by (simp add: page_aligned_def)
  then have "tables_separate (mem example_vmm) (current_pml4_phys example_vmm)"
    unfolding tables_separate_def example_vmm_tables by (auto split: if_splits)
  moreover have "frame_bytes 256 \<inter> bitmap_bytes example_vmm = {}"
    using example_vmm_pmm(4) by (fastforce simp: frame_bytes_def)
  ultimately show ?thesis
    unfolding vmm_inv_def example_vmm_tables
    by (auto simp: example_vmm_pmm(1-3) example_vmm_fields split: if_splits)
qed

lemma example_vmm_paths:
  "small_path example_vmm va" "missing_tables example_vmm va = 3" "translation example_vmm va = None"
proof -
  show s: "small_path example_vmm va" by (simp add: small_path_def example_vmm_tables)
  show "missing_tables example_vmm va = 3"
    by (simp add: missing_tables_def walk_indices_def example_vmm_tables)
  show "translation example_vmm va = None"
    by (simp add: translation_small[OF example_vmm_inv s] example_vmm_tables)
qed

section \<open>Properties\<close>

text \<open>
  C1: \<^verbatim>\<open>vmm_map_page\<close> changes the translation of exactly one page: if no large page covers
  the address and there are frames for the tables that are missing, then afterwards the
  processor translates every address of that page into the given frame and every other
  address as before. It takes exactly one frame per missing table, keeps the tables
  well formed, ends with a barrier and the TLB invalidation of the address, makes the page
  reachable from user mode if asked to, and writes no byte outside tables, free frames and
  the frame bitmap.
\<close>

theorem vmm_map_page_correct:
  assumes "vmm_inv s" and "small_path s va" and "missing_tables s va \<le> card (free_pages s)"
    and "drop_bit 52 pa = 0" and "ucast flags AND NOT 0xFFF = (0 :: u64)"
  shows "let s' = vmm_map_page va pa flags s in
    (\<forall>va'. translation s' va' = (if vpn va' = vpn va then Some ((pa AND NOT 0xFFF) OR (va' AND 0xFFF))
                                else translation s va')) \<and>
    vmm_inv s' \<and> card (free_pages s') + missing_tables s va = card (free_pages s) \<and>
    (ucast flags AND PAGE_USER \<noteq> 0 \<longrightarrow> user_page s' va) \<and>
    (\<exists>n. hw_trace s' = hw_trace s @ replicate n Mfence @ [Mfence, Invlpg va]) \<and>
    (\<forall>a \<in> kept_bytes s. mem s' a = mem s a)"
proof -
  note m = vmm_map_page_mapped[OF assms]
  have "\<forall>va'. translation (vmm_map_page va pa flags s) va'
      = (if vpn va' = vpn va then Some ((pa AND NOT 0xFFF) OR (va' AND 0xFFF)) else translation s va')"
    unfolding m(2) mapped_as_def by blast
  then show ?thesis using m(1,4,5,6,8) unfolding Let_def by blast
qed

lemma vmm_map_page_correct_witness:
  "translation (vmm_map_page 0xFFFF800000123456 0x11C000 7 example_vmm) 0xFFFF800000123ABC = Some 0x11CABC \<and>
   user_page (vmm_map_page 0xFFFF800000123456 0x11C000 7 example_vmm) 0xFFFF800000123456 \<and>
   card (free_pages (vmm_map_page 0xFFFF800000123456 0x11C000 7 example_vmm)) = 12"
proof -
  have "vpn 0xFFFF800000123ABC = vpn 0xFFFF800000123456" by code_simp
  then show ?thesis
    using vmm_map_page_correct[OF example_vmm_inv example_vmm_paths(1), of "0xFFFF800000123456" "0x11C000" 7]
    by (simp add: Let_def example_vmm_paths example_vmm_pmm)
qed

text \<open>
  When the frames run out on the way, \<^verbatim>\<open>vmm_map_page\<close> reports the error on the screen
  and leaves the translation of every address and every byte of used memory as it was; the
  frames it took for intermediate tables stay in use.
\<close>

theorem vmm_map_page_out_of_memory:
  assumes "vmm_inv s" and "small_path s va" and "card (free_pages s) < missing_tables s va"
  shows "let s' = vmm_map_page va pa flags s in
    translation s' = translation s \<and> vmm_inv s' \<and> free_pages s' = {} \<and>
    (\<forall>a \<in> kept_bytes s. mem s' a = mem s a) \<and>
    (\<exists>s1. s' = vga_println (cstr ''[VMM] ERROR: Failed to get PTE!'') s1 \<and> vga_buffer s1 = vga_buffer s \<and>
       vga_cursor_x s1 = vga_cursor_x s \<and> vga_cursor_y s1 = vga_cursor_y s)"
proof -
  obtain s1 where s1: "vmm_map_page va pa flags s = vga_println (cstr ''[VMM] ERROR: Failed to get PTE!'') s1"
    "vmm_inv s1" "translation s1 = translation s" "free_pages s1 = {}" "vmm_frame s s1"
    using vmm_map_page_failed_small[OF assms] .
  have v: "vga_only s1 (vmm_map_page va pa flags s)" by (simp add: s1(1))
  note e = vga_only_mem(1)[OF v] vga_only_pmm(4)[OF v] vga_only_vmm(3,4)[OF v]
  show ?thesis
    using s1(2-5) e vmm_frame_fields[OF s1(5)] unfolding Let_def
    by (auto simp: s1(1) vmm_frame_def intro!: exI[of _ s1])
qed

text \<open>The same address space with all frames taken.\<close>

definition example_full :: vmm_state where
  "example_full = example_vmm\<lparr>total_pages := 257, used_pages := 257\<rparr>"

lemma example_full_inv: "vmm_inv example_full" "free_pages example_full = {}"
proof -
  have fp: "free_pages example_full \<subseteq> free_pages example_vmm"
    by (auto simp: free_pages_def example_full_def page_used_def example_vmm_fields)
  moreover have "i < 257" if "i \<in> free_pages example_full" for i
    using free_pages_less[OF that] by (simp add: example_full_def)
  ultimately show f: "free_pages example_full = {}" by (fastforce simp: example_vmm_pmm)
  have t: "tables example_full p = (if p = [] then Some 0x100000 else None)" "pt_tree example_full p = 0" for p
    using example_vmm_tables[of p] by (simp_all add: example_full_def)
  have bb: "bitmap_bytes example_full \<subseteq> bitmap_bytes example_vmm"
    by (auto simp: bitmap_bytes_def example_full_def example_vmm_fields)
  have "pmm_inv example_full" "bitmap_safe example_full"
    using f by (simp_all add: pmm_inv_def bitmap_safe_def) (simp_all add: example_full_def)
  moreover have "tables_separate (mem example_full) (current_pml4_phys example_full)"
    unfolding tables_separate_def t by (auto simp: page_aligned_def split: if_splits)
  moreover have "frame_bytes 256 \<inter> bitmap_bytes example_full = {}"
    using bb example_vmm_pmm(4) by (fastforce simp: frame_bytes_def)
  ultimately show "vmm_inv example_full"
    unfolding vmm_inv_def t f by (auto simp: example_full_def split: if_splits)
qed

lemma vmm_map_page_out_of_memory_witness:
  "translation (vmm_map_page 0x1000 0x2000 3 example_full) = translation example_full \<and>
   vmm_inv (vmm_map_page 0x1000 0x2000 3 example_full)"
proof -
  have t: "pt_tree example_full p = 0" for p using example_vmm_tables(2)[of p] by (simp add: example_full_def)
  have "small_path example_full 0x1000" "missing_tables example_full 0x1000 = 3"
    by (simp_all add: small_path_def missing_tables_def walk_indices_def t)
  then show ?thesis
    using vmm_map_page_out_of_memory[OF example_full_inv(1), of "0x1000" "0x2000" 3]
    by (simp add: Let_def example_full_inv)
qed

text \<open>
  C13: \<^verbatim>\<open>vmm_unmap_page\<close> removes the translation of exactly one page and invalidates the TLB
  for it; on a page that is not mapped it does nothing. No large page may lie on the walk to
  the address (\<open>small_path\<close>).
\<close>

theorem vmm_unmap_page_correct:
  assumes "vmm_inv s" and "small_path s va"
  shows "let s' = vmm_unmap_page va s in
    (\<forall>va'. translation s' va' = (if vpn va' = vpn va then None else translation s va')) \<and>
    vmm_inv s' \<and> free_pages s' = free_pages s \<and> (\<forall>a \<in> kept_bytes s. mem s' a = mem s a) \<and>
    hw_trace s' = hw_trace s @ (if translation s va = None then [] else [Mfence, Invlpg va])"
  using vmm_unmap_page_small[OF assms] by (simp add: Let_def)

lemma vmm_unmap_page_correct_witness:
  "translation (vmm_unmap_page 0x5000 (vmm_map_page 0x5000 0x11C000 3 example_vmm)) 0x5123 = None"
proof -
  let ?s = "vmm_map_page 0x5000 0x11C000 3 example_vmm"
  have fl: "ucast (3 :: u32) AND NOT 0xFFF = (0 :: u64)" by simp
  have room: "missing_tables example_vmm 0x5000 \<le> card (free_pages example_vmm)"
    by (simp add: example_vmm_paths example_vmm_pmm)
  have pa: "drop_bit 52 (0x11C000 :: u64) = 0" by simp
  have "vmm_inv ?s" by (rule vmm_map_page_mapped(1)[OF example_vmm_inv example_vmm_paths(1) room pa fl])
  moreover have "small_path ?s 0x5000"
    by (rule vmm_map_page_small[OF example_vmm_inv example_vmm_paths(1) room pa fl example_vmm_paths(1)])
  moreover have "vpn 0x5123 = vpn 0x5000" by code_simp
  ultimately show ?thesis using vmm_unmap_page_correct[of ?s "0x5000"] by (simp add: Let_def)
qed

text \<open>
  C14: \<^verbatim>\<open>vmm_virt_to_phys\<close> returns what the processor translates the address to, or 0 for an
  unmapped page, and changes nothing; so after \<^verbatim>\<open>vmm_map_page\<close> it returns the mapped
  address, and after a further \<^verbatim>\<open>vmm_unmap_page\<close> all addresses translate as before the
  mapping.
\<close>

theorem vmm_virt_to_phys_correct:
  assumes "vmm_inv s" and "small_path s va"
  shows "vmm_virt_to_phys va s = (case translation s va of None \<Rightarrow> 0 | Some p \<Rightarrow> p, s) \<and>
    (translation s va = None \<longrightarrow> missing_tables s va \<le> card (free_pages s) \<longrightarrow> drop_bit 52 pa = 0 \<longrightarrow>
      fst (vmm_virt_to_phys va (vmm_map_page va pa KERNEL_FLAGS s)) = (pa AND NOT 0xFFF) OR (va AND 0xFFF) \<and>
      translation (vmm_unmap_page va (vmm_map_page va pa KERNEL_FLAGS s)) = translation s)"
proof (intro conjI impI)
  show "vmm_virt_to_phys va s = (case translation s va of None \<Rightarrow> 0 | Some p \<Rightarrow> p, s)"
    by (rule vmm_virt_to_phys_small[OF assms])
  assume un: "translation s va = None" and room: "missing_tables s va \<le> card (free_pages s)"
    and pa: "drop_bit 52 pa = 0"
  let ?s = "vmm_map_page va pa KERNEL_FLAGS s"
  have cm: "can_map s va pa" using assms room pa by (simp add: can_map_def)
  then have "can_walk ?s va" by (intro vmm_space.map_walkable vmm_space.mappable_walkable)
  then have "vmm_virt_to_phys va ?s = (case translation ?s va of None \<Rightarrow> 0 | Some p \<Rightarrow> p, ?s)"
    unfolding can_walk_def by (intro vmm_virt_to_phys_small) blast+
  then show "fst (vmm_virt_to_phys va ?s) = (pa AND NOT 0xFFF) OR (va AND 0xFFF)"
    by (simp add: vmm_space.map_lookup[OF cm] mapped_as_def)
  have "translation s va' = None" if "vpn va' = vpn va" for va'
    using un assms small_path_vpn[OF that, of s] that va_path_vpn[of va' va]
    by (simp add: translation_small split: if_splits)
  then show "translation (vmm_unmap_page va ?s) = translation s" by (rule vmm_space.map_unmap[OF cm])
qed

lemma vmm_virt_to_phys_correct_witness:
  "fst (vmm_virt_to_phys 0x400123 (vmm_map_page 0x400123 0x11D000 3 example_vmm)) = 0x11D123"
  using vmm_virt_to_phys_correct[OF example_vmm_inv example_vmm_paths(1), of "0x400123" "0x11D000"]
  by (simp add: example_vmm_paths example_vmm_pmm)

text \<open>
  \<^verbatim>\<open>vmm.c\<close> does not know large pages. Where the boot loader maps 2 MiB pages, the
  processor translates the address, but \<^verbatim>\<open>vmm_virt_to_phys\<close> reads the contents of the
  mapped page as if they were a page table, and \<^verbatim>\<open>vmm_map_page\<close> overwrites eight bytes of
  that page's contents.
\<close>

theorem vmm_large_page_misread:
  assumes e4: "e4 = pte_at (mem s) (current_pml4_phys s) (PML4_INDEX va)" "is_table e4" "drop_bit 52 e4 = 0"
    and e3: "e3 = pte_at (mem s) (e4 AND NOT 0xFFF) (PDPT_INDEX va)" "is_table e3" "drop_bit 52 e3 = 0"
    and e2: "e2 = pte_at (mem s) (e3 AND NOT 0xFFF) (PD_INDEX va)" "e2 AND PAGE_PRESENT \<noteq> 0"
      "e2 AND PAGE_SIZE_2MB \<noteq> 0"
    and fl: "ucast flags AND PAGE_USER = (0 :: u64)"
  shows "translation s va = Some ((phys_field e2 AND NOT (mask 21)) OR (va AND mask 21)) \<and>
    (let p = (e2 AND NOT 0xFFF) + 8 * PT_INDEX va; d = read64 (mem s) p in
     vmm_virt_to_phys va s
       = (if d AND PAGE_PRESENT = 0 then 0 else (d AND NOT 0xFFF) OR (va AND 0xFFF), s) \<and>
     mem (vmm_map_page va pa flags s) = write64 (page_entry pa flags) p (mem s))"
proof -
  have pr: "e4 AND PAGE_PRESENT \<noteq> 0" "e3 AND PAGE_PRESENT \<noteq> 0"
    using e4(2) e3(2) by (simp_all add: is_table_def)
  have ph: "phys_field e4 = e4 AND NOT 0xFFF" "phys_field e3 = e3 AND NOT 0xFFF"
    by (simp_all only: phys_field_plain e4(3) e3(3))
  have "translation s va = Some ((phys_field e2 AND NOT (mask 21)) OR (va AND mask 21))"
    unfolding translation_def mmu_translate_def Let_def e4(1)[symmetric] ph(1) e3(1)[symmetric] ph(2)
      e2(1)[symmetric] using e4(2) e3(2) e2(2,3) by (simp add: is_table_def)
  moreover have nx: "vmm_next_table True flags t i s = (Some (pte_at (mem s) t i AND NOT 0xFFF), s)"
    if "pte_at (mem s) t i AND PAGE_PRESENT \<noteq> 0" for t i
    using that fl by (simp add: vmm_next_table_def)
  have "vmm_get_pte_flags va True flags s = (Some ((e2 AND NOT 0xFFF) + 8 * PT_INDEX va), s)"
    using e4(1) e3(1) e2(1,2) pr by (simp add: vmm_get_pte_flags_def nx)
  then have "mem (vmm_map_page va pa flags s)
      = write64 (page_entry pa flags) ((e2 AND NOT 0xFFF) + 8 * PT_INDEX va) (mem s)"
    by (simp add: vmm_map_page_def page_entry_def Let_def vmm_invlpg_def)
  moreover have "vmm_get_pte va False s = (Some ((e2 AND NOT 0xFFF) + 8 * PT_INDEX va), s)"
    using e4(1) e3(1) e2(1,2) pr by (simp add: vmm_get_pte_read Let_def absent_def)
  ultimately show ?thesis by (simp add: vmm_virt_to_phys_def Let_def)
qed

text \<open>A boot loader's identity mapping of 4 MiB to 6 MiB.\<close>

definition example_large :: vmm_state where
  "example_large = example_vmm\<lparr>mem := (\<lambda>_. 0)(0x100000 := 3, 0x100001 := 0x10, 0x100002 := 0x10,
     0x101000 := 3, 0x101001 := 0x20, 0x101002 := 0x10, 0x102010 := 0x83, 0x102012 := 0x40)\<rparr>"

lemma vmm_large_page_misread_witness:
  "translation example_large 0x412345 = Some 0x412345 \<and>
   fst (vmm_virt_to_phys 0x412345 example_large) = 0"
proof -
  have m: "mem example_large = (\<lambda>_. 0)(0x100000 := 3, 0x100001 := 0x10, 0x100002 := 0x10,
     0x101000 := 3, 0x101001 := 0x20, 0x101002 := 0x10, 0x102010 := 0x83, 0x102012 := 0x40)"
    "current_pml4_phys example_large = 0x100000"
    by (simp_all add: example_large_def example_vmm_fields)
  have i: "PML4_INDEX 0x412345 = 0" "PDPT_INDEX 0x412345 = 0" "PD_INDEX 0x412345 = 2" "PT_INDEX 0x412345 = 18"
    by code_simp+
  have e: "pte_at (mem example_large) 0x100000 0 = 0x101003" "pte_at (mem example_large) 0x101000 0 = 0x102003"
    "pte_at (mem example_large) 0x102000 2 = 0x400083" "read64 (mem example_large) 0x400090 = 0"
    unfolding m(1) by code_simp+
  show ?thesis
    using vmm_large_page_misread[of "0x101003" example_large "0x412345" "0x102003" "0x400083" 3 0]
    by (simp add: i m(2) e is_table_def Let_def phys_field_def mask_numeral)
qed

end
