(* ===== verification/Heap.thy ===== *)
theory Heap
  imports VmmProps
begin

text \<open>
  The kernel heap, \<^verbatim>\<open>src/kernel/mm/heap.c\<close>: a bump allocator over a virtual range of
  16 MiB whose pages are mapped on demand.
\<close>

section \<open>State and operations\<close>

record heap_state = vmm_state +
  heap_current_ptr :: u64
  heap_total_alloc :: u64

abbreviation HEAP_START :: u64 where "HEAP_START \<equiv> 0xFFFF800000000000"
abbreviation HEAP_SIZE :: u64 where "HEAP_SIZE \<equiv> 0x1000000"

definition heap_init :: "'a heap_state_scheme \<Rightarrow> 'a heap_state_scheme" where
  "heap_init s = s\<lparr>heap_current_ptr := HEAP_START, heap_total_alloc := 0\<rparr>"

text \<open>
  The mapping loop of \<^verbatim>\<open>kmalloc\<close>. Both bounds are multiples of the page size, so it runs
  once per page between them; \<open>False\<close> is the early return when no frame is left.
\<close>

primrec heap_map_pages :: "nat \<Rightarrow> u64 \<Rightarrow> 'a heap_state_scheme \<Rightarrow> bool \<times> 'a heap_state_scheme" where
  "heap_map_pages 0 page s = (True, s)"
| "heap_map_pages (Suc n) page s =
     (let (phys, s) = vmm_virt_to_phys page s in
      if phys = 0 then
        (let (phys_page, s) = pmm_alloc_page s in
         if phys_page = 0 then (False, s)
         else heap_map_pages n (page + 0x1000)
                (vmm_map_page page phys_page (ucast (PAGE_PRESENT OR PAGE_WRITE)) s))
      else heap_map_pages n (page + 0x1000) s)"

definition round16 :: "u64 \<Rightarrow> u64" where
  "round16 n = (n + 15) AND NOT 15"

definition kmalloc :: "u64 \<Rightarrow> 'a heap_state_scheme \<Rightarrow> u64 \<times> 'a heap_state_scheme" where
  "kmalloc sz s =
     (if sz = 0 then (0, s)
      else let sz = round16 sz in
      if heap_current_ptr s + sz \<ge> HEAP_START + HEAP_SIZE then (0, s)
      else let start_addr = heap_current_ptr s;
               end_addr = heap_current_ptr s + sz;
               start_page = start_addr AND NOT 0xFFF;
               end_page = (end_addr + 0xFFF) AND NOT 0xFFF
      in case heap_map_pages ((unat end_page - unat start_page) div 4096) start_page s of
           (False, s) \<Rightarrow> (0, s)
         | (True, s) \<Rightarrow>
             let ptr = heap_current_ptr s;
                 s = s\<lparr>heap_current_ptr := heap_current_ptr s + sz\<rparr>;
                 s = s\<lparr>heap_total_alloc := heap_total_alloc s + sz\<rparr>
             in (ptr, s))"

definition kfree :: "u64 \<Rightarrow> 'a heap_state_scheme \<Rightarrow> 'a heap_state_scheme" where
  "kfree ptr s = s"

definition heap_total_allocated :: "'a heap_state_scheme \<Rightarrow> u64" where
  "heap_total_allocated s = heap_total_alloc s"

definition heap_current_size :: "'a heap_state_scheme \<Rightarrow> u64" where
  "heap_current_size s = heap_current_ptr s - HEAP_START"

section \<open>Addresses of the heap\<close>

definition in_heap :: "u64 \<Rightarrow> bool" where
  "in_heap va \<longleftrightarrow> 0xFFFF800000000000 \<le> unat va \<and> unat va < 0xFFFF800001000000"

lemma unat_vpn: "unat (vpn va) = unat va div 4096 mod 68719476736"
  by (simp add: vpn_def unsigned_take_bit_eq unat_drop_bit_eq take_bit_nat_def drop_bit_nat_def)

lemma vpn_heap:
  assumes "in_heap va" and "in_heap va'"
  shows "vpn va = vpn va' \<longleftrightarrow> unat va div 4096 = unat va' div 4096"
proof -
  have q: "unat (vpn w) + 4503530907893760 = unat w div 4096" if "in_heap w" for w
  proof -
    have "4503565267632128 \<le> unat w div 4096" "unat w div 4096 < 4503565267636224"
      using that unfolding in_heap_def by linarith+
    moreover define k where "k = unat w div 4096 - 65535 * 68719476736"
    ultimately have k: "unat w div 4096 = k + 65535 * 68719476736" "k < 68719476736" by linarith+
    have "unat (vpn w) = k mod 68719476736"
      unfolding unat_vpn k(1) by (rule mod_mult_self1)
    then show ?thesis using k by simp
  qed
  show ?thesis using q[OF assms(1)] q[OF assms(2)] word_unat_eq_iff[of "vpn va" "vpn va'"] by linarith
qed

lemma page_phys:
  assumes "f < 2 ^ 52"
  shows "unat ((frame_addr f AND NOT 0xFFF) OR (va AND 0xFFF)) = f * 4096 + unat va mod 4096"
proof -
  have al: "frame_addr f AND NOT 0xFFF = frame_addr f"
    using page_aligned_frame[OF assms] by (simp only: page_aligned_iff)
  have "frame_addr f AND (va AND 0xFFF) = 0"
    by (rule page_aligned_and_low[OF page_aligned_frame[OF assms]]) (simp add: and.assoc)
  then have "frame_addr f OR (va AND 0xFFF) = frame_addr f + (va AND 0xFFF)"
    by (simp add: disjunctive_add_eq_or)
  moreover have "unat (va AND 0xFFF) = unat va mod 4096" by (rule unat_page_offset)
  moreover have "unat (frame_addr f) = f * 4096" by (rule unat_frame_addr[OF assms])
  moreover have "f * 4096 + unat va mod 4096 < 2 ^ 64"
    using assms mod_less_divisor[of 4096 "unat va"] by simp
  ultimately show ?thesis using al by (simp add: unat_add_less)
qed

lemma unat_align16: "unat (w AND NOT 0xF) = unat (w :: u64) div 16 * 16"
proof -
  have "x AND NOT (mask 4) = push_bit 4 (drop_bit 4 x)" for x :: u64
    by (rule bit_word_eqI) (auto simp: bit_simps)
  then have "unat (w AND NOT 0xF) = unat (push_bit 4 (drop_bit 4 w))"
    by (simp add: mask_numeral)
  also have "\<dots> = take_bit 64 (unat w div 16 * 16)"
    using unat_u64_less[of w]
    by (subst unsigned_push_bit_eq)
      (simp add: unsigned_drop_bit_eq push_bit_eq_mult drop_bit_nat_def take_bit_nat_def)
  also have "\<dots> = unat w div 16 * 16"
    using unat_u64_less[of w] by (simp add: take_bit_nat_def)
  finally show ?thesis .
qed

lemma unat_round16:
  assumes "unat n + 15 < 18446744073709551616"
  shows "unat (round16 n) = (unat n + 15) div 16 * 16"
proof -
  have "unat (n + 15) = unat n + 15" using assms by (simp add: unat_word_ariths)
  then show ?thesis by (simp only: round16_def unat_align16)
qed

section \<open>Taking a frame leaves the tables alone\<close>

lemma vmm_alloc_frame:
  fixes s :: "'a vmm_state_scheme"
  assumes inv: "vmm_inv s" and ne: "free_pages s \<noteq> {}"
  defines "f \<equiv> Min (free_pages s)"
  defines "t \<equiv> bm_set (of_nat f) s"
  shows "pmm_alloc_page s = (frame_addr f, t)" "vmm_inv t" "free_pages t = free_pages s - {f}"
    "translation t = translation s" "small_path t = small_path s" "missing_tables t = missing_tables s"
    "kept_bytes s \<subseteq> kept_bytes t" "frame_bytes f \<subseteq> kept_bytes t" "frame_bytes f \<inter> kept_bytes s = {}"
    "a \<in> kept_bytes s \<Longrightarrow> mem t a = mem s a"
proof -
  note D = vmm_invD[OF inv]
  have f: "f \<in> free_pages s" using ne by (simp add: f_def)
  note fb = free_frame_bounds[OF inv f]
  have uf: "unat (of_nat f :: u64) = f" using fb(2) by (intro u64_of_nat_less) simp
  have flt: "unat (of_nat f :: u64) < unat (total_pages s)" using f uf by (simp add: free_pages_less)
  show "pmm_alloc_page s = (frame_addr f, t)"
    using pmm_alloc_page_Some[OF D(1) ne] by (simp add: f_def t_def)
  have out: "mem t a = mem s a" if "a \<notin> bitmap_bytes s" for a
    using that flt by (simp add: t_def mem_bm_set)
  have fields: "current_pml4_phys t = current_pml4_phys s" "total_pages t = total_pages s"
    "bitmap_bytes t = bitmap_bytes s" by (simp_all add: t_def)
  have keep: "page_aligned u \<and> (\<forall>a \<in> frame_bytes (unat u div 4096). mem t a = mem s a)"
    if "tables s q = Some u" for q u
    using D(4)[OF that] D(6)[OF that] out by blast
  have tab: "tables t q = tables s q" and tree: "pt_tree t q = pt_tree s q" for q
    using table_of_cong[of "mem s" "current_pml4_phys s" "mem t", OF keep] by (simp_all add: fields)
  show free: "free_pages t = free_pages s - {f}" by (simp add: t_def free_pages_set uf)
  have "pmm_inv t" unfolding t_def using pmm_inv_set[OF D(1)] f uf by simp
  moreover have "bitmap_safe t" using D(2) free by (auto simp: bitmap_safe_def fields)
  moreover have "tables_separate (mem t) (current_pml4_phys t)"
    using D(3) by (simp add: tables_separate_def tab)
  ultimately show inv': "vmm_inv t"
    using inv tab tree free fields unfolding vmm_inv_def by auto
  show "translation t = translation s"
    using translation_tree[OF inv] translation_tree[OF inv'] tree
    by (simp add: fun_eq_iff tree_translate_def)
  show "small_path t = small_path s" by (simp add: fun_eq_iff small_path_def tree)
  have "pt_tree t = pt_tree s" using tree by (simp add: fun_eq_iff)
  then show "missing_tables t = missing_tables s" unfolding missing_tables_def by simp
  show "kept_bytes s \<subseteq> kept_bytes t" by (auto simp: kept_bytes_def fields(3) free tab)
  show "frame_bytes f \<subseteq> kept_bytes t"
  proof
    fix a assume a: "a \<in> frame_bytes f"
    then have "a \<notin> bitmap_bytes s" using D(2) f by (auto simp: bitmap_safe_def frame_bytes_def)
    moreover have "unat u div 4096 \<noteq> f" if "tables s q = Some u" for q u using D(5)[OF that] f by auto
    ultimately show "a \<in> kept_bytes t" using a by (auto simp: kept_bytes_def frame_bytes_def fields(3) free tab)
  qed
  show "frame_bytes f \<inter> kept_bytes s = {}" using f by (auto simp: kept_bytes_def frame_bytes_def)
  show "a \<in> kept_bytes s \<Longrightarrow> mem t a = mem s a" using out by (simp add: kept_bytes_def)
qed

section \<open>The mapped heap\<close>

text \<open>
  No large page covers the heap; mapped heap addresses lead to memory that no later
  allocation can hand out, never to frame 0, and different addresses to different bytes.
\<close>

definition heap_ok :: "'a heap_state_scheme \<Rightarrow> bool" where
  "heap_ok s \<longleftrightarrow> vmm_inv s \<and> (\<forall>va. in_heap va \<longrightarrow> small_path s va) \<and>
     (\<forall>va pa. in_heap va \<longrightarrow> translation s va = Some pa \<longrightarrow> pa \<in> kept_bytes s \<and> 4096 \<le> unat pa) \<and>
     (\<forall>va va' pa. in_heap va \<longrightarrow> in_heap va' \<longrightarrow> translation s va = Some pa \<longrightarrow>
        translation s va' = Some pa \<longrightarrow> va = va')"

definition heap_extends :: "'a heap_state_scheme \<Rightarrow> 'a heap_state_scheme \<Rightarrow> bool" where
  "heap_extends s t \<longleftrightarrow> (\<exists>m h p. t = s\<lparr>mem := m, hw_trace := h, used_pages := p\<rparr>) \<and>
     (\<forall>va pa. translation s va = Some pa \<longrightarrow> translation t va = Some pa) \<and>
     kept_bytes s \<subseteq> kept_bytes t \<and> (\<forall>a \<in> kept_bytes s. mem t a = mem s a)"

lemma heap_extends_refl: "heap_extends s s"
proof -
  have "s = s\<lparr>mem := mem s, hw_trace := hw_trace s, used_pages := used_pages s\<rparr>" by simp
  then show ?thesis unfolding heap_extends_def by blast
qed

lemma heap_extends_trans:
  assumes 1: "heap_extends s t" and 2: "heap_extends t u"
  shows "heap_extends s u"
proof -
  obtain m h p where t: "t = s\<lparr>mem := m, hw_trace := h, used_pages := p\<rparr>"
    using 1 unfolding heap_extends_def by blast
  obtain m' h' p' where u: "u = t\<lparr>mem := m', hw_trace := h', used_pages := p'\<rparr>"
    using 2 unfolding heap_extends_def by blast
  have "u = s\<lparr>mem := m', hw_trace := h', used_pages := p'\<rparr>" unfolding u t by simp
  then have "\<exists>m h p. u = s\<lparr>mem := m, hw_trace := h, used_pages := p\<rparr>" by blast
  then show ?thesis using 1 2 unfolding heap_extends_def by auto
qed

lemma heap_extends_fields:
  assumes "heap_extends s t"
  shows "heap_current_ptr t = heap_current_ptr s" "heap_total_alloc t = heap_total_alloc s"
  using assms by (auto simp: heap_extends_def)

text \<open>Mapping one unmapped heap page.\<close>

lemma heap_map_one:
  assumes ok: "heap_ok s" and va: "in_heap va" and un: "translation s va = None"
    and room: "missing_tables s va < card (free_pages s)"
  defines "t \<equiv> vmm_map_page va (fst (pmm_alloc_page s)) KERNEL_FLAGS (snd (pmm_alloc_page s))"
  shows "fst (pmm_alloc_page s) \<noteq> 0" "heap_ok t" "heap_extends s t"
    "in_heap va' \<Longrightarrow> translation t va' \<noteq> None \<longleftrightarrow> vpn va' = vpn va \<or> translation s va' \<noteq> None"
    "card (free_pages s) \<le> card (free_pages t) + 4" "card (free_pages t) < card (free_pages s)"
proof -
  have small: "small_path s w" if "in_heap w" for w
    using ok that by (simp add: heap_ok_def)
  have inv: "vmm_inv s" using ok by (simp add: heap_ok_def)
  have ne: "free_pages s \<noteq> {}" using room by auto
  define f where "f = Min (free_pages s)"
  define s1 where "s1 = bm_set (of_nat f) s"
  note a = vmm_alloc_frame[OF inv ne, folded f_def, folded s1_def]
  have f: "f \<in> free_pages s" using ne by (simp add: f_def)
  note fb = free_frame_bounds[OF inv f]
  have f52: "f < 2 ^ 52" using fb(2) by simp
  have t: "t = vmm_map_page va (frame_addr f) KERNEL_FLAGS s1" by (simp add: t_def a(1))
  show "fst (pmm_alloc_page s) \<noteq> 0" using fb(4) by (simp add: a(1))
  have c1: "card (free_pages s1) + 1 = card (free_pages s)"
    using f by (metis a(3) Suc_eq_plus1 card_Suc_Diff1 finite_free_pages)
  have room1: "missing_tables s1 va \<le> card (free_pages s1)"
    using room c1 a(6) by simp
  have sm1: "small_path s1 w" if "in_heap w" for w using small[OF that] by (simp add: a(5))
  have fl: "ucast KERNEL_FLAGS AND NOT 0xFFF = (0 :: u64)" by simp
  note m = vmm_map_page_mapped[OF a(2) sm1[OF va] room1 fb(6) fl, folded t]
  have tr: "translation t w = (if vpn w = vpn va
      then Some ((frame_addr f AND NOT 0xFFF) OR (w AND 0xFFF)) else translation s w)" for w
    unfolding m(2) mapped_as_def a(4) ..
  have none: "translation s w = None" if "vpn w = vpn va" for w
    using un that small_path_vpn[OF that, of s] small[OF va] va_path_vpn[of w va]
    by (simp add: translation_small[OF inv] split: if_splits)
  have kept: "kept_bytes s \<subseteq> kept_bytes t" "frame_bytes f \<subseteq> kept_bytes t" using a(7,8) m(7) by auto
  have new: "(frame_addr f AND NOT 0xFFF) OR (w AND 0xFFF) \<in> frame_bytes f"
    "4096 \<le> unat ((frame_addr f AND NOT 0xFFF) OR (w AND 0xFFF))" for w
    using page_phys[OF f52, of w] fb(1) by (simp_all add: frame_bytes_def)
  have smt: "small_path t w" if "in_heap w" for w
    unfolding t by (rule vmm_map_page_small[OF a(2) sm1[OF va] room1 fb(6) fl sm1[OF that]])
  have inj: "w = w'" if w: "in_heap w" "in_heap w'" and e: "translation t w = Some pa" "translation t w' = Some pa"
    for w w' pa
  proof (cases "vpn w = vpn va \<or> vpn w' = vpn va")
    case False
    then show ?thesis using e w ok by (auto simp: tr heap_ok_def)
  next
    case True
    have old: "pa \<notin> frame_bytes f" if "in_heap x" "vpn x \<noteq> vpn va" "translation t x = Some pa" for x
      using that ok a(9) by (auto simp: tr heap_ok_def)
    have "vpn w = vpn va" "vpn w' = vpn va"
      using True e w old new(1) by (auto simp: tr split: if_splits)
    moreover from this have "unat ((frame_addr f AND NOT 0xFFF) OR (w AND 0xFFF))
        = unat ((frame_addr f AND NOT 0xFFF) OR (w' AND 0xFFF))" using e unfolding tr by simp
    then have "unat w mod 4096 = unat w' mod 4096" unfolding page_phys[OF f52] by simp
    ultimately have "unat w = unat w'"
      using vpn_heap[OF w] by (metis div_mult_mod_eq)
    then show ?thesis by (simp add: word_unat_eq_iff)
  qed
  show "heap_ok t"
    unfolding heap_ok_def
  proof (intro conjI allI impI)
    show "vmm_inv t" by (rule m(1))
    show "small_path t w" if "in_heap w" for w by (rule smt[OF that])
    show "pa \<in> kept_bytes t" "4096 \<le> unat pa" if "in_heap w" "translation t w = Some pa" for w pa
      using that kept new ok by (auto simp: tr heap_ok_def split: if_splits)
    show "w = w'" if "in_heap w" "in_heap w'" "translation t w = Some pa" "translation t w' = Some pa" for w w' pa
      using inj[OF that] .
  qed
  have "\<exists>m h p. t = s\<lparr>mem := m, hw_trace := h, used_pages := p\<rparr>"
  proof -
    obtain m' h p where "t = s1\<lparr>mem := m', hw_trace := h, used_pages := p\<rparr>" using m(9) by blast
    then have "t = s\<lparr>mem := m', hw_trace := h, used_pages := p\<rparr>" by (simp add: s1_def bm_set_def)
    then show ?thesis by blast
  qed
  then show "heap_extends s t"
    unfolding heap_extends_def using none kept(1) m(8) a(7,10) by (auto simp: tr)
  show "translation t va' \<noteq> None \<longleftrightarrow> vpn va' = vpn va \<or> translation s va' \<noteq> None" by (auto simp: tr)
  show "card (free_pages s) \<le> card (free_pages t) + 4" "card (free_pages t) < card (free_pages s)"
    using m(5) c1 missing_tables_le[of s1 va] by linarith+
qed

text \<open>
  What every attempt to map heap pages keeps, also a failing one, which prints an error.
\<close>

definition heap_keeps :: "'a vmm_state_scheme \<Rightarrow> 'a vmm_state_scheme \<Rightarrow> bool" where
  "heap_keeps s t \<longleftrightarrow> (\<forall>va pa. translation s va = Some pa \<longrightarrow> translation t va = Some pa) \<and>
     kept_bytes s \<subseteq> kept_bytes t \<and> (\<forall>a \<in> kept_bytes s. mem t a = mem s a)"

lemma heap_keeps_refl: "heap_keeps s s"
  by (simp add: heap_keeps_def)

lemma heap_keeps_trans: "heap_keeps s t \<Longrightarrow> heap_keeps t u \<Longrightarrow> heap_keeps s u"
  unfolding heap_keeps_def by (metis subset_iff)

text \<open>The frame for the page is there, one for a table is not: the translation stays as it is.\<close>

lemma heap_map_fails:
  assumes ok: "heap_ok s" and va: "in_heap va" and ne: "free_pages s \<noteq> {}"
    and full: "card (free_pages s) \<le> missing_tables s va"
  defines "t \<equiv> vmm_map_page va (fst (pmm_alloc_page s)) KERNEL_FLAGS (snd (pmm_alloc_page s))"
  shows "heap_ok t" "translation t = translation s" "free_pages t = {}" "heap_keeps s t"
proof -
  have inv: "vmm_inv s" and small: "\<And>w. in_heap w \<Longrightarrow> small_path s w" using ok by (simp_all add: heap_ok_def)
  define f where "f = Min (free_pages s)"
  define s1 where "s1 = bm_set (of_nat f) s"
  note a = vmm_alloc_frame[OF inv ne, folded f_def, folded s1_def]
  have "f \<in> free_pages s" using ne by (simp add: f_def)
  then have "card (free_pages s1) + 1 = card (free_pages s)"
    by (metis a(3) Suc_eq_plus1 card_Suc_Diff1 finite_free_pages)
  then have less: "card (free_pages s1) < missing_tables s1 va" using full a(6) by simp
  have sm1: "small_path s1 w" if "in_heap w" for w using small[OF that] by (simp add: a(5))
  obtain u where u: "vmm_map_page va (frame_addr f) KERNEL_FLAGS s1
      = vga_println (cstr ''[VMM] ERROR: Failed to get PTE!'') u"
    "vmm_inv u" "translation u = translation s1" "free_pages u = {}" "vmm_frame s1 u"
    "\<And>w. small_path s1 w \<Longrightarrow> small_path u w"
    using vmm_map_page_failed_small[OF a(2) sm1[OF va] less] by metis
  have t: "t = vga_println (cstr ''[VMM] ERROR: Failed to get PTE!'') u" by (simp add: t_def a(1) u(1))
  have v: "vga_only u t" by (simp add: t)
  note e = vga_only_mem(1)[OF v] vga_only_pmm(4)[OF v] vga_only_vmm(3-6)[OF v]
  show tr: "translation t = translation s" using e u(3) a(4) by simp
  show "free_pages t = {}" using e u(4) by simp
  have k: "kept_bytes s \<subseteq> kept_bytes t" using a(7) u(5) e by (auto simp: vmm_frame_def)
  have "mem t x = mem s x" if "x \<in> kept_bytes s" for x
    using that a(7,10) u(5) e unfolding vmm_frame_def by auto
  then show "heap_keeps s t" using k tr by (simp add: heap_keeps_def)
  show "heap_ok t"
    using ok k u(2,6) sm1 e unfolding heap_ok_def tr by (auto simp: e)
qed

section \<open>The mapping loop\<close>

lemma heap_lookup:
  assumes "heap_ok s" and "in_heap va"
  shows "vmm_virt_to_phys va s = (case translation s va of None \<Rightarrow> 0 | Some pa \<Rightarrow> pa, s)"
    and "fst (vmm_virt_to_phys va s) = 0 \<longleftrightarrow> translation s va = None"
proof -
  show e: "vmm_virt_to_phys va s = (case translation s va of None \<Rightarrow> 0 | Some pa \<Rightarrow> pa, s)"
    using assms by (intro vmm_virt_to_phys_small) (auto simp: heap_ok_def)
  have "pa \<noteq> 0" if "translation s va = Some pa" for pa
    using assms that unfolding heap_ok_def by (metis unat_0 not_numeral_le_zero)
  then show "fst (vmm_virt_to_phys va s) = 0 \<longleftrightarrow> translation s va = None"
    by (simp add: e split: option.splits)
qed

lemma heap_next_page:
  assumes "in_heap page" "unat page mod 4096 = 0"
  shows "unat (page + 0x1000) = unat page + 4096"
  using assms by (simp add: in_heap_def unat_word_ariths)

lemma same_page_div:
  fixes a x :: nat
  assumes "a mod 4096 = 0" and "a \<le> x" and "x < a + 4096"
  shows "x div 4096 = a div 4096"
proof (rule div_nat_eqI)
  have "a div 4096 * 4096 = a" using assms(1) by (auto simp: mod_eq_0_iff_dvd)
  then show "4096 * (a div 4096) \<le> x" "x < 4096 * Suc (a div 4096)" using assms(2,3) by simp_all
qed

lemma heap_map_pages_ok:
  assumes "heap_ok s" and "unat page mod 4096 = 0"
    and "0 < n \<Longrightarrow> in_heap page \<and> unat page + 4096 * n \<le> 0xFFFF800001000000" and "4 * n \<le> card (free_pages s)"
  shows "\<exists>t. heap_map_pages n page s = (True, t) \<and> heap_ok t \<and> heap_extends s t \<and>
    (\<forall>va. unat page \<le> unat va \<and> unat va < unat page + 4096 * n \<longrightarrow> translation t va \<noteq> None) \<and>
    card (free_pages s) \<le> card (free_pages t) + 4 * n"
  using assms
proof (induction n arbitrary: page s)
  case 0
  then show ?case by (auto simp: heap_extends_refl)
next
  case (Suc n)
  have pg: "in_heap page" "unat page + 4096 * Suc n \<le> 0xFFFF800001000000" using Suc.prems(3) by auto
  have np: "unat (page + 0x1000) = unat page + 4096"
    by (rule heap_next_page[OF pg(1) Suc.prems(2)])
  have nh: "0 < n \<Longrightarrow> in_heap (page + 0x1000) \<and> unat (page + 0x1000) + 4096 * n \<le> 0xFFFF800001000000"
    using pg np by (auto simp: in_heap_def)
  have al: "unat (page + 0x1000) mod 4096 = 0" using np Suc.prems(2) by simp
  define s1 where "s1 = (if translation s page = None
    then vmm_map_page page (fst (pmm_alloc_page s)) KERNEL_FLAGS (snd (pmm_alloc_page s)) else s)"
  have room: "missing_tables s page < card (free_pages s)"
  proof -
    have "4 \<le> card (free_pages s)" using Suc.prems(4) by simp
    then show ?thesis using missing_tables_le[of s page] by linarith
  qed
  note one = heap_map_one[OF Suc.prems(1) pg(1) _ room]
  have s1: "heap_ok s1" "heap_extends s s1" "card (free_pages s) \<le> card (free_pages s1) + 4"
    "\<And>va. unat page \<le> unat va \<Longrightarrow> unat va < unat page + 4096 \<Longrightarrow> translation s1 va \<noteq> None"
  proof -
    show "heap_ok s1" "heap_extends s s1" "card (free_pages s) \<le> card (free_pages s1) + 4"
      using Suc.prems(1) one by (auto simp: s1_def heap_extends_refl)
    fix va :: u64 assume v: "unat page \<le> unat va" "unat va < unat page + 4096"
    have va: "in_heap va" using v pg by (auto simp: in_heap_def)
    have "unat va div 4096 = unat page div 4096" by (rule same_page_div[OF Suc.prems(2) v])
    then have vp: "vpn va = vpn page" by (simp add: vpn_heap[OF va pg(1)])
    show "translation s1 va \<noteq> None"
    proof (cases "translation s page = None")
      case True
      then show ?thesis using one(4)[OF True va] vp by (simp add: s1_def)
    next
      case False
      have "vmm_inv s" "small_path s va" "small_path s page"
        using Suc.prems(1) va pg(1) by (auto simp: heap_ok_def)
      then show ?thesis
        using False vp va_path_vpn[of va page] by (simp add: s1_def translation_small split: if_splits)
    qed
  qed
  have step: "heap_map_pages (Suc n) page s = heap_map_pages n (page + 0x1000) s1"
    using heap_lookup[OF Suc.prems(1) pg(1)] one(1)
    by (auto simp: s1_def split_beta Let_def split: option.splits)
  have "4 * n \<le> card (free_pages s1)" using Suc.prems(4) s1(3) by simp
  then obtain t where t: "heap_map_pages n (page + 0x1000) s1 = (True, t)" "heap_ok t" "heap_extends s1 t"
    "\<And>va. unat (page + 0x1000) \<le> unat va \<Longrightarrow> unat va < unat (page + 0x1000) + 4096 * n \<Longrightarrow> translation t va \<noteq> None"
    "card (free_pages s1) \<le> card (free_pages t) + 4 * n"
    using Suc.IH[OF s1(1) al nh] by blast
  have "translation t va \<noteq> None" if "unat page \<le> unat va" "unat va < unat page + 4096 * Suc n" for va
  proof (cases "unat va < unat page + 4096")
    case True
    then show ?thesis using s1(4)[OF that(1)] t(3) unfolding heap_extends_def by auto
  next
    case False
    then show ?thesis using t(4)[of va] that np by simp
  qed
  moreover have "card (free_pages s) \<le> card (free_pages t) + 4 * Suc n" using s1(3) t(5) by simp
  ultimately show ?case using step t(1,2) heap_extends_trans[OF s1(2) t(3)] by auto
qed

section \<open>What the memory managers may change\<close>

text \<open>
  \<open>mm_only s t\<close>: only memory, the counter of used frames and the screen differ, and the
  processor executed nothing but memory fences, TLB invalidations and writes to the cursor
  ports; true of every operation of the two managers, failing or not.
\<close>

fun mm_event :: "hw_event \<Rightarrow> bool" where
  "mm_event Mfence \<longleftrightarrow> True"
| "mm_event (Invlpg va) \<longleftrightarrow> True"
| "mm_event e \<longleftrightarrow> vga_event e"

lemma vga_event_mm: "vga_event e \<Longrightarrow> mm_event e"
  by (cases e) auto

definition mm_only :: "'a vmm_state_scheme \<Rightarrow> 'a vmm_state_scheme \<Rightarrow> bool" where
  "mm_only s t \<longleftrightarrow> (\<exists>m es b x y c p. list_all mm_event es \<and> t = s\<lparr>mem := m, hw_trace := hw_trace s @ es,
     vga_buffer := b, vga_cursor_x := x, vga_cursor_y := y, vga_color := c, used_pages := p\<rparr>)"

lemma mm_onlyI:
  "list_all mm_event es \<Longrightarrow> t = s\<lparr>mem := m, hw_trace := hw_trace s @ es, vga_buffer := b, vga_cursor_x := x,
     vga_cursor_y := y, vga_color := c, used_pages := p\<rparr> \<Longrightarrow> mm_only s t"
  unfolding mm_only_def by blast

lemma mm_onlyE:
  assumes "mm_only s t"
  obtains m es b x y c p where "list_all mm_event es"
    and "t = s\<lparr>mem := m, hw_trace := hw_trace s @ es, vga_buffer := b, vga_cursor_x := x,
      vga_cursor_y := y, vga_color := c, used_pages := p\<rparr>"
  using assms unfolding mm_only_def by blast

lemma mm_only_refl [simp, intro]: "mm_only s s"
  by (rule mm_onlyI[where m = "mem s" and es = "[]" and b = "vga_buffer s" and x = "vga_cursor_x s"
        and y = "vga_cursor_y s" and c = "vga_color s" and p = "used_pages s"]) simp_all

lemma mm_only_trans [trans]:
  assumes "mm_only s t" and "mm_only t u"
  shows "mm_only s u"
proof -
  obtain m es b x y c p where 1: "list_all mm_event es" "t = s\<lparr>mem := m, hw_trace := hw_trace s @ es,
      vga_buffer := b, vga_cursor_x := x, vga_cursor_y := y, vga_color := c, used_pages := p\<rparr>"
    using assms(1) by (rule mm_onlyE)
  obtain m' es' b' x' y' c' p' where 2: "list_all mm_event es'" "u = t\<lparr>mem := m', hw_trace := hw_trace t @ es',
      vga_buffer := b', vga_cursor_x := x', vga_cursor_y := y', vga_color := c', used_pages := p'\<rparr>"
    using assms(2) by (rule mm_onlyE)
  show ?thesis
    by (rule mm_onlyI[where m = m' and es = "es @ es'" and b = b' and x = x' and y = y' and c = c' and p = p'])
      (simp_all add: 1 2(1), simp add: 2(2) 1(2))
qed

lemma vga_only_mm:
  fixes s t :: "'a vmm_state_scheme"
  assumes "vga_only s t"
  shows "mm_only s t"
proof -
  obtain b x y c es where e: "list_all vga_event es" and t: "t = s\<lparr>hw_trace := hw_trace s @ es, vga_buffer := b,
      vga_cursor_x := x, vga_cursor_y := y, vga_color := c\<rparr>" using assms by (rule vga_onlyE)
  have "list_all mm_event es" using e by (rule list.pred_mono_strong) (rule vga_event_mm)
  then show ?thesis
    by (rule mm_onlyI[where m = "mem s" and b = b and x = x and y = y and c = c and p = "used_pages s"]) (simp add: t)
qed

lemma mm_only_step [simp]:
  fixes s :: "'a vmm_state_scheme"
  shows "mm_only s (s\<lparr>mem := m\<rparr>)" "mm_event e \<Longrightarrow> mm_only s (emit e s)" "mm_only s (bm_set i s)"
proof -
  show "mm_only s (s\<lparr>mem := m\<rparr>)"
    by (rule mm_onlyI[where m = m and es = "[]" and b = "vga_buffer s" and x = "vga_cursor_x s"
          and y = "vga_cursor_y s" and c = "vga_color s" and p = "used_pages s"]) simp_all
  show "mm_only s (emit e s)" if "mm_event e"
    by (rule mm_onlyI[where m = "mem s" and es = "[e]" and b = "vga_buffer s" and x = "vga_cursor_x s"
          and y = "vga_cursor_y s" and c = "vga_color s" and p = "used_pages s"]) (simp_all add: emit_def that)
  show "mm_only s (bm_set i s)"
    by (rule mm_onlyI[where m = "mem (bm_set i s)" and es = "[]" and b = "vga_buffer s"
          and x = "vga_cursor_x s" and y = "vga_cursor_y s" and c = "vga_color s" and p = "used_pages s + 1"])
      (simp_all add: bm_set_def)
qed

lemma mm_only_pte_set [simp]: "mm_only s (pte_set t i v s)"
  by (simp add: pte_set_def)

lemma mm_only_zero_table [simp]: "mm_only s (vmm_zero_table t s)"
  unfolding vmm_zero_table_def by (rule for_up_relation) (auto intro: mm_only_trans)

lemma mm_only_alloc [simp]:
  fixes s :: "'a vmm_state_scheme"
  shows "mm_only s (snd (pmm_alloc_page s))"
  by (simp add: pmm_alloc_page_def split: option.splits)

lemma mm_only_next_table [simp]: "mm_only s (snd (vmm_next_table create flags t i s))"
proof -
  define s1 where "s1 = snd (pmm_alloc_page s)"
  define s2 where "s2 = vmm_zero_table (fst (pmm_alloc_page s)) s1"
  define s3 where "s3 = pte_set t i (fst (pmm_alloc_page s) OR parent_flags flags) (emit Mfence s2)"
  have "mm_only s s1" by (simp add: s1_def)
  also have "mm_only s1 s2" by (simp add: s2_def)
  also have "mm_only s2 (emit Mfence s2)" by simp
  also have "mm_only (emit Mfence s2) s3" by (simp add: s3_def)
  also have "mm_only s3 (emit Mfence s3)" by simp
  finally have 1: "mm_only s (emit Mfence s3)" .
  have 2: "mm_only s (emit e (pte_set t i v s))" if "mm_event e" for e v
    by (rule mm_only_trans[OF mm_only_pte_set mm_only_step(2)[OF that]])
  show ?thesis
    using 1 2 by (auto simp: vmm_next_table_def split_beta Let_def s1_def s2_def s3_def)
qed

lemma mm_only_get_pte_flags [simp]: "mm_only s (snd (vmm_get_pte_flags va create flags s))"
proof -
  have n: "mm_only s s'" if "vmm_next_table create flags t i s = (r, s')" for t i r s' and s :: "'a vmm_state_scheme"
    using mm_only_next_table[of s create flags t i] that by simp
  show ?thesis
    by (auto simp: vmm_get_pte_flags_def split: prod.splits option.splits dest!: n intro: mm_only_trans)
qed

lemma mm_only_map_page [simp]: "mm_only s (vmm_map_page va pa flags s)"
proof -
  obtain r s1 where g: "vmm_get_pte_flags va True flags s = (r, s1)" by force
  have 1: "mm_only s s1" using mm_only_get_pte_flags[of s va True flags] g by simp
  have "mm_only s1 (vmm_map_page va pa flags s)"
  proof (cases r)
    case None
    then show ?thesis by (simp add: vmm_map_page_def g vga_only_mm)
  next
    case (Some p)
    let ?u = "s1\<lparr>mem := write64 ((pa AND NOT 0xFFF) OR ucast flags OR PAGE_PRESENT) p (mem s1)\<rparr>"
    have "mm_only s1 ?u" by simp
    also have "mm_only ?u (emit Mfence ?u)" by simp
    also have "mm_only (emit Mfence ?u) (emit (Invlpg va) (emit Mfence ?u))" by simp
    finally show ?thesis using Some by (simp add: vmm_map_page_def g Let_def vmm_invlpg_def)
  qed
  with 1 show ?thesis by (rule mm_only_trans)
qed

lemma mm_only_virt_to_phys [simp]: "snd (vmm_virt_to_phys va s) = s"
  by (auto simp: vmm_virt_to_phys_def vmm_get_pte_read Let_def)

lemma mm_only_heap_map_pages [simp]: "mm_only s (snd (heap_map_pages n page s))"
proof (induction n arbitrary: page s)
  case 0
  then show ?case by simp
next
  case (Suc n)
  have v: "vmm_virt_to_phys page s = (fst (vmm_virt_to_phys page s), s)"
    using mm_only_virt_to_phys[of page s] by (metis prod.collapse)
  obtain pp s1 where a: "pmm_alloc_page s = (pp, s1)" by force
  have 1: "mm_only s s1" using mm_only_alloc[of s] a by simp
  have "mm_only s (snd (heap_map_pages n (page + 0x1000) (vmm_map_page page pp fl s1)))" for fl
    using mm_only_trans[OF mm_only_trans[OF 1 mm_only_map_page] Suc.IH] .
  then show ?case
    using 1 Suc.IH v by (simp add: a split_beta Let_def)
qed

lemma mm_only_heap_fields:
  fixes s t :: "'a heap_state_scheme"
  assumes "mm_only s t"
  shows "heap_current_ptr t = heap_current_ptr s" "heap_total_alloc t = heap_total_alloc s"
  using assms by (auto simp: mm_only_def)

end
