(* ===== verification/HeapProps.thy ===== *)
theory HeapProps
  imports Heap
begin

text \<open>
  Correctness of \<^verbatim>\<open>kmalloc\<close>: the bump arithmetic on every branch, the mapped memory behind
  a returned block, disjointness of blocks, and two ways in which the code goes wrong.
\<close>

section \<open>The bump arithmetic\<close>

definition ptr_ok :: "'a heap_state_scheme \<Rightarrow> bool" where
  "ptr_ok s \<longleftrightarrow> in_heap (heap_current_ptr s) \<and> unat (heap_current_ptr s) mod 16 = 0 \<and>
     heap_total_alloc s = heap_current_ptr s - HEAP_START"

lemma round16_bounds:
  assumes "unat n + 15 < 18446744073709551616"
  shows "unat n \<le> unat (round16 n)" "unat (round16 n) \<le> unat n + 15" "unat (round16 n) mod 16 = 0"
  using unat_round16[OF assms] by (linarith, linarith, simp)

text \<open>Sizes for which neither rounding nor the addition to the heap pointer wraps.\<close>

abbreviation MAX_REQUEST :: nat where "MAX_REQUEST \<equiv> 0x7FFFFF000000 - 16"

lemma heap_sum:
  assumes "in_heap p" and "unat n \<le> MAX_REQUEST"
  shows "unat (p + round16 n) = unat p + unat (round16 n)"
proof -
  have "unat (round16 n) \<le> unat n + 15" using assms(2) by (intro round16_bounds(2)) simp
  then show ?thesis using assms by (intro unat_add_less) (simp add: in_heap_def)
qed

lemma kmalloc_limit:
  assumes "in_heap (heap_current_ptr s)" and "unat n \<le> MAX_REQUEST"
  shows "heap_current_ptr s + round16 n \<ge> HEAP_START + HEAP_SIZE \<longleftrightarrow>
    0xFFFF800001000000 \<le> unat (heap_current_ptr s) + unat (round16 n)"
  using heap_sum[OF assms] by (simp add: word_le_nat_alt)

definition kmalloc_pages :: "u64 \<Rightarrow> u64 \<Rightarrow> nat" where
  "kmalloc_pages p r = (unat ((p + r + 0xFFF) AND NOT 0xFFF) - unat (p AND NOT 0xFFF)) div 4096"

lemma kmalloc_cases:
  fixes s :: "'a heap_state_scheme"
  assumes "n \<noteq> 0" and "\<not> heap_current_ptr s + round16 n \<ge> HEAP_START + HEAP_SIZE"
  shows "kmalloc n s =
    (let (ok, t) = heap_map_pages (kmalloc_pages (heap_current_ptr s) (round16 n)) (heap_current_ptr s AND NOT 0xFFF) s
     in if ok then (heap_current_ptr s, t\<lparr>heap_current_ptr := heap_current_ptr s + round16 n,
                      heap_total_alloc := heap_total_alloc s + round16 n\<rparr>)
        else (0, t))"
proof -
  obtain ok t where h: "heap_map_pages (kmalloc_pages (heap_current_ptr s) (round16 n))
      (heap_current_ptr s AND NOT 0xFFF) s = (ok, t)" by force
  have "mm_only s t" using mm_only_heap_map_pages[of s] h by (metis snd_conv)
  note f = mm_only_heap_fields[OF this]
  show ?thesis
    using assms h f unfolding kmalloc_def kmalloc_pages_def Let_def
    by (cases ok) simp_all
qed

lemma kmalloc_ptr:
  fixes s :: "'a heap_state_scheme"
  assumes "ptr_ok s" and "unat n \<le> MAX_REQUEST"
  shows "(let (p, t) = kmalloc n s in
     (p = 0 \<and> heap_current_ptr t = heap_current_ptr s \<and> heap_total_alloc t = heap_total_alloc s) \<or>
     (p = heap_current_ptr s \<and> n \<noteq> 0 \<and> heap_current_ptr t = p + round16 n \<and>
      unat (heap_current_ptr t) = unat p + unat (round16 n) \<and> ptr_ok t))"
proof (cases "n = 0 \<or> heap_current_ptr s + round16 n \<ge> HEAP_START + HEAP_SIZE")
  case True
  then show ?thesis by (auto simp: kmalloc_def Let_def)
next
  case False
  obtain ok t where h: "heap_map_pages (kmalloc_pages (heap_current_ptr s) (round16 n))
      (heap_current_ptr s AND NOT 0xFFF) s = (ok, t)" by force
  have "mm_only s t" using mm_only_heap_map_pages[of s] h by (metis snd_conv)
  note f = mm_only_heap_fields[OF this]
  have ih: "in_heap (heap_current_ptr s)" using assms(1) by (simp add: ptr_ok_def)
  note sum = heap_sum[OF ih assms(2)]
  have r: "unat (round16 n) mod 16 = 0" using assms(2) by (intro round16_bounds(3)) simp
  have "unat (heap_current_ptr s) + unat (round16 n) < 0xFFFF800001000000"
    using False kmalloc_limit[OF ih assms(2)] by simp
  then have "in_heap (heap_current_ptr s + round16 n)" using sum ih by (simp add: in_heap_def)
  moreover have "unat (heap_current_ptr s + round16 n) mod 16 = 0"
    using sum r assms(1) by (simp add: ptr_ok_def mod_add_eq[of "unat (heap_current_ptr s)", symmetric])
  ultimately show ?thesis
    using False kmalloc_cases[of n s] h f sum assms(1)
    by (auto simp: Let_def ptr_ok_def algebra_simps)
qed

section \<open>A successful allocation\<close>

lemma heap_field_updates [simp]:
  "free_pages (s\<lparr>heap_current_ptr := p, heap_total_alloc := q\<rparr>) = free_pages s"
  "translation (s\<lparr>heap_current_ptr := p, heap_total_alloc := q\<rparr>) = translation s"
  "kept_bytes (s\<lparr>heap_current_ptr := p, heap_total_alloc := q\<rparr>) = kept_bytes s"
  "heap_ok (s\<lparr>heap_current_ptr := p, heap_total_alloc := q\<rparr>) = heap_ok s"
proof -
  let ?t = "s\<lparr>heap_current_ptr := p, heap_total_alloc := q\<rparr>"
  have e: "bitmap ?t = bitmap s" "total_pages ?t = total_pages s" "used_pages ?t = used_pages s"
    "\<And>a. mem ?t a = mem s a" by simp_all
  note same = pmm_same[OF e(1-3), OF e(4)]
  show "free_pages ?t = free_pages s" by (rule same)
  show tr: "translation ?t = translation s" by (simp add: translation_def fun_eq_iff)
  show k: "kept_bytes ?t = kept_bytes s" by (simp add: kept_bytes_def same)
  have "small_path ?t = small_path s" by (simp add: small_path_def fun_eq_iff)
  moreover have "vmm_inv ?t = vmm_inv s" by (simp add: vmm_inv_def same)
  ultimately show "heap_ok ?t = heap_ok s" by (simp add: heap_ok_def tr k)
qed

lemma kmalloc_range:
  assumes "in_heap p" and "unat p + unat r < 0xFFFF800001000000" and "unat r \<le> unat n + 15"
  shows "unat (p AND NOT 0xFFF) mod 4096 = 0"
    "in_heap (p AND NOT 0xFFF)"
    "unat (p AND NOT 0xFFF) + 4096 * kmalloc_pages p r \<le> 0xFFFF800001000000"
    "kmalloc_pages p r \<le> unat n div 4096 + 3"
    "unat p + unat r \<le> unat (p AND NOT 0xFFF) + 4096 * kmalloc_pages p r"
proof -
  let ?a = "unat p" and ?r = "unat r"
  have pr: "unat (p + r) = ?a + ?r" using assms(1,2) by (intro unat_add_less) (simp add: in_heap_def)
  have "unat (p + r + 0xFFF) = unat (p + r) + unat (0xFFF :: u64)"
    using assms(2) pr by (intro unat_add_less) simp
  then have en: "unat ((p + r + 0xFFF) AND NOT 0xFFF) = (?a + ?r + 4095) div 4096 * 4096"
    by (simp only: unat_page_down pr) simp
  have st: "unat (p AND NOT 0xFFF) = ?a div 4096 * 4096" by (rule unat_page_down)
  have n: "kmalloc_pages p r = (?a + ?r + 4095) div 4096 - ?a div 4096"
    unfolding kmalloc_pages_def en st by (simp flip: diff_mult_distrib)
  have h: "0xFFFF800000000000 \<le> ?a" "?a < 0xFFFF800001000000" using assms(1) by (auto simp: in_heap_def)
  show "unat (p AND NOT 0xFFF) mod 4096 = 0" unfolding st by simp
  have "4503565267632128 \<le> ?a div 4096" using div_le_mono[OF h(1), of 4096] by simp
  then show "in_heap (p AND NOT 0xFFF)"
    unfolding in_heap_def st using h(2) div_times_less_eq_dividend[of ?a 4096] by linarith
  have le: "?a div 4096 \<le> (?a + ?r + 4095) div 4096" by (rule div_le_mono) simp
  then have sum: "unat (p AND NOT 0xFFF) + 4096 * kmalloc_pages p r = (?a + ?r + 4095) div 4096 * 4096"
    unfolding st n by (simp add: algebra_simps flip: add_mult_distrib)
  show "unat (p AND NOT 0xFFF) + 4096 * kmalloc_pages p r \<le> 0xFFFF800001000000"
  proof -
    have "(?a + ?r + 4095) div 4096 \<le> 18446603336237977598 div 4096"
      using assms(2) by (intro div_le_mono) simp
    then show ?thesis unfolding sum by simp
  qed
  show "?a + ?r \<le> unat (p AND NOT 0xFFF) + 4096 * kmalloc_pages p r"
    unfolding sum by linarith
  show "kmalloc_pages p r \<le> unat n div 4096 + 3" unfolding n using assms(3) by linarith
qed

lemma kmalloc_success:
  fixes s :: "'a heap_state_scheme"
  assumes ok: "heap_ok s" and ptr: "ptr_ok s" and n: "n \<noteq> 0" "unat n \<le> MAX_REQUEST"
    and fits: "unat (heap_current_ptr s) + unat (round16 n) < 0xFFFF800001000000"
    and room: "4 * (unat n div 4096 + 3) \<le> card (free_pages s)"
  obtains t u where "kmalloc n s = (heap_current_ptr s, t)"
    and "t = u\<lparr>heap_current_ptr := heap_current_ptr s + round16 n, heap_total_alloc := heap_total_alloc s + round16 n\<rparr>"
    and "heap_ok t" and "ptr_ok t" and "heap_extends s u"
    and "\<forall>k < unat n. translation t (heap_current_ptr s + of_nat k) \<noteq> None"
    and "card (free_pages s) \<le> card (free_pages t) + 4 * (unat n div 4096 + 3)" and "mm_only s u"
proof -
  let ?p = "heap_current_ptr s" and ?r = "round16 n"
  have ih: "in_heap ?p" using ptr by (simp add: ptr_ok_def)
  have r: "unat n \<le> unat ?r" "unat ?r \<le> unat n + 15" using n(2) round16_bounds[of n] by auto
  note rg = kmalloc_range[OF ih fits r(2)]
  have lim: "\<not> ?p + ?r \<ge> HEAP_START + HEAP_SIZE" using kmalloc_limit[OF ih n(2)] fits by simp
  have "4 * kmalloc_pages ?p ?r \<le> card (free_pages s)" 
    using mult_le_mono2[OF rg(4), of 4] room by (rule order_trans)
  then obtain u where u: "heap_map_pages (kmalloc_pages ?p ?r) (?p AND NOT 0xFFF) s = (True, u)"
    "heap_ok u" "heap_extends s u"
    "\<And>va. unat (?p AND NOT 0xFFF) \<le> unat va \<Longrightarrow> unat va < unat (?p AND NOT 0xFFF) + 4096 * kmalloc_pages ?p ?r \<Longrightarrow>
       translation u va \<noteq> None"
    "card (free_pages s) \<le> card (free_pages u) + 4 * kmalloc_pages ?p ?r"
    using heap_map_pages_ok[OF ok rg(1)] rg(2,3) by blast
  have mm: "mm_only s u" using mm_only_heap_map_pages[of s] u(1) by (metis snd_conv)
  have cd: "card (free_pages s) \<le> card (free_pages u) + 4 * (unat n div 4096 + 3)"
    using u(5) mult_le_mono2[OF rg(4), of 4] by linarith
  define t where "t = u\<lparr>heap_current_ptr := ?p + ?r, heap_total_alloc := heap_total_alloc s + ?r\<rparr>"
  have k: "kmalloc n s = (?p, t)"
    using kmalloc_cases[OF n(1) lim] u(1) by (simp add: t_def Let_def)
  moreover have "?p \<noteq> 0" using ih by (auto simp: in_heap_def)
  ultimately have "ptr_ok t" using kmalloc_ptr[OF ptr n(2)] by auto
  moreover have "translation t (?p + of_nat i) \<noteq> None" if "i < unat n" for i
  proof -
    have "unat (?p + of_nat i) = unat ?p + i" using that r fits by (intro unat_index_add) simp
    moreover have "unat (?p AND NOT 0xFFF) \<le> unat ?p" by (rule page_down_le)
    moreover have "unat ?p + i < unat (?p AND NOT 0xFFF) + 4096 * kmalloc_pages ?p ?r"
      using that r rg(5) by linarith
    ultimately have "translation u (?p + of_nat i) \<noteq> None" using u(4)[of "?p + of_nat i"] by simp
    then show ?thesis by (simp add: t_def)
  qed
  ultimately show thesis using that[OF k t_def] u(2,3) mm cd by (simp add: t_def)
qed

section \<open>Running out of frames\<close>

text \<open>The pages of the \<open>n\<close> bytes from \<open>p\<close> on that have an unmapped byte.\<close>

definition unmapped_pages :: "'a vmm_state_scheme \<Rightarrow> u64 \<Rightarrow> nat \<Rightarrow> nat set" where
  "unmapped_pages s p n = {unat (p + of_nat k) div 4096 | k. k < n \<and> translation s (p + of_nat k) = None}"

lemma heap_same_page:
  assumes "heap_ok s" and "in_heap va" and "in_heap va'" and "unat va div 4096 = unat va' div 4096"
  shows "translation s va = None \<longleftrightarrow> translation s va' = None"
proof -
  have "vpn va = vpn va'" using vpn_heap[OF assms(2,3)] assms(4) by simp
  then have "va_path va = va_path va'" by (simp add: va_path_vpn)
  then show ?thesis using assms(1-3) by (simp add: heap_ok_def translation_small)
qed

text \<open>
  The mapping loop keeps the heap whatever happens, and it gives up if there are fewer frames
  than pages to map: each such page takes a frame, and when a page table is missing and no
  frame is left for it, none is left for the next page either.
\<close>

definition loop_unmapped :: "'a vmm_state_scheme \<Rightarrow> u64 \<Rightarrow> nat \<Rightarrow> nat set" where
  "loop_unmapped s page n = {k. k < n \<and> translation s (page + 0x1000 * of_nat k) = None}"

lemma loop_unmapped_Suc:
  "card (loop_unmapped s page (Suc n)) =
     (if translation s page = None then 1 else 0) + card (loop_unmapped s (page + 0x1000) n)"
proof -
  have "loop_unmapped s page (Suc n) =
      (if translation s page = None then {0} else {}) \<union> Suc ` loop_unmapped s (page + 0x1000) n"
    by (auto simp: loop_unmapped_def less_Suc_eq_0_disj image_iff algebra_simps)
  moreover have "finite (loop_unmapped s (page + 0x1000) n)" by (simp add: loop_unmapped_def)
  ultimately show ?thesis by (simp add: card_image)
qed

lemma heap_map_pages_any:
  assumes "heap_ok s" and "unat page mod 4096 = 0"
    and "0 < n \<Longrightarrow> in_heap page \<and> unat page + 4096 * n \<le> 0xFFFF800001000000"
    and "heap_map_pages n page s = (ok, t)"
  shows "heap_ok t \<and> heap_keeps s t \<and> (card (free_pages s) < card (loop_unmapped s page n) \<longrightarrow> \<not> ok)"
  using assms
proof (induction n arbitrary: page s)
  case 0
  then show ?case by (simp add: heap_keeps_refl loop_unmapped_def)
next
  case (Suc n)
  have pg: "in_heap page" "unat page + 4096 * Suc n \<le> 0xFFFF800001000000" using Suc.prems(3) by auto
  have np: "unat (page + 0x1000) = unat page + 4096" by (rule heap_next_page[OF pg(1) Suc.prems(2)])
  have nh: "0 < n \<Longrightarrow> in_heap (page + 0x1000) \<and> unat (page + 0x1000) + 4096 * n \<le> 0xFFFF800001000000"
    using pg np by (auto simp: in_heap_def)
  have al: "unat (page + 0x1000) mod 4096 = 0" using np Suc.prems(2) by simp
  note look = heap_lookup[OF Suc.prems(1) pg(1)]
  show ?case
  proof (cases "translation s page = None")
    case False
    then have "heap_map_pages n (page + 0x1000) s = (ok, t)"
      using Suc.prems(4) look by (auto simp: split_beta Let_def split: option.splits)
    then show ?thesis using Suc.IH[OF Suc.prems(1) al nh] False unfolding loop_unmapped_Suc by auto
  next
    case True
    have "heap_map_pages (Suc n) page s = (if fst (pmm_alloc_page s) = 0 then (False, snd (pmm_alloc_page s))
        else heap_map_pages n (page + 0x1000)
          (vmm_map_page page (fst (pmm_alloc_page s)) KERNEL_FLAGS (snd (pmm_alloc_page s))))"
      using True look(1) by (simp add: split_beta Let_def)
    note body = this[symmetric, unfolded Suc.prems(4)]
    have inv: "pmm_inv s" "vmm_inv s" using Suc.prems(1) vmm_invD(1) by (auto simp: heap_ok_def)
    show ?thesis
    proof (cases "free_pages s = {}")
      case True
      then have "(ok, t) = (False, s)" using body pmm_alloc_page_None[OF inv(1)] by simp
      then show ?thesis using Suc.prems(1) by (simp add: heap_keeps_refl)
    next
      case ne: False
      define s1 where "s1 = vmm_map_page page (fst (pmm_alloc_page s)) KERNEL_FLAGS (snd (pmm_alloc_page s))"
      have "fst (pmm_alloc_page s) \<noteq> 0"
        using vmm_alloc_frame(1)[OF inv(2) ne] free_frame_bounds(4)[OF inv(2), of "Min (free_pages s)"] ne by simp
      then have loop: "heap_map_pages n (page + 0x1000) s1 = (ok, t)" using body by (simp add: s1_def)
      have s1: "heap_ok s1" "heap_keeps s s1" "card (free_pages s1) < card (free_pages s)"
        "in_heap w \<Longrightarrow> vpn w \<noteq> vpn page \<Longrightarrow> translation s1 w = None \<longleftrightarrow> translation s w = None" for w
      proof -
        have "heap_ok s1 \<and> heap_keeps s s1 \<and> card (free_pages s1) < card (free_pages s) \<and>
          (\<forall>w. in_heap w \<longrightarrow> vpn w \<noteq> vpn page \<longrightarrow> (translation s1 w = None \<longleftrightarrow> translation s w = None))"
        proof (cases "missing_tables s page < card (free_pages s)")
          case True
          note one = heap_map_one[OF Suc.prems(1) pg(1) \<open>translation s page = None\<close> True, folded s1_def]
          have "heap_keeps s s1" using one(3) by (simp add: heap_extends_def heap_keeps_def)
          then show ?thesis using one(2,4,6) by blast
        next
          case False
          note f = heap_map_fails[OF Suc.prems(1) pg(1) ne, folded s1_def]
          show ?thesis using f False ne by (simp add: card_gt_0_iff)
        qed
        then show "heap_ok s1" "heap_keeps s s1" "card (free_pages s1) < card (free_pages s)"
          "in_heap w \<Longrightarrow> vpn w \<noteq> vpn page \<Longrightarrow> translation s1 w = None \<longleftrightarrow> translation s w = None"
          by blast+
      qed
      have same: "loop_unmapped s (page + 0x1000) n \<subseteq> loop_unmapped s1 (page + 0x1000) n"
      proof
        fix k assume k: "k \<in> loop_unmapped s (page + 0x1000) n"
        let ?w = "page + 0x1000 + 0x1000 * of_nat k"
        have kn: "k < n" "translation s ?w = None" using k by (simp_all add: loop_unmapped_def)
        have "unat (0x1000 * of_nat k :: u64) = 4096 * k"
          using kn(1) pg(2) by (simp add: unat_mult_lem[THEN iffD1] unat_word_ariths u64_of_nat_less)
        then have u: "unat ?w = unat page + 4096 + 4096 * k"
          using kn(1) pg(2) np by (subst unat_add_less) simp_all
        then have ih: "in_heap ?w" using pg kn(1) by (simp add: in_heap_def)
        have "unat ?w div 4096 \<noteq> unat page div 4096" unfolding u by simp
        then have "vpn ?w \<noteq> vpn page" using vpn_heap[OF ih pg(1)] by simp
        then show "k \<in> loop_unmapped s1 (page + 0x1000) n"
          using kn s1(4)[OF ih] by (simp add: loop_unmapped_def)
      qed
      have "finite (loop_unmapped s1 (page + 0x1000) n)" by (simp add: loop_unmapped_def)
      note card_mono[OF this same]
      then show ?thesis
        using Suc.IH[OF s1(1) al nh loop] s1(2,3) heap_keeps_trans \<open>translation s page = None\<close>
        by (auto simp: loop_unmapped_Suc)
    qed
  qed
qed

lemma unmapped_pages_loop:
  assumes "heap_ok s" and "in_heap p" and "unat p + unat r < 0xFFFF800001000000" and "n \<le> unat r"
    and "unat r \<le> m + 15" and "m = unat (w :: u64)"
  shows "card (unmapped_pages s p n) \<le> card (loop_unmapped s (p AND NOT 0xFFF) (kmalloc_pages p r))"
proof -
  let ?pg = "p AND NOT 0xFFF" and ?N = "kmalloc_pages p r"
  note rg = kmalloc_range[OF assms(2,3) assms(5)[unfolded assms(6)]]
  have pg: "unat ?pg = unat p div 4096 * 4096" by (rule unat_page_down)
  have "unmapped_pages s p n \<subseteq> (\<lambda>j. unat p div 4096 + j) ` loop_unmapped s ?pg ?N"
  proof
    fix q assume "q \<in> unmapped_pages s p n"
    then obtain k where k: "k < n" "q = unat (p + of_nat k) div 4096" "translation s (p + of_nat k) = None"
      by (auto simp: unmapped_pages_def)
    have u: "unat (p + of_nat k) = unat p + k" using k(1) assms(3,4) by (intro unat_index_add) simp
    have ih: "in_heap (p + of_nat k)" using assms(2-4) k(1) u by (simp add: in_heap_def)
    define j where "j = q - unat p div 4096"
    have q: "q = unat p div 4096 + j" using k(2) u by (simp add: j_def div_le_mono)
    have "q * 4096 \<le> unat p + k" using k(2) u by simp
    then have "4096 * j < 4096 * ?N" using rg(5) k(1) assms(4) unfolding pg q by (simp add: algebra_simps)
    then have j: "j < ?N" by simp
    have "unat (0x1000 * of_nat j :: u64) = 4096 * j"
      using j rg(3) by (simp add: unat_word_ariths u64_of_nat_less)
    then have v: "unat (?pg + 0x1000 * of_nat j) = 4096 * q"
      using j rg(3) unfolding q by (subst unat_add_less) (simp_all only: pg, simp_all)
    have "in_heap (?pg + 0x1000 * of_nat j)"
    proof -
      define a where "a = unat p div 4096"
      have "0xFFFF800000000000 \<le> a * 4096" "a * 4096 + 4096 * ?N \<le> 0xFFFF800001000000"
        using rg(2,3) unfolding in_heap_def pg a_def by simp_all
      then show ?thesis using j unfolding in_heap_def v q a_def[symmetric] by simp
    qed
    moreover have "unat (p + of_nat k) div 4096 = unat (?pg + 0x1000 * of_nat j) div 4096"
      unfolding v using k(2) by simp
    ultimately have "translation s (?pg + 0x1000 * of_nat j) = None"
      using heap_same_page[OF assms(1) ih] k(3) by blast
    then show "q \<in> (\<lambda>j. unat p div 4096 + j) ` loop_unmapped s ?pg ?N"
      using q j by (auto simp: loop_unmapped_def)
  qed
  moreover have "finite (loop_unmapped s ?pg ?N)" by (simp add: loop_unmapped_def)
  ultimately show ?thesis by (meson card_image_le card_mono finite_imageI order_trans)
qed

text \<open>Every call of \<^verbatim>\<open>kmalloc\<close>, successful or not.\<close>

lemma kmalloc_any:
  fixes s :: "'a heap_state_scheme"
  assumes ok: "heap_ok s" and ptr: "ptr_ok s" and n: "unat n \<le> MAX_REQUEST"
    and k: "kmalloc n s = (p, t)"
  shows "heap_ok t" "ptr_ok t" "heap_keeps s t"
    "card (free_pages s) < card (unmapped_pages s (heap_current_ptr s) (unat n)) \<Longrightarrow> p = 0"
proof -
  have ih: "in_heap (heap_current_ptr s)" using ptr by (simp add: ptr_ok_def)
  show "ptr_ok t" using kmalloc_ptr[OF ptr n] k ptr by (auto simp: ptr_ok_def)
  have "heap_ok t \<and> heap_keeps s t \<and>
    (card (free_pages s) < card (unmapped_pages s (heap_current_ptr s) (unat n)) \<longrightarrow> p = 0)"
  proof (cases "n = 0 \<or> heap_current_ptr s + round16 n \<ge> HEAP_START + HEAP_SIZE")
    case True
    then have "(p, t) = (0, s)" using k by (auto simp: kmalloc_def Let_def split: if_splits)
    then show ?thesis using ok by (simp add: heap_keeps_refl)
  next
    case False
    then have n0: "n \<noteq> 0" and lim: "\<not> heap_current_ptr s + round16 n \<ge> HEAP_START + HEAP_SIZE" by auto
    have fits: "unat (heap_current_ptr s) + unat (round16 n) < 0xFFFF800001000000"
      using lim kmalloc_limit[OF ih n] by simp
    have r: "unat n \<le> unat (round16 n)" "unat (round16 n) \<le> unat n + 15" using n round16_bounds[of n] by auto
    note rg = kmalloc_range[OF ih fits r(2)]
    obtain b u where h: "heap_map_pages (kmalloc_pages (heap_current_ptr s) (round16 n))
        (heap_current_ptr s AND NOT 0xFFF) s = (b, u)" by force
    have u: "heap_ok u" "heap_keeps s u"
      "card (free_pages s) < card (unmapped_pages s (heap_current_ptr s) (unat n)) \<Longrightarrow> \<not> b"
      using heap_map_pages_any[OF ok rg(1) _ h] rg(2,3) unmapped_pages_loop[OF ok ih fits r refl] by auto
    then show ?thesis using k kmalloc_cases[OF n0 lim] h by (auto simp: heap_keeps_def split: if_splits)
  qed
  then show "heap_ok t" "heap_keeps s t"
    "card (free_pages s) < card (unmapped_pages s (heap_current_ptr s) (unat n)) \<Longrightarrow> p = 0" by blast+
qed

section \<open>A concrete heap\<close>

definition example_heap :: heap_state where
  "example_heap = \<lparr>mem = mem example_kernel, hw_trace = [], vga_buffer = blank_screen,
     vga_cursor_x = 0, vga_cursor_y = 0, vga_color = 15, bitmap = bitmap example_kernel,
     total_pages = total_pages example_kernel, used_pages = used_pages example_kernel,
     cr3 = 0x100000, current_pml4_phys = 0x100000,
     heap_current_ptr = HEAP_START, heap_total_alloc = 0\<rparr>"

lemma example_heap_ok:
  "heap_ok example_heap" "ptr_ok example_heap" "free_pages example_heap = {273..<288}"
  "heap_current_ptr example_heap = HEAP_START"
proof -
  have e: "bitmap example_heap = bitmap example_vmm" "total_pages example_heap = total_pages example_vmm"
    "used_pages example_heap = used_pages example_vmm" "\<And>a. mem example_heap a = mem example_vmm a"
    "mem example_heap = mem example_vmm" "current_pml4_phys example_heap = current_pml4_phys example_vmm"
    by (simp_all add: example_heap_def example_vmm_def)
  note same = pmm_same[OF e(1-3), OF e(4)]
  show "free_pages example_heap = {273..<288}" using same(1) example_vmm_pmm(1) by simp
  have "vmm_inv example_heap" using example_vmm_inv by (simp add: vmm_inv_def same e)
  moreover have "small_path example_heap va" for va
    using example_vmm_paths(1)[of va] by (simp add: small_path_def e)
  moreover have "translation example_heap va = None" for va
    using example_vmm_paths(3)[of va] by (simp add: translation_def e)
  ultimately show "heap_ok example_heap" by (simp add: heap_ok_def)
  show "heap_current_ptr example_heap = HEAP_START" by (simp add: example_heap_def)
  show "ptr_ok example_heap" by (simp add: ptr_ok_def example_heap_def in_heap_def)
qed

text \<open>The example heap with one free frame.\<close>

definition example_last :: heap_state where
  "example_last = example_heap\<lparr>total_pages := 274, used_pages := 273\<rparr>"

lemma example_last_ok:
  "heap_ok example_last" "ptr_ok example_last" "free_pages example_last = {273}"
  "missing_tables example_last HEAP_START = 3" "translation example_last va = None"
proof -
  have t: "tables example_last p = (if p = [] then Some 0x100000 else None)" "pt_tree example_last p = 0" for p
    using example_vmm_tables[of p] by (simp_all add: example_last_def example_heap_def example_vmm_def)
  have tot: "total_pages example_heap = 288" by (simp add: example_heap_def example_kernel_facts)
  have "page_used example_last i = page_used example_heap i" for i
    by (simp add: page_used_def example_last_def)
  then have "free_pages example_last = {i \<in> free_pages example_heap. i < 274}"
    unfolding free_pages_def tot by (auto simp: example_last_def)
  also have "\<dots> = {273}" unfolding example_heap_ok(3) by auto
  finally show f: "free_pages example_last = {273}" .
  have fld: "bitmap example_last = bitmap example_heap" "total_pages example_last = 274"
    "used_pages example_last = 273" "total_pages example_heap = 288" "mem example_last = mem example_heap"
    "current_pml4_phys example_last = 0x100000" "heap_current_ptr example_last = HEAP_START"
    "heap_total_alloc example_last = 0"
    by (simp_all add: example_last_def example_heap_def example_kernel_facts)
  have bb: "bitmap_bytes example_last \<subseteq> bitmap_bytes example_vmm"
    by (auto simp: bitmap_bytes_def fld example_vmm_def example_heap_def example_kernel_facts)
  have fr: "unat a div 4096 = 272" if "a \<in> bitmap_bytes example_last" for a
    using that bb example_vmm_pmm(4) by blast
  then have "pmm_inv example_last" "bitmap_safe example_last"
    using f fld by (auto simp: pmm_inv_def bitmap_safe_def)
  moreover have "tables_separate (mem example_last) (current_pml4_phys example_last)"
    unfolding tables_separate_def t by (auto simp: page_aligned_def split: if_splits)
  moreover have "frame_bytes 256 \<inter> bitmap_bytes example_last = {}"
    using fr by (fastforce simp: frame_bytes_def)
  ultimately have inv: "vmm_inv example_last"
    unfolding vmm_inv_def t f by (auto simp: fld split: if_splits)
  have sm: "small_path example_last va" for va by (simp add: small_path_def t)
  then have tr: "translation example_last va = None" for va by (simp add: translation_small[OF inv] t)
  then show "translation example_last va = None" .
  show "heap_ok example_last" using inv sm tr by (simp add: heap_ok_def)
  show "ptr_ok example_last" by (simp add: ptr_ok_def fld in_heap_def)
  show "missing_tables example_last HEAP_START = 3" by (simp add: missing_tables_def walk_indices_def t)
qed

section \<open>Properties\<close>

text \<open>
  C11: a request that fits into the heap, with frames for its pages and their tables, returns
  the old heap pointer, a non-null 16-byte aligned address; every byte of the block is
  mapped, different heap addresses are backed by different physical bytes, everything mapped
  before stays mapped where it was with unchanged contents, and the statistics count the
  rounded size.
\<close>

theorem kmalloc_correct:
  assumes "heap_ok s" and "ptr_ok s" and "n \<noteq> 0" and "unat n \<le> MAX_REQUEST"
    and "unat (heap_current_ptr s) + unat (round16 n) < unat (HEAP_START + HEAP_SIZE)"
    and "4 * (unat n div 4096 + 3) \<le> card (free_pages s)"
  shows "let (p, t) = kmalloc n s in
    p = heap_current_ptr s \<and> p \<noteq> 0 \<and> unat p mod 16 = 0 \<and>
    unat (heap_current_ptr t) = unat p + unat (round16 n) \<and> unat n \<le> unat (round16 n) \<and>
    (\<forall>k < unat n. translation t (p + of_nat k) \<noteq> None) \<and>
    (\<forall>va va' pa. in_heap va \<and> in_heap va' \<and> translation t va = Some pa \<and> translation t va' = Some pa \<longrightarrow> va = va') \<and>
    (\<forall>va pa. translation s va = Some pa \<longrightarrow> translation t va = Some pa) \<and>
    (\<forall>a \<in> kept_bytes s. mem t a = mem s a) \<and>
    heap_total_allocated t = heap_current_size t \<and> heap_ok t \<and> ptr_ok t"
proof -
  have fits: "unat (heap_current_ptr s) + unat (round16 n) < 0xFFFF800001000000" using assms(5) by simp
  obtain t u where t: "kmalloc n s = (heap_current_ptr s, t)"
    "t = u\<lparr>heap_current_ptr := heap_current_ptr s + round16 n, heap_total_alloc := heap_total_alloc s + round16 n\<rparr>"
    "heap_ok t" "ptr_ok t" "heap_extends s u"
    "\<forall>k < unat n. translation t (heap_current_ptr s + of_nat k) \<noteq> None"
    by (rule kmalloc_success[OF assms(1-4) fits assms(6)])
  have ih: "in_heap (heap_current_ptr s)" "unat (heap_current_ptr s) mod 16 = 0"
    using assms(2) by (auto simp: ptr_ok_def)
  have "heap_current_ptr s \<noteq> 0" using ih by (auto simp: in_heap_def)
  moreover have "unat n \<le> unat (round16 n)" using assms(4) by (intro round16_bounds(1)) simp
  moreover have "unat (heap_current_ptr t) = unat (heap_current_ptr s) + unat (round16 n)"
    using heap_sum[OF ih(1) assms(4)] by (simp add: t(2))
  moreover have "heap_total_allocated t = heap_current_size t"
    using t(4) by (simp add: heap_total_allocated_def heap_current_size_def ptr_ok_def)
  moreover have "\<forall>va va' pa. in_heap va \<and> in_heap va' \<and> translation t va = Some pa \<and> translation t va' = Some pa \<longrightarrow> va = va'"
    using t(3) unfolding heap_ok_def by blast
  moreover have "\<forall>va pa. translation s va = Some pa \<longrightarrow> translation t va = Some pa"
    "\<forall>a \<in> kept_bytes s. mem t a = mem s a"
    using t(5) by (simp_all add: heap_extends_def t(2))
  ultimately show ?thesis using ih(2) t(3,4,6) unfolding t(1) Let_def prod.case by blast
qed

lemma kmalloc_correct_witness:
  "fst (kmalloc 100 example_heap) = HEAP_START \<and>
   unat (heap_current_ptr (snd (kmalloc 100 example_heap))) = unat HEAP_START + 112 \<and>
   translation (snd (kmalloc 100 example_heap)) (HEAP_START + 99) \<noteq> None"
proof -
  have r: "round16 100 = 112" by code_simp
  note k = kmalloc_correct[OF example_heap_ok(1,2), of 100]
  have "let (p, t) = kmalloc 100 example_heap in p = HEAP_START \<and>
      unat (heap_current_ptr t) = unat p + 112 \<and> (\<forall>k < 100. translation t (p + of_nat k) \<noteq> None)"
    using k by (auto simp: r example_heap_ok split_beta Let_def)
  then show ?thesis
    by (auto simp: split_beta Let_def dest: spec[of _ 99])
qed

text \<open>
  C15: for sizes up to \<open>MAX_REQUEST\<close>, for which the limit check does not wrap: a request for
  nothing, or one that reaches the end of the heap, returns NULL and changes nothing. When
  fewer frames are free than pages of the requested block are unmapped, NULL is returned as
  well; the heap pointer and the statistics are then as before, all that was mapped is still
  mapped where it was, all memory in use keeps its contents, and the heap stays well formed
  (pages mapped on the way stay mapped).
\<close>

theorem kmalloc_failure:
  fixes s :: "'a heap_state_scheme"
  assumes "heap_ok s" and "ptr_ok s" and "unat n \<le> MAX_REQUEST"
  shows "(n = 0 \<or> unat (HEAP_START + HEAP_SIZE) \<le> unat (heap_current_ptr s) + unat (round16 n)
            \<longrightarrow> kmalloc n s = (0, s)) \<and>
    (card (free_pages s) < card (unmapped_pages s (heap_current_ptr s) (unat n)) \<longrightarrow>
       (let (p, t) = kmalloc n s in
          p = 0 \<and> heap_current_ptr t = heap_current_ptr s \<and> heap_total_allocated t = heap_total_allocated s \<and>
          heap_ok t \<and> (\<forall>va pa. translation s va = Some pa \<longrightarrow> translation t va = Some pa) \<and>
          (\<forall>a \<in> kept_bytes s. mem t a = mem s a)))"
proof -
  have ih: "in_heap (heap_current_ptr s)" using assms(2) by (simp add: ptr_ok_def)
  have 1: "kmalloc n s = (0, s)"
    if "n = 0 \<or> 0xFFFF800001000000 \<le> unat (heap_current_ptr s) + unat (round16 n)"
    using that kmalloc_limit[OF ih assms(3)] by (auto simp: kmalloc_def Let_def)
  obtain p t where k: "kmalloc n s = (p, t)" by force
  note any = kmalloc_any[OF assms k]
  have "heap_current_ptr s \<noteq> 0" using ih by (auto simp: in_heap_def)
  then have "p = 0 \<Longrightarrow> heap_current_ptr t = heap_current_ptr s \<and> heap_total_alloc t = heap_total_alloc s"
    using kmalloc_ptr[OF assms(2,3)] k by auto
  then show ?thesis
    using 1 any unfolding k heap_keeps_def heap_total_allocated_def by auto
qed

lemma kmalloc_failure_witness:
  "kmalloc 0x1000000 example_heap = (0, example_heap) \<and>
   fst (kmalloc 8192 example_last) = 0 \<and> heap_current_ptr (snd (kmalloc 8192 example_last)) = HEAP_START"
proof
  have "round16 0x1000000 = 0x1000000" by code_simp
  then show "kmalloc 0x1000000 example_heap = (0, example_heap)"
    using kmalloc_failure[of example_heap "0x1000000"] example_heap_ok by simp
  have p: "heap_current_ptr example_last = HEAP_START" by (simp add: example_last_def example_heap_ok)
  have n: "\<And>k. translation example_last (HEAP_START + of_nat k) = None" by (rule example_last_ok(5))
  have "unat (HEAP_START + of_nat k) div 4096 \<in> unmapped_pages example_last HEAP_START 8192" if "k < 8192" for k
    using that n unfolding unmapped_pages_def by blast
  from this[of 0] this[of 4096]
  have "{0xFFFF800000000, 0xFFFF800000001} \<subseteq> unmapped_pages example_last HEAP_START 8192" by simp
  moreover have "finite (unmapped_pages example_last HEAP_START 8192)" by (simp add: unmapped_pages_def)
  ultimately have "card {0xFFFF800000000, 0xFFFF800000001 :: nat} \<le> card (unmapped_pages example_last HEAP_START 8192)"
    by (intro card_mono)
  then have "card (free_pages example_last) < card (unmapped_pages example_last (heap_current_ptr example_last) (unat (8192 :: u64)))"
    by (simp add: p example_last_ok(3))
  then show "fst (kmalloc 8192 example_last) = 0 \<and> heap_current_ptr (snd (kmalloc 8192 example_last)) = HEAP_START"
    using kmalloc_failure[OF example_last_ok(1,2), of 8192] p by (simp add: split_beta Let_def)
qed

text \<open>A sequence of requests, with the blocks returned.\<close>

primrec kmalloc_all :: "u64 list \<Rightarrow> 'a heap_state_scheme \<Rightarrow> u64 list \<times> 'a heap_state_scheme" where
  "kmalloc_all [] s = ([], s)"
| "kmalloc_all (n # ns) s =
     (let (p, s) = kmalloc n s; (ps, s) = kmalloc_all ns s in (p # ps, s))"

lemma kmalloc_all_blocks:
  assumes "ptr_ok s" and "\<forall>n \<in> set ns. unat n \<le> MAX_REQUEST"
  shows "(let ps = fst (kmalloc_all ns s) in length ps = length ns \<and>
    (\<forall>i < length ns. ps ! i \<noteq> 0 \<longrightarrow> unat (heap_current_ptr s) \<le> unat (ps ! i) \<and> in_heap (ps ! i) \<and>
        unat (ps ! i) mod 16 = 0 \<and> unat (ps ! i) + unat (ns ! i) < 0xFFFF800001000000) \<and>
    (\<forall>j < length ns. \<forall>i < j. ps ! i \<noteq> 0 \<longrightarrow> ps ! j \<noteq> 0 \<longrightarrow> unat (ps ! i) + unat (ns ! i) \<le> unat (ps ! j)))"
  using assms
proof (induction ns arbitrary: s)
  case Nil
  then show ?case by simp
next
  case (Cons n ns)
  obtain p t where k: "kmalloc n s = (p, t)" by force
  have n: "unat n \<le> MAX_REQUEST" using Cons.prems by simp
  have r: "unat n \<le> unat (round16 n)" using n by (intro round16_bounds(1)) simp
  have cs: "(p = 0 \<and> heap_current_ptr t = heap_current_ptr s \<and> heap_total_alloc t = heap_total_alloc s) \<or>
     (p = heap_current_ptr s \<and> unat (heap_current_ptr t) = unat p + unat (round16 n) \<and> ptr_ok t)"
    using kmalloc_ptr[OF Cons.prems(1) n] k by auto
  have ih: "in_heap (heap_current_ptr s)" "unat (heap_current_ptr s) mod 16 = 0"
    using Cons.prems(1) by (auto simp: ptr_ok_def)
  have t: "ptr_ok t" using cs Cons.prems(1) by (auto simp: ptr_ok_def)
  have le: "unat (heap_current_ptr s) \<le> unat (heap_current_ptr t)" using cs by auto
  obtain ps u where ps: "kmalloc_all ns t = (ps, u)" by force
  have IH: "length ps = length ns" "\<And>i. i < length ns \<Longrightarrow> ps ! i \<noteq> 0 \<Longrightarrow> unat (heap_current_ptr t) \<le> unat (ps ! i) \<and>
      in_heap (ps ! i) \<and> unat (ps ! i) mod 16 = 0 \<and> unat (ps ! i) + unat (ns ! i) < 0xFFFF800001000000"
    "\<And>i j. j < length ns \<Longrightarrow> i < j \<Longrightarrow> ps ! i \<noteq> 0 \<Longrightarrow> ps ! j \<noteq> 0 \<Longrightarrow> unat (ps ! i) + unat (ns ! i) \<le> unat (ps ! j)"
    using Cons.IH[OF t] Cons.prems(2) ps by (auto simp: Let_def)
  have first: "unat p + unat n \<le> unat (heap_current_ptr t)" if "p \<noteq> 0" using cs r that by auto
  have end1: "unat p + unat n < 0xFFFF800001000000" if "p \<noteq> 0"
    using first[OF that] t by (auto simp: ptr_ok_def in_heap_def)
  have f: "fst (kmalloc_all (n # ns) s) = p # ps" by (simp add: k ps)
  show ?case
    unfolding f Let_def
  proof (intro conjI allI impI)
    show "length (p # ps) = length (n # ns)" using IH(1) by simp
    fix i assume i: "i < length (n # ns)" "(p # ps) ! i \<noteq> 0"
    show "unat (heap_current_ptr s) \<le> unat ((p # ps) ! i)" "in_heap ((p # ps) ! i)"
      "unat ((p # ps) ! i) mod 16 = 0" "unat ((p # ps) ! i) + unat ((n # ns) ! i) < 0xFFFF800001000000"
      using i cs ih end1 IH(2)[of "i - 1"] le by (cases i; auto)+
  next
    fix j i assume "j < length (n # ns)" "i < j" "(p # ps) ! i \<noteq> 0" "(p # ps) ! j \<noteq> 0"
    then show "unat ((p # ps) ! i) + unat ((n # ns) ! i) \<le> unat ((p # ps) ! j)"
      using first IH(2)[of "j - 1"] IH(3)[of "j - 1" "i - 1"] by (cases j; cases i) auto
  qed
qed

text \<open>A small request close behind the start of a heap whose first page is mapped.\<close>

lemma kmalloc_one_mapped:
  assumes "heap_ok s" and "heap_current_ptr s = HEAP_START + d" and "translation s HEAP_START \<noteq> None"
    and "n \<noteq> 0" and "unat n \<le> 1024" and "unat d \<le> 1024"
  shows "fst (kmalloc n s) = HEAP_START + d"
proof -
  let ?p = "HEAP_START + d" and ?h = "18446603336221196288 :: nat"
  have r: "unat (round16 n) \<le> 1039" "1 \<le> unat (round16 n)"
    using round16_bounds(1,2)[of n] assms(5) unat_gt_0[of n] assms(4) by linarith+
  have u: "unat ?p = ?h + unat d" using assms(6) by (subst unat_add_less) simp_all
  have s1: "unat (?p + round16 n) = ?h + unat d + unat (round16 n)"
    using r u assms(6) by (subst unat_add_less) simp_all
  have lim: "\<not> heap_current_ptr s + round16 n \<ge> HEAP_START + HEAP_SIZE"
    using s1 r assms(6) unfolding assms(2) word_le_nat_alt by simp
  have "unat (?p + round16 n + 0xFFF) = unat (?p + round16 n) + unat (0xFFF :: u64)"
    using s1 r assms(6) by (intro unat_add_less) simp
  then have "unat ((?p + round16 n + 0xFFF) AND NOT 0xFFF) = (?h + unat d + unat (round16 n) + 4095) div 4096 * 4096"
    by (simp only: unat_page_down s1) simp
  moreover have "(?h + unat d + unat (round16 n) + 4095) div 4096 = 4503565267632129"
    using r assms(6) by (intro div_nat_eqI) simp_all
  moreover have pg: "?p AND NOT 0xFFF = HEAP_START"
  proof -
    have "(?h + unat d) div 4096 = 4503565267632128" using assms(6) by (intro div_nat_eqI) simp_all
    then have "unat (?p AND NOT 0xFFF) = unat HEAP_START" by (simp only: unat_page_down u) simp
    then show ?thesis by (simp only: word_u64_eq_iff)
  qed
  ultimately have one: "kmalloc_pages ?p (round16 n) = 1" by (simp add: kmalloc_pages_def)
  have ih: "in_heap HEAP_START" by (simp add: in_heap_def)
  have "heap_map_pages 1 HEAP_START s = (True, s)"
  proof -
    have v: "fst (vmm_virt_to_phys HEAP_START s) \<noteq> 0" using heap_lookup(2)[OF assms(1) ih] assms(3) by blast
    then show ?thesis using mm_only_virt_to_phys[of HEAP_START s]
      by (cases "vmm_virt_to_phys HEAP_START s") simp
  qed
  then show ?thesis unfolding kmalloc_cases[OF assms(4) lim] assms(2) one pg by (simp add: Let_def)
qed

text \<open>Three requests on the example heap: one too large between two that are served.\<close>

lemma example_allocations:
  "fst (kmalloc_all [24, 0x1000000, 100] example_heap) = [HEAP_START, 0, HEAP_START + 32]"
proof -
  have r: "round16 24 = 32" "round16 0x1000000 = 0x1000000" "round16 100 = 112" by code_simp+
  note h = example_heap_ok
  obtain t u where t: "kmalloc 24 example_heap = (heap_current_ptr example_heap, t)"
    "t = u\<lparr>heap_current_ptr := heap_current_ptr example_heap + round16 24,
       heap_total_alloc := heap_total_alloc example_heap + round16 24\<rparr>" "heap_ok t" "ptr_ok t"
    "\<forall>k < unat (24 :: u64). translation t (heap_current_ptr example_heap + of_nat k) \<noteq> None"
  proof -
    have p: "unat (heap_current_ptr example_heap) + unat (round16 24) < 0xFFFF800001000000"
      "4 * (unat (24 :: u64) div 4096 + 3) \<le> card (free_pages example_heap)" "(24 :: u64) \<noteq> 0"
      "unat (24 :: u64) \<le> MAX_REQUEST" by (simp_all add: r h(3,4))
    show thesis by (rule kmalloc_success[OF h(1,2) p(3,4,1,2)]) (rule that)
  qed
  have tp: "heap_current_ptr t = HEAP_START + 32" by (simp add: t(2) h(4) r)
  have 2: "kmalloc 0x1000000 t = (0, t)" by (simp add: kmalloc_def Let_def r tp)
  have "translation t (heap_current_ptr example_heap + of_nat 0) \<noteq> None" using t(5) by fastforce
  then have "translation t HEAP_START \<noteq> None" by (simp add: h(4))
  then have "fst (kmalloc 100 t) = HEAP_START + 32" using kmalloc_one_mapped[OF t(3) tp] by simp
  then show ?thesis by (simp add: t(1) 2 h(4) split_beta Let_def)
qed

text \<open>
  C12: a sequence of requests, each of at most \<open>MAX_REQUEST\<close> bytes (for larger sizes the limit
  check wraps, see below), may succeed or fail in any pattern: the blocks of those that succeed
  lie in the heap, aligned to 16 bytes, and no two of them overlap.
\<close>

theorem kmalloc_blocks_disjoint:
  assumes "ptr_ok s" and "\<forall>n \<in> set ns. unat n \<le> MAX_REQUEST"
  shows "let ps = fst (kmalloc_all ns s) in
    (\<forall>i < length ns. ps ! i \<noteq> 0 \<longrightarrow> in_heap (ps ! i) \<and> unat (ps ! i) mod 16 = 0 \<and>
        unat (ps ! i) + unat (ns ! i) < unat (HEAP_START + HEAP_SIZE)) \<and>
    (\<forall>j < length ns. \<forall>i < j. ps ! i \<noteq> 0 \<longrightarrow> ps ! j \<noteq> 0 \<longrightarrow> unat (ps ! i) + unat (ns ! i) \<le> unat (ps ! j))"
  using kmalloc_all_blocks[OF assms] by (simp add: Let_def)

lemma kmalloc_blocks_disjoint_witness:
  "let ps = fst (kmalloc_all [24, 0x1000000, 100] example_heap) in
     ps ! 0 \<noteq> 0 \<and> ps ! 1 = 0 \<and> ps ! 2 \<noteq> 0 \<and> unat (ps ! 0) + 24 \<le> unat (ps ! 2) \<and>
     unat (ps ! 2) + 100 < unat (HEAP_START + HEAP_SIZE)"
proof -
  let ?ns = "[24, 0x1000000, 100] :: u64 list"
  have "\<forall>n \<in> set ?ns. unat n \<le> MAX_REQUEST" by simp
  note d = kmalloc_blocks_disjoint[OF example_heap_ok(2) this]
  have "(2 :: nat) < length ?ns" "(0 :: nat) < 2" by simp_all
  then show ?thesis using d unfolding Let_def example_allocations by fastforce
qed

text \<open>
  The limit check of \<^verbatim>\<open>kmalloc\<close> is made on a sum that can wrap: a request of \<open>2 ^ 47\<close>
  bytes on a fresh heap passes it, maps nothing, returns the start of the heap and leaves the
  heap pointer at 0.
\<close>

theorem kmalloc_wraps:
  assumes "heap_current_ptr s = HEAP_START"
  shows "kmalloc 0x800000000000 s = (HEAP_START,
    s\<lparr>heap_current_ptr := 0, heap_total_alloc := heap_total_alloc s + 0x800000000000\<rparr>)"
proof -
  have "round16 0x800000000000 = 0x800000000000" by code_simp
  then show ?thesis using assms by (simp add: kmalloc_def Let_def)
qed

lemma kmalloc_wraps_witness: "heap_current_ptr (snd (kmalloc 0x800000000000 example_heap)) = 0"
  using kmalloc_wraps[OF example_heap_ok(4)] by simp

text \<open>
  \<^verbatim>\<open>kmalloc\<close> does not notice that \<^verbatim>\<open>vmm_map_page\<close> failed. If the block's page takes the
  last free frame and a page table is missing, a non-null pointer to an unmapped page is
  returned.
\<close>

theorem kmalloc_ignores_map_failure:
  fixes s :: "'a heap_state_scheme"
  assumes "heap_ok s" and "ptr_ok s" and "unat (heap_current_ptr s) mod 4096 = 0"
    and "0 < unat n" and "unat n \<le> 4080" and "unat (heap_current_ptr s) + 4096 < unat (HEAP_START + HEAP_SIZE)"
    and "translation s (heap_current_ptr s) = None" and "card (free_pages s) = 1"
    and "0 < missing_tables s (heap_current_ptr s)"
  shows "fst (kmalloc n s) = heap_current_ptr s \<and> fst (kmalloc n s) \<noteq> 0 \<and>
    translation (snd (kmalloc n s)) (fst (kmalloc n s)) = None"
proof -
  let ?p = "heap_current_ptr s"
  have ih: "in_heap ?p" and inv: "vmm_inv s"
    using assms(1,2) by (auto simp: ptr_ok_def heap_ok_def)
  have n: "n \<noteq> 0" using assms(4) by auto
  have nmax: "unat n \<le> MAX_REQUEST" using assms(5) by simp
  have r: "unat (round16 n) \<le> 4096" "0 < unat (round16 n)" using round16_bounds[of n] assms(4,5) by auto
  have pgs: "?p AND NOT 0xFFF = ?p"
    using assms(3) page_aligned_iff[of ?p] by (simp add: page_aligned_def)
  have fits: "unat ?p + unat (round16 n) < 0xFFFF800001000000" using assms(6) r by simp
  have one: "kmalloc_pages ?p (round16 n) = 1"
  proof -
    have pr: "unat (?p + round16 n) = unat ?p + unat (round16 n)" using fits by (intro unat_add_less) simp
    have "unat (?p + round16 n + 0xFFF) = unat (?p + round16 n) + unat (0xFFF :: u64)"
      using fits pr by (intro unat_add_less) simp
    then have "unat ((?p + round16 n + 0xFFF) AND NOT 0xFFF) = (unat ?p + unat (round16 n) + 4095) div 4096 * 4096"
      by (simp only: unat_page_down pr) simp
    moreover have "(unat ?p + unat (round16 n) + 4095) div 4096 = unat ?p div 4096 + 1"
      using r assms(3) by (auto intro!: div_nat_eqI)
    moreover have "unat ?p div 4096 * 4096 = unat ?p" using assms(3) by (auto simp: mod_eq_0_iff_dvd)
    ultimately show ?thesis unfolding kmalloc_pages_def pgs by simp
  qed
  have lim: "\<not> ?p + round16 n \<ge> HEAP_START + HEAP_SIZE" using kmalloc_limit[OF ih nmax] fits by simp
  have ne: "free_pages s \<noteq> {}" using assms(8) by auto
  define t where "t = vmm_map_page ?p (fst (pmm_alloc_page s)) KERNEL_FLAGS (snd (pmm_alloc_page s))"
  have "card (free_pages s) \<le> missing_tables s ?p" using assms(8,9) by simp
  note f = heap_map_fails[OF assms(1) ih ne this, folded t_def]
  have "fst (pmm_alloc_page s) \<noteq> 0"
    using vmm_alloc_frame(1)[OF inv ne] free_frame_bounds(4)[OF inv, of "Min (free_pages s)"] ne by simp
  then have "heap_map_pages 1 ?p s = (True, t)"
    using heap_lookup[OF assms(1) ih] assms(7) by (simp add: t_def split_beta Let_def)
  then have k: "kmalloc n s = (?p, t\<lparr>heap_current_ptr := ?p + round16 n, heap_total_alloc := heap_total_alloc s + round16 n\<rparr>)"
    by (simp only: kmalloc_cases[OF n lim] one pgs Let_def prod.case if_True)
  have "translation t = translation s" by (rule f(2))
  moreover have "?p \<noteq> 0" using ih by (auto simp: in_heap_def)
  ultimately show ?thesis using assms(7) by (simp add: k)
qed

lemma kmalloc_ignores_map_failure_witness:
  "fst (kmalloc 64 example_last) = HEAP_START \<and>
   translation (snd (kmalloc 64 example_last)) HEAP_START = None"
proof -
  have "heap_current_ptr example_last = HEAP_START" by (simp add: example_last_def example_heap_ok)
  then show ?thesis
    using kmalloc_ignores_map_failure[OF example_last_ok(1,2), of 64] by (auto simp: example_last_ok)
qed

end
