(* ===== verification/Strings.thy ===== *)
theory Strings
  imports Machine "HOL-Library.List_Lexorder" "HOL-Library.Monad_Syntax"
begin

text \<open>
  The string and memory functions of \<^verbatim>\<open>src/kernel/string.h\<close>, on byte-addressed memory.
  Loops that run until they meet a NUL byte may not end: they are partial functions,
  \<open>None\<close> meaning that the loop does not return. Results of comparisons are C \<^verbatim>\<open>int\<close>s.

  The second half relates them to lists of bytes: \<open>cstring_at m a xs\<close> says that memory
  holds the NUL-terminated string \<open>xs\<close> at \<open>a\<close>. The components above strings (shell,
  commands) use the functions on lists.
\<close>

type_synonym memory = "u64 \<Rightarrow> u8"

section \<open>string.h\<close>

partial_function (option) strlen_loop :: "memory \<Rightarrow> u64 \<Rightarrow> u64 \<Rightarrow> u64 option" where
  "strlen_loop m str len = (if m (str + len) \<noteq> 0 then strlen_loop m str (len + 1) else Some len)"

definition strlen :: "memory \<Rightarrow> u64 \<Rightarrow> u64 option" where
  "strlen m str = strlen_loop m str 0"

partial_function (option) strcmp :: "memory \<Rightarrow> u64 \<Rightarrow> u64 \<Rightarrow> int option" where
  "strcmp m s1 s2 =
     (if m s1 \<noteq> 0 \<and> m s1 = m s2 then strcmp m (s1 + 1) (s2 + 1)
      else Some (int (unat (m s1)) - int (unat (m s2))))"

primrec strncmp_loop :: "nat \<Rightarrow> memory \<Rightarrow> u64 \<Rightarrow> u64 \<Rightarrow> int" where
  "strncmp_loop 0 m s1 s2 = 0"
| "strncmp_loop (Suc n) m s1 s2 =
     (if m s1 \<noteq> 0 \<and> m s1 = m s2 then strncmp_loop n m (s1 + 1) (s2 + 1)
      else int (unat (m s1)) - int (unat (m s2)))"

definition strncmp :: "memory \<Rightarrow> u64 \<Rightarrow> u64 \<Rightarrow> u64 \<Rightarrow> int" where
  "strncmp m s1 s2 n = strncmp_loop (unat n) m s1 s2"

partial_function (option) strcpy_loop :: "u64 \<Rightarrow> u64 \<Rightarrow> memory \<Rightarrow> memory option" where
  "strcpy_loop dest src m =
     (let c = m src; m = m(dest := c)
      in if c \<noteq> 0 then strcpy_loop (dest + 1) (src + 1) m else Some m)"

definition strcpy :: "u64 \<Rightarrow> u64 \<Rightarrow> memory \<Rightarrow> (u64 \<times> memory) option" where
  "strcpy dest src m = map_option (\<lambda>m. (dest, m)) (strcpy_loop dest src m)"

text \<open>
  The first loop of \<^verbatim>\<open>strncpy\<close> tests \<open>n\<close>, then copies and tests the copied byte, then
  decrements; it leaves the destination pointer and the remaining count.
\<close>

primrec strncpy_copy :: "nat \<Rightarrow> u64 \<Rightarrow> u64 \<Rightarrow> memory \<Rightarrow> nat \<times> u64 \<times> memory" where
  "strncpy_copy 0 dest src m = (0, dest, m)"
| "strncpy_copy (Suc n) dest src m =
     (let c = m src; m = m(dest := c)
      in if c \<noteq> 0 then strncpy_copy n (dest + 1) (src + 1) m else (Suc n, dest + 1, m))"

primrec memset_loop :: "nat \<Rightarrow> u64 \<Rightarrow> u8 \<Rightarrow> memory \<Rightarrow> memory" where
  "memset_loop 0 ptr val m = m"
| "memset_loop (Suc n) ptr val m = memset_loop n (ptr + 1) val (m(ptr := val))"

definition strncpy :: "u64 \<Rightarrow> u64 \<Rightarrow> u64 \<Rightarrow> memory \<Rightarrow> u64 \<times> memory" where
  "strncpy dest src n m =
     (let (rest, d, m) = strncpy_copy (unat n) dest src m
      in (dest, memset_loop rest d 0 m))"

definition memset :: "u64 \<Rightarrow> u32 \<Rightarrow> u64 \<Rightarrow> memory \<Rightarrow> u64 \<times> memory" where
  "memset dest val count m = (dest, memset_loop (unat count) dest (ucast val) m)"

primrec copy_up :: "nat \<Rightarrow> u64 \<Rightarrow> u64 \<Rightarrow> memory \<Rightarrow> memory" where
  "copy_up 0 d s m = m"
| "copy_up (Suc n) d s m = copy_up n (d + 1) (s + 1) (m(d := m s))"

primrec copy_down :: "nat \<Rightarrow> u64 \<Rightarrow> u64 \<Rightarrow> memory \<Rightarrow> memory" where
  "copy_down 0 d s m = m"
| "copy_down (Suc n) d s m = copy_down n (d - 1) (s - 1) (m(d - 1 := m (s - 1)))"

definition memcpy :: "u64 \<Rightarrow> u64 \<Rightarrow> u64 \<Rightarrow> memory \<Rightarrow> u64 \<times> memory" where
  "memcpy dest src count m = (dest, copy_up (unat count) dest src m)"

primrec memcmp_loop :: "nat \<Rightarrow> memory \<Rightarrow> u64 \<Rightarrow> u64 \<Rightarrow> int" where
  "memcmp_loop 0 m p1 p2 = 0"
| "memcmp_loop (Suc n) m p1 p2 =
     (if m p1 \<noteq> m p2 then int (unat (m p1)) - int (unat (m p2))
      else memcmp_loop n m (p1 + 1) (p2 + 1))"

definition memcmp :: "memory \<Rightarrow> u64 \<Rightarrow> u64 \<Rightarrow> u64 \<Rightarrow> int" where
  "memcmp m s1 s2 n = memcmp_loop (unat n) m s1 s2"

definition memmove :: "u64 \<Rightarrow> u64 \<Rightarrow> u64 \<Rightarrow> memory \<Rightarrow> u64 \<times> memory" where
  "memmove dest src n m =
     (dest, if dest < src then copy_up (unat n) dest src m
            else copy_down (unat n) (dest + n) (src + n) m)"

section \<open>Strings as lists\<close>

fun cstring_at :: "memory \<Rightarrow> u64 \<Rightarrow> u8 list \<Rightarrow> bool" where
  "cstring_at m a [] \<longleftrightarrow> m a = 0"
| "cstring_at m a (x # xs) \<longleftrightarrow> m a = x \<and> x \<noteq> 0 \<and> cstring_at m (a + 1) xs"

fun strcmp_list :: "u8 list \<Rightarrow> u8 list \<Rightarrow> int" where
  "strcmp_list (x # xs) (y # ys) = (if x = y then strcmp_list xs ys else int (unat x) - int (unat y))"
| "strcmp_list (x # xs) [] = int (unat x)"
| "strcmp_list [] (y # ys) = - int (unat y)"
| "strcmp_list [] [] = 0"

definition strncmp_list :: "u8 list \<Rightarrow> u8 list \<Rightarrow> nat \<Rightarrow> int" where
  "strncmp_list xs ys n = strcmp_list (take n xs) (take n ys)"

lemma cstring_at_nonzero: "cstring_at m a xs \<Longrightarrow> 0 \<notin> set xs"
  by (induction xs arbitrary: a) auto

lemma strlen_loop_list:
  "cstring_at m (str + len) xs \<Longrightarrow> strlen_loop m str len = Some (len + of_nat (length xs))"
proof (induction xs arbitrary: len)
  case Nil
  then show ?case by (subst strlen_loop.simps) simp
next
  case (Cons x xs)
  then have "strlen_loop m str (len + 1) = Some (len + 1 + of_nat (length xs))"
    by (simp add: add.assoc)
  then show ?case using Cons.prems by (subst strlen_loop.simps) (simp add: add.assoc)
qed

lemma strcmp_mem_list:
  "cstring_at m a xs \<Longrightarrow> cstring_at m b ys \<Longrightarrow> strcmp m a b = Some (strcmp_list xs ys)"
proof (induction xs ys arbitrary: a b rule: strcmp_list.induct)
  case (1 x xs y ys)
  then show ?case by (subst strcmp.simps) auto
qed (subst strcmp.simps, auto)+

lemma strcmp_list_order:
  assumes "0 \<notin> set xs" and "0 \<notin> set ys"
  shows "(strcmp_list xs ys = 0 \<longleftrightarrow> xs = ys) \<and> (strcmp_list xs ys < 0 \<longleftrightarrow> xs < ys)"
  using assms
proof (induction xs ys rule: strcmp_list.induct)
  case (1 x xs y ys)
  then show ?case by (auto simp: word_less_def unsigned_word_eqI)
next
  case (2 x xs)
  then have "uint x \<noteq> 0" by (auto simp: unsigned_eq_0_iff)
  then show ?case by (simp add: order.strict_iff_order)
next
  case (3 y ys)
  then have "uint y \<noteq> 0" by (auto simp: unsigned_eq_0_iff)
  then show ?case by (simp add: order.strict_iff_order)
qed simp

lemma strncmp_mem_list:
  "cstring_at m a xs \<Longrightarrow> cstring_at m b ys \<Longrightarrow> strncmp_loop n m a b = strncmp_list xs ys n"
proof (induction n arbitrary: a b xs ys)
  case 0
  then show ?case by (simp add: strncmp_list_def)
next
  case (Suc n)
  then show ?case
    by (cases xs; cases ys) (auto simp: strncmp_list_def)
qed

section \<open>Effects on memory\<close>

text \<open>The \<open>n\<close> addresses from \<open>a\<close> on.\<close>

definition span :: "u64 \<Rightarrow> nat \<Rightarrow> u64 set" where
  "span a n = {a + of_nat k | k. k < n}"

lemma span_0 [simp]: "span a 0 = {}"
  by (simp add: span_def)

lemma span_Suc: "span a (Suc n) = insert a (span (a + 1) n)"
proof -
  have "(\<exists>k < Suc n. x = a + of_nat k) \<longleftrightarrow> x = a \<or> (\<exists>k < n. x = a + 1 + of_nat k)" for x
    by (auto simp: less_Suc_eq_0_disj add.assoc)
  then show ?thesis by (auto simp: span_def)
qed

lemma span_first: "n < 2 ^ 64 \<Longrightarrow> a \<notin> span (a + 1) n"
proof
  assume n: "n < 2 ^ 64" and "a \<in> span (a + 1) n"
  then obtain k where k: "k < n" "a = a + 1 + of_nat k" by (auto simp: span_def)
  then have "of_nat (Suc k) = (0 :: u64)" by (simp add: add.assoc)
  then have "unat (of_nat (Suc k) :: u64) = 0" by simp
  moreover have "unat (of_nat (Suc k) :: u64) = Suc k" using k n by (intro u64_of_nat_less) simp
  ultimately show False by simp
qed

lemma memset_loop_eq: "memset_loop n p v m a = (if a \<in> span p n then v else m a)"
  by (induction n arbitrary: p m) (auto simp: span_Suc)

lemma copy_up_eq:
  assumes "n \<le> 2 ^ 64" and "\<And>j k. j < n \<Longrightarrow> k < j \<Longrightarrow> d + of_nat k \<noteq> s + of_nat j"
  shows "(\<forall>k < n. copy_up n d s m (d + of_nat k) = m (s + of_nat k)) \<and>
         (\<forall>a. a \<notin> span d n \<longrightarrow> copy_up n d s m a = m a)"
  using assms
proof (induction n arbitrary: d s m)
  case 0
  then show ?case by simp
next
  case (Suc n)
  have sep: "(d + 1) + of_nat k \<noteq> (s + 1) + of_nat j" if "j < n" "k < j" for j k
    using Suc.prems(2)[of "Suc j" "Suc k"] that by (simp add: add.assoc)
  have IH: "\<forall>k < n. copy_up n (d + 1) (s + 1) (m(d := m s)) (d + 1 + of_nat k) = (m(d := m s)) (s + 1 + of_nat k)"
    "\<forall>a. a \<notin> span (d + 1) n \<longrightarrow> copy_up n (d + 1) (s + 1) (m(d := m s)) a = (m(d := m s)) a"
    using Suc.IH[of "d + 1" "s + 1" "m(d := m s)"] Suc.prems(1) sep by (auto simp del: fun_upd_apply)
  have ne: "s + 1 + of_nat k \<noteq> d" if "k < n" for k
    using Suc.prems(2)[of "Suc k" 0] that by (auto simp: add.assoc)
  have fst: "d \<notin> span (d + 1) n" using Suc.prems(1) by (intro span_first) simp
  show ?case
  proof (intro conjI allI impI)
    fix k assume "k < Suc n"
    then show "copy_up (Suc n) d s m (d + of_nat k) = m (s + of_nat k)"
      using IH(1) IH(2) fst ne by (cases k) (auto simp: add.assoc)
  next
    fix a assume "a \<notin> span d (Suc n)"
    then show "copy_up (Suc n) d s m a = m a" using IH(2) by (auto simp: span_Suc)
  qed
qed

lemma copy_down_eq:
  assumes "n \<le> 2 ^ 64" and "\<And>j k. j < k \<Longrightarrow> k < n \<Longrightarrow> d + of_nat k \<noteq> s + of_nat j"
  shows "(\<forall>k < n. copy_down n (d + of_nat n) (s + of_nat n) m (d + of_nat k) = m (s + of_nat k)) \<and>
         (\<forall>a. a \<notin> span d n \<longrightarrow> copy_down n (d + of_nat n) (s + of_nat n) m a = m a)"
  using assms
proof (induction n arbitrary: m)
  case 0
  then show ?case by simp
next
  case (Suc n)
  let ?m = "m(d + of_nat n := m (s + of_nat n))"
  have step: "copy_down (Suc n) (d + of_nat (Suc n)) (s + of_nat (Suc n)) m
      = copy_down n (d + of_nat n) (s + of_nat n) ?m" by simp
  have IH: "\<forall>k < n. copy_down n (d + of_nat n) (s + of_nat n) ?m (d + of_nat k) = ?m (s + of_nat k)"
    "\<forall>a. a \<notin> span d n \<longrightarrow> copy_down n (d + of_nat n) (s + of_nat n) ?m a = ?m a"
    using Suc.IH[of ?m] Suc.prems by (auto simp del: fun_upd_apply)
  have ne: "s + of_nat k \<noteq> d + of_nat n" if "k < n" for k
    using Suc.prems(2)[of k n] that by auto
  have last: "d + of_nat n \<notin> span d n"
  proof
    assume "d + of_nat n \<in> span d n"
    then obtain k where k: "k < n" "(of_nat n :: u64) = of_nat k" by (auto simp: span_def)
    moreover have "unat (of_nat n :: u64) = n" "unat (of_nat k :: u64) = k"
      using k(1) Suc.prems(1) by (auto intro!: u64_of_nat_less)
    ultimately show False by simp
  qed
  have sub: "span d (Suc n) = insert (d + of_nat n) (span d n)" by (auto simp: span_def less_Suc_eq)
  show ?case
    unfolding step
  proof (intro conjI allI impI)
    fix k assume "k < Suc n"
    then consider "k = n" | "k < n" by linarith
    then show "copy_down n (d + of_nat n) (s + of_nat n) ?m (d + of_nat k) = m (s + of_nat k)"
      using IH last ne by cases auto
  next
    fix a assume "a \<notin> span d (Suc n)"
    then show "copy_down n (d + of_nat n) (s + of_nat n) ?m a = m a" using IH(2) by (auto simp: sub)
  qed
qed

lemma unat_span:
  "unat (a :: u64) + n \<le> 2 ^ 64 \<Longrightarrow> k < n \<Longrightarrow> unat (a + of_nat k) = unat a + k"
  by (simp add: unat_word_ariths u64_of_nat_less)

lemma span_disjoint:
  assumes "unat a + n \<le> unat b" and "unat b + k \<le> 2 ^ 64"
  shows "span a n \<inter> span b k = {}"
proof -
  have "a + of_nat i \<noteq> b + of_nat j" if "i < n" "j < k" for i j
    using that assms unat_span[of a n i] unat_span[of b k j] by auto
  then show ?thesis by (auto simp: span_def)
qed

text \<open>The bytes from \<open>a\<close> on as a list.\<close>

definition bytes_at :: "memory \<Rightarrow> u64 \<Rightarrow> nat \<Rightarrow> u8 list" where
  "bytes_at m a n = map (\<lambda>k. m (a + of_nat k)) [0..<n]"

lemma bytes_at_Suc: "bytes_at m a (Suc n) = m a # bytes_at m (a + 1) n"
  unfolding bytes_at_def upt_conv_Cons[OF zero_less_Suc] map_Suc_upt[symmetric] by (simp add: add.assoc)

lemma memcmp_loop_order:
  "(memcmp_loop n m p q = 0 \<longleftrightarrow> bytes_at m p n = bytes_at m q n) \<and>
   (memcmp_loop n m p q < 0 \<longleftrightarrow> bytes_at m p n < bytes_at m q n)"
proof (induction n arbitrary: p q)
  case 0
  then show ?case by (simp add: bytes_at_def)
next
  case (Suc n)
  have "m p \<noteq> m q \<Longrightarrow> uint (m p) \<noteq> uint (m q)" using unsigned_word_eqI by blast
  then show ?case using Suc.IH[of "p + 1" "q + 1"] by (auto simp: bytes_at_Suc word_less_def)
qed

section \<open>strncpy\<close>

lemma cstring_at_cong:
  "cstring_at m a xs \<Longrightarrow> (\<And>k. k \<le> length xs \<Longrightarrow> m' (a + of_nat k) = m (a + of_nat k)) \<Longrightarrow> cstring_at m' a xs"
proof (induction xs arbitrary: a)
  case Nil
  then show ?case using Nil.prems(2)[of 0] by simp
next
  case (Cons x xs)
  have "m' a = m a" using Cons.prems(2)[of 0] by simp
  moreover have "m' ((a + 1) + of_nat k) = m ((a + 1) + of_nat k)" if "k \<le> length xs" for k
    using Cons.prems(2)[of "Suc k"] that by (simp add: add.assoc)
  ultimately show ?case using Cons.IH[of "a + 1"] Cons.prems(1) by simp
qed

lemma strncpy_copy_eq:
  assumes "cstring_at m s xs" and "n < 2 ^ 64" and "length xs < 2 ^ 64"
    and "span d (Suc n) \<inter> span s (Suc (length xs)) = {}"
  shows "\<exists>m'. strncpy_copy n d s m
      = (n - length xs, d + of_nat (if length xs < n then length xs + 1 else n), m') \<and>
    (\<forall>k < n. k < length xs \<longrightarrow> m' (d + of_nat k) = xs ! k) \<and> (length xs < n \<longrightarrow> m' (d + of_nat (length xs)) = 0) \<and>
    (\<forall>a. a \<notin> span d n \<longrightarrow> m' a = m a)"
  using assms
proof (induction n arbitrary: d s m xs)
  case 0
  then show ?case by simp
next
  case (Suc n)
  have fst: "d \<notin> span (d + 1) n" using Suc.prems(2) by (intro span_first) simp
  show ?case
  proof (cases xs)
    case Nil
    then show ?thesis using Suc.prems(1) by (auto simp: span_Suc)
  next
    case (Cons x ys)
    let ?m = "m(d := x)"
    have x: "m s = x" "x \<noteq> 0" "cstring_at m (s + 1) ys" using Suc.prems(1) Cons by auto
    have "d \<notin> span (s + 1) (Suc (length ys))"
      using Suc.prems(4) Cons by (auto simp: span_Suc)
    then have "cstring_at ?m (s + 1) ys"
      using x(3) by (elim cstring_at_cong) (auto simp: span_def)
    moreover have "span (d + 1) (Suc n) \<inter> span (s + 1) (Suc (length ys)) = {}"
      using Suc.prems(4) Cons by (auto simp: span_Suc[of d "Suc n"] span_Suc[of s "Suc (length ys)"])
    ultimately obtain m' where m': "strncpy_copy n (d + 1) (s + 1) ?m
        = (n - length ys, d + 1 + of_nat (if length ys < n then length ys + 1 else n), m')"
      "\<forall>k < n. k < length ys \<longrightarrow> m' (d + 1 + of_nat k) = ys ! k"
      "length ys < n \<longrightarrow> m' (d + 1 + of_nat (length ys)) = 0" "\<forall>a. a \<notin> span (d + 1) n \<longrightarrow> m' a = ?m a"
      using Suc.IH[of ?m "s + 1" ys "d + 1"] Suc.prems(2,3) Cons by (auto simp del: fun_upd_apply)
    have "m' (d + of_nat k) = xs ! k" if "k < Suc n" "k < length xs" for k
      using that m'(2,4) fst Cons by (cases k) (auto simp: add.assoc)
    moreover have "m' a = m a" if "a \<notin> span d (Suc n)" for a
      using that m'(4) by (auto simp: span_Suc)
    moreover have "strncpy_copy (Suc n) d s m
        = (Suc n - length xs, d + of_nat (if length xs < Suc n then length xs + 1 else Suc n), m')"
      using m'(1) x(1,2) Cons by (auto simp: Let_def add.assoc)
    moreover have "length xs < Suc n \<longrightarrow> m' (d + of_nat (length xs)) = 0"
      using m'(3) Cons by (simp add: add.assoc)
    ultimately show ?thesis by blast
  qed
qed

lemma span_append: "span a (n + k) = span a n \<union> span (a + of_nat n) k"
proof -
  have "(\<exists>i < n + k. x = a + of_nat i) \<longleftrightarrow> (\<exists>i < n. x = a + of_nat i) \<or> (\<exists>i < k. x = a + of_nat n + of_nat i)" for x
  proof
    assume "\<exists>i < n + k. x = a + of_nat i"
    then obtain i where i: "i < n + k" "x = a + of_nat i" by blast
    show "(\<exists>i < n. x = a + of_nat i) \<or> (\<exists>i < k. x = a + of_nat n + of_nat i)"
    proof (cases "i < n")
      case False
      then have "x = a + of_nat n + of_nat (i - n)" using i(2) by (simp add: add.assoc flip: of_nat_add)
      then show ?thesis using False i(1) by (intro disjI2 exI[of _ "i - n"]) simp
    qed (use i in blast)
  next
    assume "(\<exists>i < n. x = a + of_nat i) \<or> (\<exists>i < k. x = a + of_nat n + of_nat i)"
    then show "\<exists>i < n + k. x = a + of_nat i"
    proof (elim disjE exE conjE)
      fix i assume "i < k" "x = a + of_nat n + of_nat i"
      then show ?thesis by (intro exI[of _ "n + i"]) (simp add: add.assoc)
    qed (auto intro: trans_less_add1)
  qed
  then show ?thesis by (intro set_eqI) (simp add: span_def conj_commute)
qed

section \<open>Properties\<close>

text \<open>
  C24: on NUL-terminated strings \<^verbatim>\<open>strlen\<close>, \<^verbatim>\<open>strcmp\<close> and \<^verbatim>\<open>strncmp\<close> return: the length; a
  number that is 0 exactly for equal strings and negative exactly if the first string is
  smaller in the lexicographic order of unsigned bytes; and the same for the strings cut to
  their first \<open>n\<close> bytes.
\<close>

theorem strings_compare:
  assumes "cstring_at m a xs" and "cstring_at m b ys"
  shows "strlen m a = Some (of_nat (length xs)) \<and>
    (\<exists>r. strcmp m a b = Some r \<and> (r = 0 \<longleftrightarrow> xs = ys) \<and> (r < 0 \<longleftrightarrow> xs < ys)) \<and>
    (strncmp m a b n = 0 \<longleftrightarrow> take (unat n) xs = take (unat n) ys) \<and>
    (strncmp m a b n < 0 \<longleftrightarrow> take (unat n) xs < take (unat n) ys)"
proof -
  have nz: "0 \<notin> set xs" "0 \<notin> set ys" using assms cstring_at_nonzero by auto
  then have nt: "0 \<notin> set (take (unat n) xs)" "0 \<notin> set (take (unat n) ys)"
    using set_take_subset by fastforce+
  show ?thesis
    using strlen_loop_list[of m a 0 xs] strcmp_mem_list[OF assms] strncmp_mem_list[OF assms]
      strcmp_list_order[OF nz] strcmp_list_order[OF nt] assms
    by (simp add: strlen_def strncmp_def strncmp_list_def)
qed

definition two_strings :: memory where
  "two_strings = (\<lambda>_. 0)(0x100 := 104, 0x101 := 105, 0x200 := 104, 0x201 := 105, 0x202 := 33)"

lemma strings_compare_witness:
  "strlen two_strings 0x100 = Some 2 \<and> (\<exists>r. strcmp two_strings 0x100 0x200 = Some r \<and> r < 0) \<and>
   strncmp two_strings 0x100 0x200 2 = 0"
proof -
  have "cstring_at two_strings 0x100 [104, 105]" "cstring_at two_strings 0x200 [104, 105, 33]"
    by (simp_all add: two_strings_def)
  from strings_compare[OF this, of 2] show ?thesis by auto
qed

text \<open>
  C25: \<^verbatim>\<open>memset\<close> writes its value, cut to a byte, to exactly the \<open>n\<close> bytes of the region.
  \<^verbatim>\<open>memmove\<close> moves \<open>n\<close> bytes whether or not the regions overlap: afterwards the destination
  holds what the source held, and no other byte has changed; \<^verbatim>\<open>memcpy\<close> does the same for
  regions that do not overlap. All three return the destination. \<^verbatim>\<open>memcmp\<close> returns 0 exactly for
  equal regions and a negative number exactly if the first is smaller in the lexicographic
  order of unsigned bytes.
\<close>

theorem memory_functions:
  assumes "unat dest + unat n \<le> 2 ^ 64" and "unat src + unat n \<le> 2 ^ 64"
  shows "(let (r, m') = memset dest val n m in r = dest \<and>
      (\<forall>k < unat n. m' (dest + of_nat k) = ucast val) \<and> (\<forall>a. a \<notin> span dest (unat n) \<longrightarrow> m' a = m a)) \<and>
    (let (r, m') = memmove dest src n m in r = dest \<and>
      (\<forall>k < unat n. m' (dest + of_nat k) = m (src + of_nat k)) \<and> (\<forall>a. a \<notin> span dest (unat n) \<longrightarrow> m' a = m a)) \<and>
    (span dest (unat n) \<inter> span src (unat n) = {} \<longrightarrow> memcpy dest src n m = memmove dest src n m) \<and>
    (memcmp m dest src n = 0 \<longleftrightarrow> bytes_at m dest (unat n) = bytes_at m src (unat n)) \<and>
    (memcmp m dest src n < 0 \<longleftrightarrow> bytes_at m dest (unat n) < bytes_at m src (unat n))"
proof (intro conjI impI)
  have u: "unat (dest + of_nat k) = unat dest + k" "unat (src + of_nat k) = unat src + k" if "k < unat n" for k
    using that assms by (simp_all add: unat_span)
  have n64: "unat n \<le> 2 ^ 64" using unat_u64_less[of n] by simp
  have up: "(\<forall>k < unat n. copy_up (unat n) dest src m (dest + of_nat k) = m (src + of_nat k)) \<and>
      (\<forall>a. a \<notin> span dest (unat n) \<longrightarrow> copy_up (unat n) dest src m a = m a)"
    if "\<And>j k. j < unat n \<Longrightarrow> k < j \<Longrightarrow> dest + of_nat k \<noteq> src + of_nat j"
    using copy_up_eq[OF n64 that] .
  have mv: "let m' = snd (memmove dest src n m) in
      (\<forall>k < unat n. m' (dest + of_nat k) = m (src + of_nat k)) \<and> (\<forall>a. a \<notin> span dest (unat n) \<longrightarrow> m' a = m a)"
  proof (cases "dest < src")
    case True
    then have "dest + of_nat k \<noteq> src + of_nat j" if "j < unat n" "k < j" for j k
      using that u[of j] u[of k] by (auto simp: word_less_nat_alt)
    then show ?thesis using up True by (simp add: memmove_def)
  next
    case False
    have "dest + of_nat k \<noteq> src + of_nat j" if "j < k" "k < unat n" for j k
      using that False u[of j] u[of k] by (auto simp: word_less_nat_alt)
    then show ?thesis using copy_down_eq[OF n64, of dest src m] False by (simp add: memmove_def)
  qed
  have "fst (memmove dest src n m) = dest" by (simp add: memmove_def)
  then show "let (r, m') = memmove dest src n m in r = dest \<and>
      (\<forall>k < unat n. m' (dest + of_nat k) = m (src + of_nat k)) \<and> (\<forall>a. a \<notin> span dest (unat n) \<longrightarrow> m' a = m a)"
    using mv by (simp add: split_beta Let_def)
  show "let (r, m') = memset dest val n m in r = dest \<and>
      (\<forall>k < unat n. m' (dest + of_nat k) = ucast val) \<and> (\<forall>a. a \<notin> span dest (unat n) \<longrightarrow> m' a = m a)"
    by (auto simp: memset_def memset_loop_eq span_def)
  assume dj: "span dest (unat n) \<inter> span src (unat n) = {}"
  have "dest + of_nat k \<noteq> src + of_nat j" if "j < unat n" "k < j" for j k
  proof -
    have "dest + of_nat k \<in> span dest (unat n)" "src + of_nat j \<in> span src (unat n)"
      unfolding span_def using that less_trans by blast+
    then show ?thesis using dj by auto
  qed
  then have cp: "(\<forall>k < unat n. copy_up (unat n) dest src m (dest + of_nat k) = m (src + of_nat k)) \<and>
      (\<forall>a. a \<notin> span dest (unat n) \<longrightarrow> copy_up (unat n) dest src m a = m a)" by (rule up)
  have "snd (memcpy dest src n m) a = snd (memmove dest src n m) a" for a
    using cp mv by (cases "a \<in> span dest (unat n)") (auto simp: memcpy_def span_def Let_def)
  then show "memcpy dest src n m = memmove dest src n m" by (simp add: memcpy_def memmove_def fun_eq_iff)
next
  show "memcmp m dest src n = 0 \<longleftrightarrow> bytes_at m dest (unat n) = bytes_at m src (unat n)"
    "memcmp m dest src n < 0 \<longleftrightarrow> bytes_at m dest (unat n) < bytes_at m src (unat n)"
    using memcmp_loop_order[of "unat n" m dest src] by (simp_all add: memcmp_def)
qed

lemma memory_functions_witness:
  "snd (memmove 0x102 0x100 4 two_strings) 0x102 = 104 \<and> snd (memmove 0x102 0x100 4 two_strings) 0x103 = 105 \<and>
   snd (memset 0x102 0x141 4 two_strings) 0x105 = 0x41 \<and> snd (memset 0x102 0x141 4 two_strings) 0x106 = 0"
proof -
  have "(0x106 :: u64) \<notin> span 0x102 4"
  proof
    assume "(0x106 :: u64) \<in> span 0x102 4"
    then obtain k where k: "k < 4" "(0x106 :: u64) = 0x102 + of_nat k" by (auto simp: span_def)
    then have "k = 0 \<or> k = 1 \<or> k = 2 \<or> k = 3" by auto
    then show False using k(2) by auto
  qed
  then show ?thesis
    using memory_functions[of "0x102" 4 "0x100" "0x141" two_strings]
    by (auto simp: Let_def two_strings_def split_beta dest: spec[of _ 0] spec[of _ 1] spec[of _ 3])
qed

text \<open>
  \<^verbatim>\<open>strncpy\<close> copies the string and pads with NUL bytes. If the string has at least \<open>n\<close>
  bytes, exactly \<open>n\<close> are written and no NUL; if it is shorter, \<open>n + 1\<close> bytes are written: the
  byte behind the buffer is set to 0, because the terminating NUL is copied without being
  counted.
\<close>

theorem strncpy_effect:
  assumes "cstring_at m src xs" and "length xs < 2 ^ 63" and "unat n < 2 ^ 63"
    and "span dest (Suc (unat n)) \<inter> span src (Suc (length xs)) = {}"
  shows "let m' = snd (strncpy dest src n m); w = (if length xs < unat n then unat n + 1 else unat n) in
    (\<forall>k < w. m' (dest + of_nat k) = (if k < length xs then xs ! k else 0)) \<and>
    (\<forall>a. a \<notin> span dest w \<longrightarrow> m' a = m a)"
proof -
  let ?n = "unat n"
  obtain m1 where m1: "strncpy_copy ?n dest src m
      = (?n - length xs, dest + of_nat (if length xs < ?n then length xs + 1 else ?n), m1)"
    "\<forall>k < ?n. k < length xs \<longrightarrow> m1 (dest + of_nat k) = xs ! k"
    "length xs < ?n \<longrightarrow> m1 (dest + of_nat (length xs)) = 0"
    "\<forall>a. a \<notin> span dest ?n \<longrightarrow> m1 a = m a"
    using strncpy_copy_eq[OF assms(1) _ _ assms(4)] assms(2,3) by auto
  have inj: "dest + of_nat k \<noteq> dest + of_nat j" if "k < j" "j < 2 ^ 64" for j k
  proof -
    have "unat (of_nat k :: u64) = k" "unat (of_nat j :: u64) = j" using that by (auto intro!: u64_of_nat_less)
    then show ?thesis using that(1) by (metis add_left_cancel less_irrefl)
  qed
  show ?thesis
  proof (cases "length xs < ?n")
    case False
    then show ?thesis using m1 by (simp add: strncpy_def Let_def)
  next
    case True
    define l where "l = length xs"
    define m2 where "m2 = memset_loop (?n - l) (dest + of_nat (l + 1)) 0 m1"
    have sp: "span dest (?n + 1) = span dest (l + 1) \<union> span (dest + of_nat (l + 1)) (?n - l)"
      using True span_append[of dest "l + 1" "?n - l"] by (simp add: l_def)
    have m2: "snd (strncpy dest src n m) = m2"
      using m1(1) True by (simp add: strncpy_def m2_def l_def)
    have "m2 (dest + of_nat k) = (if k < l then xs ! k else 0)" if k: "k < ?n + 1" for k
    proof (cases "k < l + 1")
      case True
      have "dest + of_nat k \<notin> span (dest + of_nat (l + 1)) (?n - l)"
      proof
        assume "dest + of_nat k \<in> span (dest + of_nat (l + 1)) (?n - l)"
        then obtain i where i: "i < ?n - l" "dest + of_nat k = dest + of_nat (l + 1 + i)"
          by (auto simp: span_def add.assoc)
        have "k < l + 1 + i" "l + 1 + i < 2 ^ 64" using True i(1) assms(3) by simp_all
        then show False using inj i(2) by blast
      qed
      then have "m2 (dest + of_nat k) = m1 (dest + of_nat k)" by (simp add: m2_def memset_loop_eq)
      then show ?thesis using True m1(2,3) \<open>length xs < ?n\<close> by (cases "k = l") (auto simp: l_def)
    next
      case False
      then have "dest + of_nat k = dest + of_nat (l + 1) + of_nat (k - (l + 1))"
        by (simp add: add.assoc flip: of_nat_add)
      moreover have "k - (l + 1) < ?n - l" using k False by simp
      ultimately have "dest + of_nat k \<in> span (dest + of_nat (l + 1)) (?n - l)"
        unfolding span_def by blast
      then show ?thesis using False by (simp add: m2_def memset_loop_eq)
    qed
    moreover have "m2 a = m a" if "a \<notin> span dest (?n + 1)" for a
    proof -
      have "a \<notin> span dest ?n" using that span_append[of dest ?n 1] by simp
      then show ?thesis using that m1(4) unfolding sp by (simp add: m2_def memset_loop_eq)
    qed
    ultimately show ?thesis using True unfolding m2 Let_def by (simp add: l_def)
  qed
qed

lemma strncpy_effect_witness:
  "snd (strncpy 0x300 0x100 8 (two_strings(0x308 := 77))) 0x308 = 0"
proof -
  have "cstring_at (two_strings(0x308 := 77)) 0x100 [104, 105]" by (simp add: two_strings_def)
  moreover have "span 0x100 (Suc (length [104, 105 :: u8])) \<inter> span 0x300 (Suc (unat (8 :: u64))) = {}"
    by (rule span_disjoint) simp_all
  ultimately show ?thesis
    using strncpy_effect[of "two_strings(0x308 := 77)" "0x100" "[104, 105]" 8 "0x300"]
    by (auto simp: Let_def Int_commute dest: spec[of _ 8])
qed

end
