(* ===== verification/Task.thy ===== *)
theory Task
  imports HeapProps Strings
begin

text \<open>
  Tasks and the round-robin scheduler, \<^verbatim>\<open>src/kernel/task.c\<close>, and the timer state of
  \<^verbatim>\<open>pit.c\<close> that the scheduler reads. Task control blocks and register frames are C
  structures behind pointers: a typed store maps the address of a block to its contents,
  and address 0 is NULL. Blocks come from \<^verbatim>\<open>kmalloc\<close>.
\<close>

section \<open>Data\<close>

text \<open>\<^verbatim>\<open>registers_t\<close> of \<^verbatim>\<open>isr.h\<close>, in the order the interrupt stub pushes it.\<close>

record registers_t =
  r_gs :: u64
  r_fs :: u64
  r_es :: u64
  r_ds :: u64
  r_r15 :: u64
  r_r14 :: u64
  r_r13 :: u64
  r_r12 :: u64
  r_r11 :: u64
  r_r10 :: u64
  r_r9 :: u64
  r_r8 :: u64
  r_rbp :: u64
  r_rdi :: u64
  r_rsi :: u64
  r_rdx :: u64
  r_rcx :: u64
  r_rbx :: u64
  r_rax :: u64
  r_int_no :: u64
  r_err_code :: u64
  r_rip :: u64
  r_cs :: u64
  r_rflags :: u64
  r_rsp :: u64
  r_ss :: u64

abbreviation SIZEOF_REGISTERS :: u64 where "SIZEOF_REGISTERS \<equiv> 208"

datatype task_state_t =
    TASK_STATE_READY | TASK_STATE_RUNNING | TASK_STATE_BLOCKED | TASK_STATE_SLEEPING | TASK_STATE_ZOMBIE

abbreviation TASK_NAME_MAX :: nat where "TASK_NAME_MAX \<equiv> 32"
abbreviation MAX_TASKS :: nat where "MAX_TASKS \<equiv> 64"

record task_t =
  pid :: u32
  task_name :: "u8 list"
  task_st :: task_state_t
  task_regs :: u64
  stack_base :: u64
  stack_size :: u64
  sleep_until :: u64
  task_next :: u64

text \<open>4 + 32 + 4 bytes, then five fields of 8 bytes.\<close>

abbreviation SIZEOF_TASK :: u64 where "SIZEOF_TASK \<equiv> 80"

record pit_state = heap_state +
  pit_ticks :: u64
  scheduler_enabled :: bool

record task_state = pit_state +
  tcbs :: "u64 \<Rightarrow> task_t"
  frames :: "u64 \<Rightarrow> registers_t"
  task_list :: "u64 list"
  task_count_val :: nat
  current_task :: u64
  next_pid :: u32

section \<open>pit.c: the tick counter\<close>

definition pit_get_ticks :: "'a pit_state_scheme \<Rightarrow> u64" where
  "pit_get_ticks s = pit_ticks s"

abbreviation PIT_TARGET_FREQ :: u64 where "PIT_TARGET_FREQ \<equiv> 100"

definition pit_get_uptime_seconds :: "'a pit_state_scheme \<Rightarrow> u64" where
  "pit_get_uptime_seconds s = pit_ticks s div PIT_TARGET_FREQ"

definition pit_enable_scheduler :: "'a pit_state_scheme \<Rightarrow> 'a pit_state_scheme" where
  "pit_enable_scheduler s = s\<lparr>scheduler_enabled := True\<rparr>"

section \<open>task.c\<close>

abbreviation tcb_update :: "u64 \<Rightarrow> (task_t \<Rightarrow> task_t) \<Rightarrow> 'a task_state_scheme \<Rightarrow> 'a task_state_scheme" where
  "tcb_update t f s \<equiv> s\<lparr>tcbs := (tcbs s)(t := f (tcbs s t))\<rparr>"

text \<open>
  The name field after \<^verbatim>\<open>strncpy(task->name, name, TASK_NAME_MAX)\<close>: 32 bytes, padded with
  NUL. For a shorter name \<^verbatim>\<open>strncpy\<close> also clears the byte behind the field, the first of
  \<^verbatim>\<open>state\<close>, which both callers then assign.
\<close>

definition name_field :: "u8 list \<Rightarrow> u8 list" where
  "name_field name = take TASK_NAME_MAX (name @ replicate TASK_NAME_MAX 0)"

definition task_init :: "'a task_state_scheme \<Rightarrow> 'a task_state_scheme" where
  "task_init s =
     (let s = s\<lparr>task_list := replicate MAX_TASKS 0, task_count_val := 0, current_task := 0, next_pid := 1\<rparr>;
          (kernel_task, s) = kmalloc SIZEOF_TASK s
      in if kernel_task \<noteq> 0 then
           let s = tcb_update kernel_task (\<lambda>t. t\<lparr>pid := 0, task_name := name_field (cstr ''kernel_idle''),
                     task_st := TASK_STATE_RUNNING, stack_base := 0, stack_size := 0, task_regs := 0,
                     sleep_until := 0, task_next := 0\<rparr>) s;
               s = s\<lparr>task_list := (task_list s)[task_count_val s := kernel_task],
                     task_count_val := task_count_val s + 1\<rparr>
           in s\<lparr>current_task := kernel_task\<rparr>
         else s)"

text \<open>The frame \<^verbatim>\<open>task_create\<close> prepares at the top of the new stack.\<close>

definition initial_frame :: "u64 \<Rightarrow> u64 \<Rightarrow> registers_t" where
  "initial_frame entry stack_top =
     \<lparr>r_gs = 0x10, r_fs = 0x10, r_es = 0x10, r_ds = 0x10,
      r_r15 = 0, r_r14 = 0, r_r13 = 0, r_r12 = 0, r_r11 = 0, r_r10 = 0, r_r9 = 0, r_r8 = 0,
      r_rbp = 0, r_rdi = 0, r_rsi = 0, r_rdx = 0, r_rcx = 0, r_rbx = 0, r_rax = 0,
      r_int_no = 0, r_err_code = 0,
      r_rip = entry, r_cs = 0x08, r_rflags = 0x202, r_rsp = stack_top, r_ss = 0x10\<rparr>"

definition task_create ::
  "u8 list \<Rightarrow> u64 \<Rightarrow> u64 \<Rightarrow> 'a task_state_scheme \<Rightarrow> u64 \<times> 'a task_state_scheme" where
  "task_create name entry ssize s =
     (if task_count_val s \<ge> MAX_TASKS then (0, vga_println (cstr ''[TASK] ERROR: Max tasks reached!'') s)
      else let (task, s) = kmalloc SIZEOF_TASK s in
      if task = 0 then (0, vga_println (cstr ''[TASK] ERROR: Failed to allocate TCB!'') s)
      else let (stack, s) = kmalloc ssize s in
      if stack = 0 then (0, kfree task (vga_println (cstr ''[TASK] ERROR: Failed to allocate stack!'') s))
      else let s = tcb_update task (\<lambda>t. t\<lparr>pid := next_pid s\<rparr>) s;
               s = s\<lparr>next_pid := next_pid s + 1\<rparr>;
               s = tcb_update task (\<lambda>t. t\<lparr>task_name := name_field name, task_st := TASK_STATE_READY,
                     stack_base := stack, stack_size := ssize, sleep_until := 0, task_next := 0\<rparr>) s;
               stack_top = stack_base (tcbs s task) + ssize;
               stack_top = stack_top AND NOT 0xF;
               stack_top = stack_top - SIZEOF_REGISTERS;
               s = tcb_update task (\<lambda>t. t\<lparr>task_regs := stack_top\<rparr>) s;
               s = s\<lparr>frames := (frames s)(task_regs (tcbs s task) := initial_frame entry stack_top)\<rparr>;
               s = s\<lparr>task_list := (task_list s)[task_count_val s := task], task_count_val := task_count_val s + 1\<rparr>;
               s = (if current_task s = 0
                    then tcb_update task (\<lambda>t. t\<lparr>task_st := TASK_STATE_RUNNING\<rparr>) (s\<lparr>current_task := task\<rparr>)
                    else s)
           in (task, s))"

definition task_get_current :: "'a task_state_scheme \<Rightarrow> u64" where
  "task_get_current s = current_task s"

text \<open>The two loops of \<^verbatim>\<open>task_switch\<close>: the index after the current task, and the search.\<close>

primrec find_start :: "nat \<Rightarrow> nat \<Rightarrow> 'a task_state_scheme \<Rightarrow> nat" where
  "find_start 0 i s = 0"
| "find_start (Suc n) i s =
     (if task_list s ! i = current_task s then (i + 1) mod task_count_val s else find_start n (i + 1) s)"

primrec find_next :: "nat \<Rightarrow> nat \<Rightarrow> nat \<Rightarrow> 'a task_state_scheme \<Rightarrow> u64 \<times> 'a task_state_scheme" where
  "find_next 0 start i s = (0, s)"
| "find_next (Suc n) start i s =
     (let idx = (start + i) mod task_count_val s;
          t = task_list s ! idx
      in if pid (tcbs s t) = 0 then find_next n start (i + 1) s
         else if task_st (tcbs s t) = TASK_STATE_READY then (t, s)
         else if task_st (tcbs s t) = TASK_STATE_SLEEPING \<and> pit_get_ticks s \<ge> sleep_until (tcbs s t)
         then (t, tcb_update t (\<lambda>t. t\<lparr>task_st := TASK_STATE_READY\<rparr>) s)
         else find_next n start (i + 1) s)"

definition task_switch :: "u64 \<Rightarrow> 'a task_state_scheme \<Rightarrow> u64 \<times> 'a task_state_scheme" where
  "task_switch current_regs s =
     (if task_count_val s = 0 then (current_regs, s)
      else let s = (if current_task s \<noteq> 0 \<and> task_st (tcbs s (current_task s)) = TASK_STATE_RUNNING
                    then tcb_update (current_task s)
                           (\<lambda>t. t\<lparr>task_regs := current_regs, task_st := TASK_STATE_READY\<rparr>) s
                    else s);
               start_idx = find_start (task_count_val s) 0 s;
               (next_task, s) = find_next (task_count_val s) start_idx 0 s
           in if next_task = 0 then
                (current_regs,
                 if current_task s \<noteq> 0
                 then tcb_update (current_task s) (\<lambda>t. t\<lparr>task_st := TASK_STATE_RUNNING\<rparr>) s else s)
              else let s = s\<lparr>current_task := next_task\<rparr>;
                       s = tcb_update (current_task s) (\<lambda>t. t\<lparr>task_st := TASK_STATE_RUNNING\<rparr>) s
                   in (task_regs (tcbs s (current_task s)), s))"

definition task_sleep :: "u64 \<Rightarrow> 'a task_state_scheme \<Rightarrow> 'a task_state_scheme" where
  "task_sleep ticks s =
     (if current_task s \<noteq> 0
      then tcb_update (current_task s)
             (\<lambda>t. t\<lparr>task_st := TASK_STATE_SLEEPING, sleep_until := pit_get_ticks s + ticks\<rparr>) s
      else s)"

definition task_exit :: "'a task_state_scheme \<Rightarrow> 'a task_state_scheme" where
  "task_exit s =
     (if current_task s \<noteq> 0
      then tcb_update (current_task s) (\<lambda>t. t\<lparr>task_st := TASK_STATE_ZOMBIE\<rparr>) s else s)"

definition task_count :: "'a task_state_scheme \<Rightarrow> nat" where
  "task_count s = task_count_val s"

definition task_get_by_index :: "int \<Rightarrow> 'a task_state_scheme \<Rightarrow> u64" where
  "task_get_by_index index s =
     (if 0 \<le> index \<and> index < int (task_count_val s) then task_list s ! nat index else 0)"

end
