(* ===== verification/TaskProps.thy ===== *)
theory TaskProps
  imports Task
begin

text \<open>
  The scheduler: which task \<^verbatim>\<open>task_switch\<close> picks, the invariant of the task table, and
  fairness of the round robin over any interleaving of switches, sleeps, exits and ticks.
\<close>

section \<open>The task table\<close>

definition all_tasks :: "'a task_state_scheme \<Rightarrow> u64 list" where
  "all_tasks s = take (task_count_val s) (task_list s)"

definition task_inv :: "'a task_state_scheme \<Rightarrow> bool" where
  "task_inv s \<longleftrightarrow> length (task_list s) = MAX_TASKS \<and> task_count_val s \<le> MAX_TASKS \<and>
     distinct (all_tasks s) \<and> 0 \<notin> set (all_tasks s) \<and>
     (current_task s = 0 \<or> current_task s \<in> set (all_tasks s)) \<and>
     (\<forall>t \<in> set (all_tasks s). task_st (tcbs s t) = TASK_STATE_RUNNING \<longrightarrow> t = current_task s)"

lemma length_all_tasks [simp]: "task_inv s \<Longrightarrow> length (all_tasks s) = task_count_val s"
  by (simp add: task_inv_def all_tasks_def)

lemma nth_all_tasks: "i < task_count_val s \<Longrightarrow> task_list s ! i = all_tasks s ! i"
  by (simp add: all_tasks_def)

definition runnable :: "'a task_state_scheme \<Rightarrow> u64 \<Rightarrow> bool" where
  "runnable s t \<longleftrightarrow> pid (tcbs s t) \<noteq> 0 \<and> (task_st (tcbs s t) = TASK_STATE_READY \<or>
     task_st (tcbs s t) = TASK_STATE_SLEEPING \<and> pit_ticks s \<ge> sleep_until (tcbs s t))"

text \<open>The state after the running task was saved, at the start of \<^verbatim>\<open>task_switch\<close>.\<close>

definition saved :: "u64 \<Rightarrow> 'a task_state_scheme \<Rightarrow> 'a task_state_scheme" where
  "saved regs s = (if current_task s \<noteq> 0 \<and> task_st (tcbs s (current_task s)) = TASK_STATE_RUNNING
     then tcb_update (current_task s) (\<lambda>t. t\<lparr>task_regs := regs, task_st := TASK_STATE_READY\<rparr>) s else s)"

lemma saved_fields [simp]:
  "task_list (saved regs s) = task_list s" "task_count_val (saved regs s) = task_count_val s"
  "current_task (saved regs s) = current_task s" "pit_ticks (saved regs s) = pit_ticks s"
  "pid (tcbs (saved regs s) t) = pid (tcbs s t)" "all_tasks (saved regs s) = all_tasks s"
  by (simp_all add: saved_def all_tasks_def)

section \<open>The search\<close>

definition start_index :: "'a task_state_scheme \<Rightarrow> nat" where
  "start_index s = find_start (task_count_val s) 0 s"

lemma find_start_cong:
  "task_list s' = task_list s \<Longrightarrow> current_task s' = current_task s \<Longrightarrow> task_count_val s' = task_count_val s \<Longrightarrow>
   find_start n i s' = find_start n i s"
  by (induction n arbitrary: i) simp_all

lemma find_start_hit:
  assumes "i \<le> j" and "j < i + n" and "task_list s ! j = current_task s"
    and "\<And>k. i \<le> k \<Longrightarrow> k < j \<Longrightarrow> task_list s ! k \<noteq> current_task s"
  shows "find_start n i s = (j + 1) mod task_count_val s"
  using assms
proof (induction n arbitrary: i)
  case 0
  then show ?case by simp
next
  case (Suc n)
  then show ?case
    by (cases "i = j") (auto intro!: Suc.IH)
qed

lemma find_start_miss:
  "(\<And>k. i \<le> k \<Longrightarrow> k < i + n \<Longrightarrow> task_list s ! k \<noteq> current_task s) \<Longrightarrow> find_start n i s = 0"
proof (induction n arbitrary: i)
  case (Suc n)
  have "task_list s ! i \<noteq> current_task s" using Suc.prems[of i] by simp
  moreover have "find_start n (i + 1) s = 0"
  proof (rule Suc.IH)
    show "task_list s ! k \<noteq> current_task s" if "i + 1 \<le> k" "k < i + 1 + n" for k
      using Suc.prems[of k] that by simp
  qed
  ultimately show ?case by simp
qed simp

lemma start_index_current:
  assumes "task_inv s" and "j < task_count_val s" and "all_tasks s ! j = current_task s"
  shows "start_index s = (j + 1) mod task_count_val s"
  unfolding start_index_def
proof (rule find_start_hit)
  show "task_list s ! j = current_task s" using assms by (simp add: nth_all_tasks)
  fix k assume "k < j"
  moreover have "distinct (all_tasks s)" using assms(1) by (simp add: task_inv_def)
  ultimately have "all_tasks s ! k \<noteq> all_tasks s ! j"
    using nth_eq_iff_index_eq[of "all_tasks s" k j] length_all_tasks[OF assms(1)] assms(2) by linarith
  then show "task_list s ! k \<noteq> current_task s"
    using \<open>k < j\<close> assms by (simp add: nth_all_tasks)
qed (use assms in auto)

lemma start_index_less:
  assumes "task_inv s" and "0 < task_count_val s"
  shows "start_index s < task_count_val s"
proof (cases "\<exists>j < task_count_val s. all_tasks s ! j = current_task s")
  case True
  then show ?thesis using assms start_index_current[OF assms(1)] by auto
next
  case False
  then have "start_index s = 0"
    unfolding start_index_def by (intro find_start_miss) (auto simp: nth_all_tasks)
  then show ?thesis using assms by simp
qed

text \<open>The task that round \<open>k\<close> of the search looks at.\<close>

definition candidate :: "'a task_state_scheme \<Rightarrow> nat \<Rightarrow> u64" where
  "candidate s k = all_tasks s ! ((start_index s + k) mod task_count_val s)"

lemma candidate_in: "task_inv s \<Longrightarrow> 0 < task_count_val s \<Longrightarrow> candidate s k \<in> set (all_tasks s)"
  by (simp add: candidate_def)

lemma ready_triv:
  assumes "task_st (tcbs s t) = TASK_STATE_READY"
  shows "tcb_update t (\<lambda>t. t\<lparr>task_st := TASK_STATE_READY\<rparr>) s = s"
proof -
  have "(tcbs s t)\<lparr>task_st := TASK_STATE_READY\<rparr> = tcbs s t"
    using assms by (cases "tcbs s t") simp
  then show ?thesis by (cases s) simp
qed

lemma find_next_skip:
  "\<not> runnable s (task_list s ! ((start + i) mod task_count_val s)) \<Longrightarrow>
   find_next (Suc n) start i s = find_next n start (i + 1) s"
  by (auto simp: runnable_def Let_def pit_get_ticks_def)

lemma find_next_none:
  "(\<And>k. k < n \<Longrightarrow> \<not> runnable s (task_list s ! ((start + (i + k)) mod task_count_val s))) \<Longrightarrow>
   find_next n start i s = (0, s)"
proof (induction n arbitrary: i)
  case (Suc n)
  have "\<not> runnable s (task_list s ! ((start + i) mod task_count_val s))" using Suc.prems[of 0] by simp
  moreover have "find_next n start (i + 1) s = (0, s)"
    using Suc.prems[of "Suc _"] by (intro Suc.IH) simp
  ultimately show ?case by (metis find_next_skip)
qed simp

lemma find_next_some:
  assumes "k < n" and "runnable s (task_list s ! ((start + (i + k)) mod task_count_val s))"
    and "\<And>j. j < k \<Longrightarrow> \<not> runnable s (task_list s ! ((start + (i + j)) mod task_count_val s))"
  shows "find_next n start i s = (let t = task_list s ! ((start + (i + k)) mod task_count_val s)
    in (t, tcb_update t (\<lambda>t. t\<lparr>task_st := TASK_STATE_READY\<rparr>) s))"
  using assms
proof (induction n arbitrary: i k)
  case (Suc n)
  let ?t = "task_list s ! ((start + i) mod task_count_val s)"
  show ?case
  proof (cases k)
    case 0
    then have r: "runnable s ?t" using Suc.prems(2) by simp
    show ?thesis
    proof (cases "task_st (tcbs s ?t) = TASK_STATE_READY")
      case True
      then have "find_next (Suc n) start i s = (?t, s)" using r by (simp add: runnable_def)
      then show ?thesis using ready_triv[OF True] 0 by (simp only: Let_def add_0_right)
    next
      case False
      then have "find_next (Suc n) start i s = (?t, tcb_update ?t (\<lambda>t. t\<lparr>task_st := TASK_STATE_READY\<rparr>) s)"
        using r by (auto simp: runnable_def pit_get_ticks_def Let_def)
      then show ?thesis using 0 by (simp only: Let_def add_0_right)
    qed
  next
    case k: (Suc k')
    then have "\<not> runnable s ?t" using Suc.prems(3)[of 0] by simp
    then have "find_next (Suc n) start i s = find_next n start (i + 1) s"
      by (rule find_next_skip)
    also have "\<dots> = (let t = task_list s ! ((start + (i + 1 + k')) mod task_count_val s)
        in (t, tcb_update t (\<lambda>t. t\<lparr>task_st := TASK_STATE_READY\<rparr>) s))"
    proof (rule Suc.IH)
      show "k' < n" "runnable s (task_list s ! ((start + (i + 1 + k')) mod task_count_val s))"
        using Suc.prems(1,2) k by simp_all
      fix j assume "j < k'"
      then show "\<not> runnable s (task_list s ! ((start + (i + 1 + j)) mod task_count_val s))"
        using Suc.prems(3)[of "Suc j"] k by simp
    qed
    also have "i + 1 + k' = i + k" using k by simp
    finally show ?thesis .
  qed
qed simp

section \<open>One switch\<close>

definition run_task :: "u64 \<Rightarrow> 'a task_state_scheme \<Rightarrow> 'a task_state_scheme" where
  "run_task t s = tcb_update t (\<lambda>t. t\<lparr>task_st := TASK_STATE_RUNNING\<rparr>) (s\<lparr>current_task := t\<rparr>)"

lemma run_task_fields [simp]:
  "task_list (run_task t s) = task_list s" "task_count_val (run_task t s) = task_count_val s"
  "current_task (run_task t s) = t" "pit_ticks (run_task t s) = pit_ticks s"
  "all_tasks (run_task t s) = all_tasks s" "pid (tcbs (run_task t s) u) = pid (tcbs s u)"
  by (simp_all add: run_task_def all_tasks_def)

lemma start_index_saved [simp]: "start_index (saved regs s) = start_index s"
  unfolding start_index_def saved_fields by (rule find_start_cong) simp_all

lemma candidate_saved [simp]: "candidate (saved regs s) k = candidate s k"
  by (simp add: candidate_def)

lemma candidate_list:
  "0 < task_count_val s \<Longrightarrow> task_list s ! ((start_index s + k) mod task_count_val s) = candidate s k"
  by (simp add: candidate_def nth_all_tasks)

lemma task_switch_saved:
  "0 < task_count_val s \<Longrightarrow> task_switch regs s =
     (let (next, u) = find_next (task_count_val s) (start_index s) 0 (saved regs s)
      in if next = 0 then (regs, if current_task u \<noteq> 0
           then tcb_update (current_task u) (\<lambda>t. t\<lparr>task_st := TASK_STATE_RUNNING\<rparr>) u else u)
         else let v = run_task next u in (task_regs (tcbs v next), v))"
proof -
  assume "0 < task_count_val s"
  moreover have "find_start (task_count_val s) 0 (saved regs s) = start_index s"
    using start_index_saved[of regs s] by (simp only: start_index_def saved_fields)
  ultimately show ?thesis
    unfolding task_switch_def Let_def saved_def[symmetric] by (simp add: run_task_def split_beta)
qed

lemma task_switch_none:
  assumes "0 < task_count_val s" and "\<And>k. k < task_count_val s \<Longrightarrow> \<not> runnable (saved regs s) (candidate s k)"
  shows "task_switch regs s = (regs, if current_task s \<noteq> 0 then run_task (current_task s) (saved regs s) else s)"
proof -
  have c: "candidate s k = task_list (saved regs s) ! ((start_index s + (0 + k)) mod task_count_val (saved regs s))" for k
    using candidate_list[OF assms(1), of k] by simp
  have "find_next (task_count_val s) (start_index s) 0 (saved regs s) = (0, saved regs s)"
    using assms(2) unfolding c by (rule find_next_none)
  then show ?thesis using assms(1)
    by (simp add: task_switch_saved run_task_def) (simp add: saved_def)
qed

lemma task_switch_some:
  assumes "task_inv s" and "k < task_count_val s" and "runnable (saved regs s) (candidate s k)"
    and "\<And>j. j < k \<Longrightarrow> \<not> runnable (saved regs s) (candidate s j)"
  shows "task_switch regs s =
    (task_regs (tcbs (saved regs s) (candidate s k)), run_task (candidate s k) (saved regs s))"
proof -
  let ?t = "candidate s k" and ?s = "saved regs s"
  have n: "0 < task_count_val s" using assms(2) by simp
  have c: "candidate s k = task_list ?s ! ((start_index s + (0 + k)) mod task_count_val ?s)" for k
    using candidate_list[OF n, of k] by simp
  have f: "find_next (task_count_val s) (start_index s) 0 ?s =
      (?t, tcb_update ?t (\<lambda>t. t\<lparr>task_st := TASK_STATE_READY\<rparr>) ?s)"
    using find_next_some[OF assms(2), of ?s "start_index s" 0] assms(3,4) unfolding c Let_def by blast
  have "?t \<noteq> 0" using candidate_in[OF assms(1) n, of k] assms(1) by (auto simp: task_inv_def)
  then show ?thesis using n by (simp add: task_switch_saved f run_task_def Let_def)
qed

lemma candidate_cover:
  assumes "task_inv s" and "t \<in> set (all_tasks s)"
  obtains k where "k < task_count_val s" and "candidate s k = t"
proof -
  obtain i where i: "i < task_count_val s" "all_tasks s ! i = t"
    using assms by (metis in_set_conv_nth length_all_tasks)
  let ?n = "task_count_val s"
  have st: "start_index s < ?n" using start_index_less assms(1) i(1) by force
  define k where "k = (if start_index s \<le> i then i - start_index s else i + ?n - start_index s)"
  have "k < ?n" "(start_index s + k) mod ?n = i" using st i(1) by (auto simp: k_def)
  then show thesis using that i(2) by (simp add: candidate_def)
qed

section \<open>The invariant under the scheduler's operations\<close>

lemma saved_states:
  assumes "task_inv s" and "t \<in> set (all_tasks s)"
  shows "task_st (tcbs (saved regs s) t) \<noteq> TASK_STATE_RUNNING"
    and "t \<noteq> current_task s \<Longrightarrow> tcbs (saved regs s) t = tcbs s t"
proof -
  have r: "task_st (tcbs s t) = TASK_STATE_RUNNING \<longrightarrow> t = current_task s" and "t \<noteq> 0"
    using assms unfolding task_inv_def by blast+
  then show "task_st (tcbs (saved regs s) t) \<noteq> TASK_STATE_RUNNING"
    by (cases "t = current_task s") (simp_all add: saved_def)
  show "t \<noteq> current_task s \<Longrightarrow> tcbs (saved regs s) t = tcbs s t" by (simp add: saved_def)
qed

lemma task_inv_run_task:
  assumes "task_inv s" and "t \<in> set (all_tasks s)"
  shows "task_inv (run_task t (saved regs s))"
proof -
  have "u = t" if u: "u \<in> set (all_tasks s)"
    and r: "task_st (tcbs (run_task t (saved regs s)) u) = TASK_STATE_RUNNING" for u
  proof (rule ccontr)
    assume "u \<noteq> t"
    then have "task_st (tcbs (saved regs s) u) = TASK_STATE_RUNNING" using r by (simp add: run_task_def)
    then show False using saved_states(1)[OF assms(1) u] by simp
  qed
  then show ?thesis using assms unfolding task_inv_def run_task_fields saved_fields by blast
qed

lemma task_inv_tcb:
  assumes "task_inv s" and "\<And>x. task_st (f x) = TASK_STATE_RUNNING \<Longrightarrow> t = current_task s"
  shows "task_inv (tcb_update t f s)"
  using assms by (simp add: task_inv_def all_tasks_def)

lemma all_tasks_tcb [simp]: "all_tasks (tcb_update t f s) = all_tasks s"
  by (simp add: all_tasks_def)

text \<open>The first runnable task in the order of the search, when there is one.\<close>

lemma first_runnable:
  assumes "task_inv s" and "t \<in> set (all_tasks s)" and "runnable (saved regs s) t"
  obtains k where "k < task_count_val s" and "runnable (saved regs s) (candidate s k)"
    and "\<And>j. j < k \<Longrightarrow> \<not> runnable (saved regs s) (candidate s j)"
    and "\<And>i. candidate s i = t \<Longrightarrow> k \<le> i"
proof -
  let ?P = "\<lambda>k. runnable (saved regs s) (candidate s k)"
  obtain i where i: "i < task_count_val s" "?P i" using candidate_cover[OF assms(1,2)] assms(3) by metis
  show thesis
  proof (rule that[of "LEAST k. ?P k"])
    show "?P (LEAST k. ?P k)" using i(2) by (rule LeastI)
    show "(LEAST k. ?P k) < task_count_val s" using Least_le[of ?P i] i by linarith
    show "\<not> ?P j" if "j < (LEAST k. ?P k)" for j using that by (rule not_less_Least)
    show "(LEAST k. ?P k) \<le> j" if "candidate s j = t" for j using that assms(3) by (intro Least_le) simp
  qed
qed

lemma task_switch_inv:
  assumes "task_inv s"
  shows "task_inv (snd (task_switch regs s))"
proof (cases "task_count_val s = 0")
  case True
  then show ?thesis using assms by (simp add: task_switch_def)
next
  case False
  then have n: "0 < task_count_val s" by simp
  show ?thesis
  proof (cases "\<exists>t \<in> set (all_tasks s). runnable (saved regs s) t")
    case True
    then obtain k where k: "k < task_count_val s" "runnable (saved regs s) (candidate s k)"
      "\<And>j. j < k \<Longrightarrow> \<not> runnable (saved regs s) (candidate s j)"
      using first_runnable[OF assms] by metis
    show ?thesis
      using task_inv_run_task[OF assms candidate_in[OF assms n]] task_switch_some[OF assms k] by simp
  next
    case False
    then have "\<And>k. k < task_count_val s \<Longrightarrow> \<not> runnable (saved regs s) (candidate s k)"
      using candidate_in[OF assms n] by blast
    note e = task_switch_none[OF n this]
    show ?thesis
    proof (cases "current_task s = 0")
      case True
      then show ?thesis using assms by (simp add: e)
    next
      case False
      then have "current_task s \<in> set (all_tasks s)" using assms by (simp add: task_inv_def)
      then show ?thesis using task_inv_run_task[OF assms] False by (simp add: e)
    qed
  qed
qed

lemma task_switch_run:
  assumes inv: "task_inv s" and c: "current_task s \<noteq> 0"
  obtains t where "t \<in> set (all_tasks s)" and "snd (task_switch regs s) = run_task t (saved regs s)"
    and "fst (task_switch regs s) = (if runnable (saved regs s) t then task_regs (tcbs (saved regs s) t) else regs)"
    and "runnable (saved regs s) t \<or> t = current_task s"
proof -
  have cur: "current_task s \<in> set (all_tasks s)" using inv c by (simp add: task_inv_def)
  then have n: "0 < task_count_val s" using length_all_tasks[OF inv] by (cases "task_count_val s") auto
  show thesis
  proof (cases "\<exists>t \<in> set (all_tasks s). runnable (saved regs s) t")
    case True
    then obtain k where k: "k < task_count_val s" "runnable (saved regs s) (candidate s k)"
      "\<And>i. i < k \<Longrightarrow> \<not> runnable (saved regs s) (candidate s i)" using first_runnable[OF inv] by metis
    show thesis
      using that[OF candidate_in[OF inv n, of k]] task_switch_some[OF inv k] k(2) by simp
  next
    case False
    then have "task_switch regs s = (regs, run_task (current_task s) (saved regs s))"
      using task_switch_none[OF n, of regs] candidate_in[OF inv n] c by simp
    then show thesis using that[OF cur] False cur by simp
  qed
qed

text \<open>What the timer interrupt and the tasks do to the scheduler, one event at a time.\<close>

datatype sched_event = Switch u64 | Sleep u64 | Exit | Tick

fun sched_step :: "sched_event \<Rightarrow> 'a task_state_scheme \<Rightarrow> 'a task_state_scheme" where
  "sched_step (Switch regs) s = snd (task_switch regs s)"
| "sched_step (Sleep n) s = task_sleep n s"
| "sched_step Exit s = task_exit s"
| "sched_step Tick s = s\<lparr>pit_ticks := pit_ticks s + 1\<rparr>"

definition sched_run :: "sched_event list \<Rightarrow> 'a task_state_scheme \<Rightarrow> 'a task_state_scheme" where
  "sched_run es s = fold sched_step es s"

lemma task_inv_ticks [simp]: "task_inv (s\<lparr>pit_ticks := n\<rparr>) = task_inv s"
  by (simp add: task_inv_def all_tasks_def)

lemma sched_step_inv: "task_inv s \<Longrightarrow> task_inv (sched_step e s)"
proof (cases e)
  case (Switch regs)
  then show "task_inv s \<Longrightarrow> ?thesis" by (simp add: task_switch_inv)
qed (auto simp: task_sleep_def task_exit_def intro!: task_inv_tcb)

section \<open>Fairness\<close>

lemma candidate_cong:
  "task_list u = task_list s \<Longrightarrow> task_count_val u = task_count_val s \<Longrightarrow> current_task u = current_task s \<Longrightarrow>
   candidate u k = candidate s k"
  by (simp add: candidate_def start_index_def all_tasks_def find_start_cong[of u s])

lemma mod_shift:
  fixes n :: nat
  assumes "k < i"
  shows "(((a + k) mod n + 1) mod n + (i - k - 1)) mod n = (a + i) mod n"
proof -
  have "(((a + k) mod n + 1) mod n + (i - k - 1)) mod n = (a + k + 1 + (i - k - 1)) mod n"
    by (simp only: mod_add_left_eq)
  also have "a + k + 1 + (i - k - 1) = a + i" using assms by simp
  finally show ?thesis .
qed

lemma switch_progress:
  fixes regs :: u64
  assumes inv: "task_inv s" and t: "t \<in> set (all_tasks s)" "t \<noteq> current_task s" "runnable s t"
    and i: "candidate s i = t"
  defines "u \<equiv> snd (task_switch regs s)"
  shows "current_task u = t \<or>
    (t \<in> set (all_tasks u) \<and> t \<noteq> current_task u \<and> runnable u t \<and> pit_ticks u = pit_ticks s \<and>
     (\<exists>i' < i. candidate u i' = t))"
proof -
  have n: "0 < task_count_val s" using t(1) length_all_tasks[OF inv] by (cases "task_count_val s") auto
  have r: "runnable (saved regs s) t" using t saved_states(2)[OF inv t(1)] by (simp add: runnable_def)
  obtain k where k: "k < task_count_val s" "runnable (saved regs s) (candidate s k)"
    "\<And>j. j < k \<Longrightarrow> \<not> runnable (saved regs s) (candidate s j)" and le: "k \<le> i"
    using first_runnable[OF inv t(1) r] i by metis
  let ?c = "candidate s k"
  have u: "u = run_task ?c (saved regs s)" using task_switch_some[OF inv k] by (simp add: u_def)
  show ?thesis
  proof (cases "?c = t")
    case True
    then show ?thesis by (simp add: u)
  next
    case False
    then have ki: "k < i" using le i by (cases "k = i") auto
    have inv': "task_inv u" unfolding u by (rule task_inv_run_task[OF inv candidate_in[OF inv n]])
    let ?n = "task_count_val s"
    have "start_index u = ((start_index s + k) mod ?n + 1) mod ?n"
      using start_index_current[OF inv', of "(start_index s + k) mod ?n"] n
      by (simp add: u candidate_def)
    then have "candidate u (i - k - 1) = candidate s i"
      using mod_shift[OF ki, of "start_index s" ?n] by (simp add: candidate_def u)
    moreover have "i - k - 1 < i" using ki by simp
    moreover have "runnable u t" using r False by (simp add: runnable_def u run_task_def)
    ultimately show ?thesis using i t(1) False unfolding u by auto
  qed
qed

lemma other_progress:
  assumes t: "t \<noteq> current_task s" "runnable s t" and e: "\<And>regs. e \<noteq> Switch regs"
    and ticks: "unat (pit_ticks s) + 1 < 2 ^ 64"
  defines "u \<equiv> sched_step e s"
  shows "all_tasks u = all_tasks s" "current_task u = current_task s" "runnable u t" "candidate u i = candidate s i"
    "unat (pit_ticks u) \<le> unat (pit_ticks s) + 1"
proof -
  have f: "task_list u = task_list s" "task_count_val u = task_count_val s" "current_task u = current_task s"
    "tcbs u t = tcbs s t"
    using t e by (cases e; simp add: u_def task_sleep_def task_exit_def)+
  show "current_task u = current_task s" "all_tasks u = all_tasks s" "candidate u i = candidate s i"
    using f(1-3) by (simp_all add: all_tasks_def candidate_cong[OF f(1-3)])
  have "unat (pit_ticks s + 1) = unat (pit_ticks s) + 1" using ticks by (simp add: unat_add_less)
  then have "unat (pit_ticks u) = unat (pit_ticks s) \<or> unat (pit_ticks u) = unat (pit_ticks s) + 1"
    using e by (cases e) (auto simp: u_def task_sleep_def task_exit_def)
  then have le: "unat (pit_ticks s) \<le> unat (pit_ticks u)" "unat (pit_ticks u) \<le> unat (pit_ticks s) + 1" by auto
  then show "unat (pit_ticks u) \<le> unat (pit_ticks s) + 1" by simp
  show "runnable u t" using t(2) f(4) le(1) unfolding runnable_def word_le_nat_alt by auto
qed

definition is_switch :: "sched_event \<Rightarrow> bool" where
  "is_switch e \<longleftrightarrow> (case e of Switch _ \<Rightarrow> True | _ \<Rightarrow> False)"

lemma scheduled_within:
  assumes "task_inv s" and "t \<in> set (all_tasks s)" and "runnable s t" and "candidate s i = t"
    and "i < length (filter is_switch es)" and "unat (pit_ticks s) + length es < 2 ^ 64"
  shows "\<exists>j \<le> length es. current_task (sched_run (take j es) s) = t"
  using assms
proof (induction es arbitrary: s i)
  case Nil
  then show ?case by simp
next
  case (Cons e es)
  let ?u = "sched_step e s"
  have run: "sched_run (take (Suc j) (e # es)) s = sched_run (take j es) ?u" for j
    by (simp add: sched_run_def)
  have lift: ?case if "\<exists>j \<le> length es. current_task (sched_run (take j es) ?u) = t"
    using that run by (metis Suc_le_mono length_Cons)
  have inv: "task_inv ?u" using Cons.prems(1) by (rule sched_step_inv)
  show ?case
  proof (cases "t = current_task s")
    case True
    then show ?thesis by (intro exI[of _ 0]) (simp add: sched_run_def)
  next
    case nc: False
    show ?thesis
    proof (cases "is_switch e")
      case True
      then obtain regs where e: "e = Switch regs" by (cases e) (auto simp: is_switch_def)
      show ?thesis
        using switch_progress[OF Cons.prems(1,2) nc Cons.prems(3,4), of regs]
      proof (elim disjE conjE exE)
        assume "current_task (snd (task_switch regs s)) = t"
        then show ?thesis by (intro lift exI[of _ 0]) (simp add: e sched_run_def)
      next
        fix i' assume h: "t \<in> set (all_tasks (snd (task_switch regs s)))" "runnable (snd (task_switch regs s)) t"
          "pit_ticks (snd (task_switch regs s)) = pit_ticks s" "i' < i" "candidate (snd (task_switch regs s)) i' = t"
        have "i' < length (filter is_switch es)" using h(4) Cons.prems(5) True by simp
        moreover have "unat (pit_ticks ?u) + length es < 2 ^ 64" using Cons.prems(6) h(3) e by simp
        ultimately show ?thesis using Cons.IH[OF inv, of i'] h(1,2,5) by (intro lift) (simp add: e)
      qed
    next
      case False
      then have e: "\<And>regs. e \<noteq> Switch regs" by (auto simp: is_switch_def)
      have tk: "unat (pit_ticks s) + 1 < 2 ^ 64" using Cons.prems(6) by simp
      note o = other_progress[OF nc Cons.prems(3) e tk]
      have "unat (pit_ticks ?u) + length es < 2 ^ 64" using o(5) Cons.prems(6) by simp
      moreover have "i < length (filter is_switch es)" using Cons.prems(5) False by simp
      ultimately show ?thesis
        using Cons.IH[OF inv, of i] Cons.prems(2,4) o(1-4) by (intro lift) simp
    qed
  qed
qed

section \<open>A concrete task table\<close>

definition example_tcb :: "u32 \<Rightarrow> task_state_t \<Rightarrow> u64 \<Rightarrow> task_t" where
  "example_tcb i st regs = \<lparr>pid = i, task_name = [], task_st = st, task_regs = regs, stack_base = 0,
     stack_size = 0, sleep_until = 50, task_next = 0\<rparr>"

text \<open>The idle task at 0x100, tasks 1 to 3 at 0x200, 0x300 and 0x400; task 1 is running.\<close>

definition example_tasks :: "task_state_t \<Rightarrow> task_state_t \<Rightarrow> u64 \<Rightarrow> task_state" where
  "example_tasks st2 st3 ticks = \<lparr>mem = mem example_heap, hw_trace = [], vga_buffer = blank_screen,
     vga_cursor_x = 0, vga_cursor_y = 0, vga_color = 15, bitmap = bitmap example_heap,
     total_pages = total_pages example_heap, used_pages = used_pages example_heap,
     cr3 = 0x100000, current_pml4_phys = 0x100000,
     heap_current_ptr = HEAP_START, heap_total_alloc = 0, pit_ticks = ticks, scheduler_enabled = True,
     tcbs = (\<lambda>t. if t = 0x100 then example_tcb 0 TASK_STATE_READY 0x5000
                 else if t = 0x200 then example_tcb 1 TASK_STATE_RUNNING 0x6000
                 else if t = 0x300 then example_tcb 2 st2 0x7000 else example_tcb 3 st3 0x8000),
     frames = (\<lambda>a. initial_frame 0 a), task_list = [0x100, 0x200, 0x300, 0x400] @ replicate 60 0,
     task_count_val = 4, current_task = 0x200, next_pid = 4\<rparr>"

lemma example_tasks_inv:
  assumes "st2 \<noteq> TASK_STATE_RUNNING" and "st3 \<noteq> TASK_STATE_RUNNING"
  shows "task_inv (example_tasks st2 st3 ticks)" "all_tasks (example_tasks st2 st3 ticks) = [0x100, 0x200, 0x300, 0x400]"
  using assms by (simp_all add: task_inv_def all_tasks_def example_tasks_def example_tcb_def)

section \<open>Properties\<close>

text \<open>
  C19: with the current task at position \<open>j\<close> of the task list, \<^verbatim>\<open>task_switch\<close> gives the
  processor to the first task after it, in cyclic order and the current one last, that is
  runnable (READY, or SLEEPING with its time over; never the idle task with PID 0); the
  interrupted frame is saved first, the frame of the chosen task is returned, it alone is
  RUNNING, and no other control block changes. When no task is runnable the current one
  goes on. The invariant of the task table is kept.
\<close>

theorem task_switch_correct:
  assumes "task_inv s" and "j < task_count_val s" and "all_tasks s ! j = current_task s"
  shows "let n = task_count_val s; after = (\<lambda>k. all_tasks s ! ((j + 1 + k) mod n));
             s1 = saved regs s; (frame, s2) = task_switch regs s
    in task_inv s2 \<and>
      (\<forall>t \<in> set (all_tasks s2). task_st (tcbs s2 t) = TASK_STATE_RUNNING \<longleftrightarrow> t = current_task s2) \<and>
      (\<forall>k < n. runnable s1 (after k) \<and> (\<forall>i < k. \<not> runnable s1 (after i)) \<longrightarrow>
         frame = task_regs (tcbs s1 (after k)) \<and> s2 = run_task (after k) s1) \<and>
      ((\<forall>k < n. \<not> runnable s1 (after k)) \<longrightarrow> frame = regs \<and> s2 = run_task (current_task s) s1)"
proof -
  have c: "candidate s k = all_tasks s ! ((j + 1 + k) mod task_count_val s)" for k
    using start_index_current[OF assms] by (simp add: candidate_def mod_simps)
  have nz: "current_task s \<noteq> 0" and n: "0 < task_count_val s"
    using assms length_all_tasks[OF assms(1)] unfolding task_inv_def by (metis nth_mem, simp)
  have some: "fst (task_switch regs s) = task_regs (tcbs (saved regs s) (candidate s k)) \<and>
      snd (task_switch regs s) = run_task (candidate s k) (saved regs s)"
    if "k < task_count_val s" "runnable (saved regs s) (candidate s k)"
      "\<forall>i < k. \<not> runnable (saved regs s) (candidate s i)" for k
    using task_switch_some[OF assms(1) that(1,2)] that(3) by simp
  have none: "task_switch regs s = (regs, run_task (current_task s) (saved regs s))"
    if "\<forall>k < task_count_val s. \<not> runnable (saved regs s) (candidate s k)"
    using task_switch_none[OF n, of regs] that nz by simp
  have "\<exists>c. snd (task_switch regs s) = run_task c (saved regs s)"
    using task_switch_run[OF assms(1) nz] by metis
  then obtain c where "snd (task_switch regs s) = run_task c (saved regs s)" by blast
  then have run: "task_st (tcbs (snd (task_switch regs s)) (current_task (snd (task_switch regs s)))) = TASK_STATE_RUNNING"
    by (simp add: run_task_def)
  note inv = task_switch_inv[OF assms(1), of regs]
  then have "\<forall>t \<in> set (all_tasks (snd (task_switch regs s))).
      task_st (tcbs (snd (task_switch regs s)) t) = TASK_STATE_RUNNING \<longleftrightarrow> t = current_task (snd (task_switch regs s))"
    using run unfolding task_inv_def by metis
  then show ?thesis using inv some none unfolding Let_def c split_beta by auto
qed

lemma task_switch_correct_witness:
  "fst (task_switch 0x9000 (example_tasks TASK_STATE_ZOMBIE TASK_STATE_READY 0)) = 0x8000 \<and>
   current_task (snd (task_switch 0x9000 (example_tasks TASK_STATE_ZOMBIE TASK_STATE_READY 0))) = 0x400"
proof -
  let ?s = "example_tasks TASK_STATE_ZOMBIE TASK_STATE_READY 0"
  have s: "task_inv ?s" "all_tasks ?s = [0x100, 0x200, 0x300, 0x400]" by (simp_all add: example_tasks_inv)
  have f: "task_count_val ?s = 4" "current_task ?s = 0x200" by (simp_all add: example_tasks_def)
  have "runnable (saved 0x9000 ?s) 0x400" "\<not> runnable (saved 0x9000 ?s) 0x300"
    "task_regs (tcbs (saved 0x9000 ?s) 0x400) = 0x8000"
    by (simp_all add: runnable_def saved_def example_tasks_def example_tcb_def)
  moreover have pick: "runnable (saved 0x9000 ?s) (all_tasks ?s ! ((1 + 1 + k) mod 4)) \<and>
      (\<forall>i < k. \<not> runnable (saved 0x9000 ?s) (all_tasks ?s ! ((1 + 1 + i) mod 4))) \<longrightarrow>
      fst (task_switch 0x9000 ?s) = task_regs (tcbs (saved 0x9000 ?s) (all_tasks ?s ! ((1 + 1 + k) mod 4))) \<and>
      snd (task_switch 0x9000 ?s) = run_task (all_tasks ?s ! ((1 + 1 + k) mod 4)) (saved 0x9000 ?s)" if "k < 4" for k
    using task_switch_correct[OF s(1), of 1 "0x9000"] that s(2) unfolding Let_def split_beta f by simp
  ultimately show ?thesis using pick[of 1] by (simp add: s(2))
qed

text \<open>
  C20: the round robin is fair. A runnable task gets the processor within as many switches as
  there are tasks, whatever sleeps, exits and timer ticks happen in between, as long as the
  64-bit tick counter does not wrap.
\<close>

theorem round_robin_fair:
  assumes "task_inv s" and "t \<in> set (all_tasks s)" and "runnable s t"
    and "task_count_val s \<le> length (filter is_switch es)" and "unat (pit_ticks s) + length es < 2 ^ 64"
  shows "\<exists>j \<le> length es. current_task (sched_run (take j es) s) = t"
proof -
  obtain i where "i < task_count_val s" "candidate s i = t" using candidate_cover[OF assms(1,2)] by metis
  then show ?thesis using scheduled_within[OF assms(1-3), of i es] assms(4,5) by simp
qed

lemma round_robin_fair_witness:
  "\<exists>j \<le> 5. current_task (sched_run (take j [Tick, Switch 1, Switch 2, Switch 3, Switch 4])
     (example_tasks TASK_STATE_READY TASK_STATE_SLEEPING 50)) = 0x400"
proof -
  let ?s = "example_tasks TASK_STATE_READY TASK_STATE_SLEEPING 50"
  define es where "es = [Tick, Switch 1, Switch 2, Switch 3, Switch 4]"
  have "task_inv ?s" "0x400 \<in> set (all_tasks ?s)" by (simp_all add: example_tasks_inv)
  moreover have "runnable ?s 0x400" "task_count_val ?s = 4" "pit_ticks ?s = 50"
    by (simp_all add: runnable_def example_tasks_def example_tcb_def)
  moreover have len: "length es = 5" "length (filter is_switch es) = 4" by (simp_all add: es_def is_switch_def)
  ultimately have "\<exists>j \<le> length es. current_task (sched_run (take j es) ?s) = 0x400"
    by (intro round_robin_fair) simp_all
  then show ?thesis unfolding len by (simp only: es_def)
qed

text \<open>
  A task that called \<^verbatim>\<open>task_exit\<close> is revived when nothing else can run: the next
  switch leaves it the current task, marks it RUNNING and returns its own frame; from then
  on it is scheduled like any other.
\<close>

theorem exited_task_resumes:
  assumes "task_inv s" and "current_task s \<noteq> 0"
    and "\<forall>t \<in> set (all_tasks s). t \<noteq> current_task s \<longrightarrow> \<not> runnable s t"
  shows "let (frame, s2) = task_switch regs (task_exit s) in
    frame = regs \<and> current_task s2 = current_task s \<and>
    task_st (tcbs (task_exit s) (current_task s)) = TASK_STATE_ZOMBIE \<and>
    task_st (tcbs s2 (current_task s)) = TASK_STATE_RUNNING"
proof -
  let ?s = "task_exit s" and ?c = "current_task s"
  have inv: "task_inv ?s" using sched_step_inv[OF assms(1), of Exit] by simp
  have f: "current_task ?s = ?c" "all_tasks ?s = all_tasks s" "task_st (tcbs ?s ?c) = TASK_STATE_ZOMBIE"
    "saved regs ?s = ?s" using assms(2) by (simp_all add: task_exit_def saved_def all_tasks_def)
  have r: "\<not> runnable ?s t" if "t \<in> set (all_tasks s)" for t
    using assms(2,3) that by (cases "t = ?c") (auto simp: runnable_def task_exit_def)
  obtain t where t: "t \<in> set (all_tasks ?s)" "snd (task_switch regs ?s) = run_task t ?s"
    "fst (task_switch regs ?s) = (if runnable ?s t then task_regs (tcbs ?s t) else regs)"
    "runnable ?s t \<or> t = ?c"
    using task_switch_run[OF inv, of regs] assms(2) f(1,4) by metis
  then have "t = ?c" "fst (task_switch regs ?s) = regs" using r f(2) by auto
  then show ?thesis using f(3) t(2) by (simp add: split_beta run_task_def)
qed

lemma exited_task_resumes_witness:
  "task_st (tcbs (snd (task_switch 0x9000 (task_exit (example_tasks TASK_STATE_ZOMBIE TASK_STATE_ZOMBIE 0)))) 0x200)
    = TASK_STATE_RUNNING"
proof -
  let ?s = "example_tasks TASK_STATE_ZOMBIE TASK_STATE_ZOMBIE 0"
  have f: "current_task ?s = 0x200" by (simp add: example_tasks_def)
  have "\<forall>t \<in> set (all_tasks ?s). t \<noteq> 0x200 \<longrightarrow> \<not> runnable ?s t"
    by (simp add: example_tasks_inv runnable_def) (simp add: example_tasks_def example_tcb_def)
  then show ?thesis
    using exited_task_resumes[of ?s "0x9000"] f by (simp add: example_tasks_inv split_beta)
qed

text \<open>
  C26: the frame of a sleeping task is not saved. \<^verbatim>\<open>task_switch\<close> stores the interrupted frame
  of the current task when it is RUNNING, but after \<^verbatim>\<open>task_sleep\<close> it is SLEEPING: its
  control block keeps the frame of an earlier switch (for a task never preempted before, the
  initial frame with its entry point), and that frame is returned when the task is woken.
\<close>

theorem sleeping_frame_lost:
  assumes "task_inv s" and "current_task s \<noteq> 0"
  shows "(task_st (tcbs s (current_task s)) = TASK_STATE_RUNNING \<longrightarrow>
      task_regs (tcbs (snd (task_switch regs s)) (current_task s)) = regs) \<and>
    task_regs (tcbs (snd (task_switch regs (task_sleep n s))) (current_task s)) = task_regs (tcbs s (current_task s))"
proof -
  have keep: "task_regs (tcbs (snd (task_switch regs u)) c) = task_regs (tcbs (saved regs u) c)"
    if u: "task_inv u" "current_task u \<noteq> 0" for c and u :: "'a task_state_scheme"
  proof -
    obtain t where "snd (task_switch regs u) = run_task t (saved regs u)"
      using task_switch_run[OF u] by metis
    then show ?thesis by (simp add: run_task_def)
  qed
  have "task_inv (task_sleep n s)" using sched_step_inv[OF assms(1), of "Sleep n"] by simp
  moreover have "saved regs (task_sleep n s) = task_sleep n s"
    using assms(2) by (simp add: saved_def task_sleep_def)
  moreover have "current_task (task_sleep n s) = current_task s" by (simp add: task_sleep_def)
  ultimately have "task_regs (tcbs (snd (task_switch regs (task_sleep n s))) (current_task s)) =
      task_regs (tcbs (task_sleep n s) (current_task s))" using keep[of "task_sleep n s"] assms(2) by simp
  moreover have "task_regs (tcbs (saved regs s) (current_task s)) = regs"
    if "task_st (tcbs s (current_task s)) = TASK_STATE_RUNNING"
    using that assms(2) by (simp add: saved_def)
  ultimately show ?thesis using keep[OF assms] by (simp add: task_sleep_def)
qed

lemma sleeping_frame_lost_witness:
  "task_regs (tcbs (snd (task_switch 0x9000 (example_tasks TASK_STATE_READY TASK_STATE_READY 0))) 0x200) = 0x9000 \<and>
   task_regs (tcbs (snd (task_switch 0x9000 (task_sleep 10 (example_tasks TASK_STATE_READY TASK_STATE_READY 0)))) 0x200)
     = 0x6000"
proof -
  let ?s = "example_tasks TASK_STATE_READY TASK_STATE_READY 0"
  have "current_task ?s = 0x200" "task_st (tcbs ?s 0x200) = TASK_STATE_RUNNING" "task_regs (tcbs ?s 0x200) = 0x6000"
    by (simp_all add: example_tasks_def example_tcb_def)
  then show ?thesis using sleeping_frame_lost[of ?s "0x9000" 10] by (simp add: example_tasks_inv)
qed

end
