(* ===== verification/TaskInv.thy ===== *)
theory TaskInv
  imports TaskProps
begin

text \<open>
  Creation of tasks: what \<^verbatim>\<open>task_create\<close> and \<^verbatim>\<open>task_init\<close> do on every branch, the frame
  that is prepared on the new stack, and the invariant of every state the task subsystem
  can reach.
\<close>

section \<open>The allocator leaves the task table alone\<close>

lemma kmalloc_task_fields [simp]:
  fixes s :: "'a task_state_scheme"
  shows "tcbs (snd (kmalloc n s)) = tcbs s" "frames (snd (kmalloc n s)) = frames s"
    "task_list (snd (kmalloc n s)) = task_list s" "task_count_val (snd (kmalloc n s)) = task_count_val s"
    "current_task (snd (kmalloc n s)) = current_task s" "next_pid (snd (kmalloc n s)) = next_pid s"
    "pit_ticks (snd (kmalloc n s)) = pit_ticks s" "scheduler_enabled (snd (kmalloc n s)) = scheduler_enabled s"
proof -
  let ?same = "\<lambda>t. tcbs t = tcbs s \<and> frames t = frames s \<and> task_list t = task_list s \<and>
    task_count_val t = task_count_val s \<and> current_task t = current_task s \<and> next_pid t = next_pid s \<and>
    pit_ticks t = pit_ticks s \<and> scheduler_enabled t = scheduler_enabled s"
  have "?same (snd (kmalloc n s))"
  proof (cases "n = 0 \<or> heap_current_ptr s + round16 n \<ge> HEAP_START + HEAP_SIZE")
    case True
    then show ?thesis by (auto simp: kmalloc_def Let_def)
  next
    case False
    obtain ok t where h: "heap_map_pages (kmalloc_pages (heap_current_ptr s) (round16 n))
        (heap_current_ptr s AND NOT 0xFFF) s = (ok, t)" by force
    have "mm_only s t" using mm_only_heap_map_pages[of s] h by (metis snd_conv)
    then have "?same t" by (auto simp: mm_only_def)
    then show ?thesis using False kmalloc_cases[of n s] h by (simp add: Let_def)
  qed
  then show "tcbs (snd (kmalloc n s)) = tcbs s" "frames (snd (kmalloc n s)) = frames s"
    "task_list (snd (kmalloc n s)) = task_list s" "task_count_val (snd (kmalloc n s)) = task_count_val s"
    "current_task (snd (kmalloc n s)) = current_task s" "next_pid (snd (kmalloc n s)) = next_pid s"
    "pit_ticks (snd (kmalloc n s)) = pit_ticks s" "scheduler_enabled (snd (kmalloc n s)) = scheduler_enabled s"
    by blast+
qed

lemma println_task_fields [simp]:
  fixes s :: "'a task_state_scheme"
  shows "tcbs (vga_println cs s) = tcbs s" "frames (vga_println cs s) = frames s"
    "task_list (vga_println cs s) = task_list s" "task_count_val (vga_println cs s) = task_count_val s"
    "current_task (vga_println cs s) = current_task s" "next_pid (vga_println cs s) = next_pid s"
    "heap_current_ptr (vga_println cs s) = heap_current_ptr s"
    "heap_total_alloc (vga_println cs s) = heap_total_alloc s"
proof -
  obtain b x y c es where "vga_println cs s = s\<lparr>hw_trace := hw_trace s @ es, vga_buffer := b, vga_cursor_x := x,
      vga_cursor_y := y, vga_color := c\<rparr>" using vga_only_println[of s cs] by (rule vga_onlyE)
  then show "tcbs (vga_println cs s) = tcbs s" "frames (vga_println cs s) = frames s"
    "task_list (vga_println cs s) = task_list s" "task_count_val (vga_println cs s) = task_count_val s"
    "current_task (vga_println cs s) = current_task s" "next_pid (vga_println cs s) = next_pid s"
    "heap_current_ptr (vga_println cs s) = heap_current_ptr s"
    "heap_total_alloc (vga_println cs s) = heap_total_alloc s"
    by simp_all
qed

section \<open>The branches of task\_create\<close>

definition frame_top :: "u64 \<Rightarrow> u64 \<Rightarrow> u64" where
  "frame_top stack ssize = ((stack + ssize) AND NOT 0xF) - SIZEOF_REGISTERS"

definition new_tcb :: "u8 list \<Rightarrow> u64 \<Rightarrow> u64 \<Rightarrow> 'a task_state_scheme \<Rightarrow> task_t" where
  "new_tcb name stack ssize s = \<lparr>pid = next_pid s, task_name = name_field name,
     task_st = (if current_task s = 0 then TASK_STATE_RUNNING else TASK_STATE_READY),
     task_regs = frame_top stack ssize, stack_base = stack, stack_size = ssize, sleep_until = 0, task_next = 0\<rparr>"

lemma task_create_success:
  fixes s :: "'a task_state_scheme" and name :: "u8 list" and entry :: u64
  assumes "task_count_val s < MAX_TASKS" and k1: "kmalloc SIZEOF_TASK s = (task, s1)" and "task \<noteq> 0"
    and k2: "kmalloc ssize s1 = (stack, s2)" and "stack \<noteq> 0"
  defines "r \<equiv> snd (task_create name entry ssize s)"
  shows "fst (task_create name entry ssize s) = task"
    "tcbs r = (tcbs s)(task := new_tcb name stack ssize s)"
    "frames r = (frames s)(frame_top stack ssize := initial_frame entry (frame_top stack ssize))"
    "task_list r = (task_list s)[task_count_val s := task]" "task_count_val r = Suc (task_count_val s)"
    "current_task r = (if current_task s = 0 then task else current_task s)" "next_pid r = next_pid s + 1"
    "heap_current_ptr r = heap_current_ptr s2" "heap_total_alloc r = heap_total_alloc s2"
    "mem r = mem s2" "bitmap r = bitmap s2" "total_pages r = total_pages s2" "used_pages r = used_pages s2"
    "current_pml4_phys r = current_pml4_phys s2"
proof -
  have f: "tcbs s2 = tcbs s" "frames s2 = frames s" "task_list s2 = task_list s" "task_count_val s2 = task_count_val s"
    "current_task s2 = current_task s" "next_pid s2 = next_pid s"
    using kmalloc_task_fields[of SIZEOF_TASK s] kmalloc_task_fields[of ssize s1] k1 k2 by simp_all
  define top where "top = frame_top stack ssize"
  have top: "((stack + ssize) AND NOT 0xF) - SIZEOF_REGISTERS = top" by (simp only: top_def frame_top_def)
  have e0: "task_create name entry ssize s = (task, s2\<lparr>next_pid := next_pid s + 1,
      frames := (frames s)(top := initial_frame entry top), task_list := (task_list s)[task_count_val s := task],
      task_count_val := Suc (task_count_val s), current_task := task,
      tcbs := (tcbs s)(task := new_tcb name stack ssize s)\<rparr>)" if "current_task s = 0"
  proof (cases "tcbs s task")
    case (fields a b c d e f' g h)
    then show ?thesis
      using assms(1,3,5) that top by (simp add: task_create_def k1 k2 f new_tcb_def top_def) (simp add: Let_def)
  qed
  have e1: "task_create name entry ssize s = (task, s2\<lparr>next_pid := next_pid s + 1,
      tcbs := (tcbs s)(task := new_tcb name stack ssize s),
      frames := (frames s)(top := initial_frame entry top), task_list := (task_list s)[task_count_val s := task],
      task_count_val := Suc (task_count_val s)\<rparr>)" if "current_task s \<noteq> 0"
  proof (cases "tcbs s task")
    case (fields a b c d e f' g h)
    then show ?thesis
      using assms(1,3,5) that top by (simp add: task_create_def k1 k2 f new_tcb_def top_def) (simp add: Let_def)
  qed
  show "fst (task_create name entry ssize s) = task"
    "tcbs r = (tcbs s)(task := new_tcb name stack ssize s)"
    "frames r = (frames s)(frame_top stack ssize := initial_frame entry (frame_top stack ssize))"
    "task_list r = (task_list s)[task_count_val s := task]" "task_count_val r = Suc (task_count_val s)"
    "current_task r = (if current_task s = 0 then task else current_task s)" "next_pid r = next_pid s + 1"
    "heap_current_ptr r = heap_current_ptr s2" "heap_total_alloc r = heap_total_alloc s2"
    "mem r = mem s2" "bitmap r = bitmap s2" "total_pages r = total_pages s2" "used_pages r = used_pages s2"
    "current_pml4_phys r = current_pml4_phys s2"
    unfolding r_def top_def[symmetric] by (cases "current_task s = 0"; simp add: e0 e1 f)+
qed

lemma task_create_failure:
  fixes s :: "'a task_state_scheme" and name :: "u8 list" and entry ssize :: u64
  assumes "ptr_ok s" and "unat ssize \<le> MAX_REQUEST"
    and "task_count_val s \<ge> MAX_TASKS \<or> fst (kmalloc SIZEOF_TASK s) = 0 \<or>
      fst (kmalloc ssize (snd (kmalloc SIZEOF_TASK s))) = 0"
  defines "r \<equiv> snd (task_create name entry ssize s)"
  shows "fst (task_create name entry ssize s) = 0"
    "tcbs r = tcbs s" "frames r = frames s" "task_list r = task_list s" "task_count_val r = task_count_val s"
    "current_task r = current_task s" "next_pid r = next_pid s" "ptr_ok r"
    "unat (heap_current_ptr s) \<le> unat (heap_current_ptr r)"
proof -
  obtain task s1 stack s2 where k: "kmalloc SIZEOF_TASK s = (task, s1)" "kmalloc ssize s1 = (stack, s2)" by (metis surj_pair)
  have f1: "tcbs s1 = tcbs s" "frames s1 = frames s" "task_list s1 = task_list s" "task_count_val s1 = task_count_val s"
    "current_task s1 = current_task s" "next_pid s1 = next_pid s"
    using kmalloc_task_fields[of SIZEOF_TASK s] k(1) by simp_all
  have f2: "tcbs s2 = tcbs s" "frames s2 = frames s" "task_list s2 = task_list s" "task_count_val s2 = task_count_val s"
    "current_task s2 = current_task s" "next_pid s2 = next_pid s"
    using kmalloc_task_fields[of ssize s1] k(2) f1 by simp_all
  have p1: "ptr_ok s1" "unat (heap_current_ptr s) \<le> unat (heap_current_ptr s1)"
    using kmalloc_ptr[OF assms(1), of SIZEOF_TASK] k(1) assms(1) by (auto simp: ptr_ok_def)
  have p2: "ptr_ok s2" "unat (heap_current_ptr s) \<le> unat (heap_current_ptr s2)"
    using kmalloc_ptr[OF p1(1) assms(2)] k(2) p1 by (auto simp: ptr_ok_def)
  consider "task_count_val s \<ge> MAX_TASKS" | "\<not> task_count_val s \<ge> MAX_TASKS" "task = 0"
    | "\<not> task_count_val s \<ge> MAX_TASKS" "task \<noteq> 0" "stack = 0" using assms(3) k by fastforce
  then have c: "task_create name entry ssize s = (0, vga_println (cstr ''[TASK] ERROR: Max tasks reached!'') s) \<or>
      task_create name entry ssize s = (0, vga_println (cstr ''[TASK] ERROR: Failed to allocate TCB!'') s1) \<or>
      task_create name entry ssize s = (0, vga_println (cstr ''[TASK] ERROR: Failed to allocate stack!'') s2)"
  proof cases
    case 1
    then show ?thesis by (simp add: task_create_def)
  next
    case 2
    then show ?thesis by (simp add: task_create_def k)
  next
    case 3
    then show ?thesis by (simp add: task_create_def k kfree_def)
  qed
  then have z: "fst (task_create name entry ssize s) = 0" by auto
  have "tcbs r = tcbs s \<and> frames r = frames s \<and> task_list r = task_list s \<and> task_count_val r = task_count_val s \<and>
      current_task r = current_task s \<and> next_pid r = next_pid s \<and> ptr_ok r \<and>
      unat (heap_current_ptr s) \<le> unat (heap_current_ptr r)"
    using c
  proof (elim disjE)
    assume "task_create name entry ssize s = (0, vga_println (cstr ''[TASK] ERROR: Max tasks reached!'') s)"
    then show ?thesis using assms(1) by (simp add: r_def ptr_ok_def)
  next
    assume "task_create name entry ssize s = (0, vga_println (cstr ''[TASK] ERROR: Failed to allocate TCB!'') s1)"
    then show ?thesis using p1 by (simp add: r_def ptr_ok_def f1)
  next
    assume "task_create name entry ssize s = (0, vga_println (cstr ''[TASK] ERROR: Failed to allocate stack!'') s2)"
    then show ?thesis using p2 by (simp add: r_def ptr_ok_def f2)
  qed
  then show "fst (task_create name entry ssize s) = 0"
    "tcbs r = tcbs s" "frames r = frames s" "task_list r = task_list s" "task_count_val r = task_count_val s"
    "current_task r = current_task s" "next_pid r = next_pid s" "ptr_ok r"
    "unat (heap_current_ptr s) \<le> unat (heap_current_ptr r)"
    using z by blast+
qed

lemma task_create_null:
  fixes s :: "'a task_state_scheme" and name :: "u8 list" and entry ssize :: u64
  assumes "ptr_ok s" and "unat ssize \<le> MAX_REQUEST"
  shows "fst (task_create name entry ssize s) = 0 \<longleftrightarrow>
    MAX_TASKS \<le> task_count_val s \<or> fst (kmalloc SIZEOF_TASK s) = 0 \<or>
    fst (kmalloc ssize (snd (kmalloc SIZEOF_TASK s))) = 0" (is "?null \<longleftrightarrow> ?cond")
proof
  assume ?cond
  then show ?null using task_create_failure(1)[OF assms, of name entry] by simp
next
  assume z: ?null
  show ?cond
  proof (rule ccontr)
    assume "\<not> ?cond"
    moreover obtain x s1 y s2 where "kmalloc SIZEOF_TASK s = (x, s1)" "kmalloc ssize s1 = (y, s2)" by (metis surj_pair)
    ultimately show False
      using task_create_success(1)[of s x s1 ssize y s2 name entry] z by (simp add: not_le)
  qed
qed

section \<open>Reachable task tables\<close>

definition tasks_ok :: "'a task_state_scheme \<Rightarrow> bool" where
  "tasks_ok s \<longleftrightarrow> task_inv s \<and> ptr_ok s \<and>
     (\<forall>t \<in> set (all_tasks s). in_heap t \<and> unat t mod 16 = 0 \<and> unat t + 80 \<le> unat (heap_current_ptr s)) \<and>
     (\<forall>t \<in> set (all_tasks s). \<forall>u \<in> set (all_tasks s). unat t < unat u \<longrightarrow> unat t + 80 \<le> unat u) \<and>
     (\<forall>t \<in> set (all_tasks s). unat (pid (tcbs s t)) < unat (next_pid s)) \<and>
     inj_on (\<lambda>t. pid (tcbs s t)) (set (all_tasks s)) \<and>
     0 < unat (next_pid s) \<and> unat (next_pid s) \<le> task_count_val s + 1"

text \<open>
  The memory of a task is its control block and, behind it, its stack; the idle task runs on
  the boot stack and has none of its own. The memory of different tasks does not overlap.
\<close>

definition task_end :: "'a task_state_scheme \<Rightarrow> u64 \<Rightarrow> nat" where
  "task_end s t = (if stack_base (tcbs s t) = 0 then unat t + 80
     else unat (stack_base (tcbs s t)) + unat (stack_size (tcbs s t)))"

definition tasks_apart :: "'a task_state_scheme \<Rightarrow> bool" where
  "tasks_apart s \<longleftrightarrow> (\<forall>t \<in> set (all_tasks s).
     (stack_base (tcbs s t) \<noteq> 0 \<longrightarrow> unat t + 80 \<le> unat (stack_base (tcbs s t)) \<and> 208 \<le> unat (stack_size (tcbs s t))) \<and>
     task_end s t \<le> unat (heap_current_ptr s) \<and>
     (\<forall>u \<in> set (all_tasks s). unat t < unat u \<longrightarrow> task_end s t \<le> unat u))"

text \<open>
  Tasks are created with stacks that have room for the initial frame of 208 bytes. With a
  smaller one the code would write the frame over the new control block (lemma
  \<open>task_create_small_stack\<close> below), which the separate stores of control blocks and frames do
  not show.
\<close>

inductive task_reach :: "'a task_state_scheme \<Rightarrow> bool" where
  init: "ptr_ok s \<Longrightarrow> task_reach (task_init s)"
| create: "task_reach s \<Longrightarrow> 208 \<le> unat ssize \<Longrightarrow> unat ssize \<le> MAX_REQUEST \<Longrightarrow>
    task_reach (snd (task_create name entry ssize s))"
| event: "task_reach s \<Longrightarrow> task_reach (sched_step e s)"

lemma all_tasks_append:
  assumes "length (task_list s) = MAX_TASKS" and "task_count_val s < MAX_TASKS"
    and "task_list r = (task_list s)[task_count_val s := t]" and "task_count_val r = Suc (task_count_val s)"
  shows "all_tasks r = all_tasks s @ [t]"
  using assms by (simp add: all_tasks_def take_Suc_conv_app_nth)

text \<open>A new control block, above all others and with a new PID, keeps the invariant.\<close>

lemma tasks_ok_add:
  fixes s r :: "'a task_state_scheme"
  assumes ok: "tasks_ok s" and n: "task_count_val s < MAX_TASKS" and ptr: "ptr_ok r"
    and t: "t = heap_current_ptr s" "unat t + 80 \<le> unat (heap_current_ptr r)"
    and tcb: "tcbs r = (tcbs s)(t := x)" "pid x = next_pid s" "next_pid r = next_pid s + 1"
      "task_st x = (if current_task s = 0 then TASK_STATE_RUNNING else TASK_STATE_READY)"
    and list: "task_list r = (task_list s)[task_count_val s := t]" "task_count_val r = Suc (task_count_val s)"
    and cur: "current_task r = (if current_task s = 0 then t else current_task s)"
  shows "tasks_ok r"
proof -
  have inv: "task_inv s" using ok by (simp add: tasks_ok_def)
  have app: "all_tasks r = all_tasks s @ [t]" using inv n list by (intro all_tasks_append) (simp_all add: task_inv_def)
  have h: "in_heap t" "unat t mod 16 = 0" using ok t(1) by (auto simp: tasks_ok_def ptr_ok_def)
  have below: "unat u + 80 \<le> unat t" if "u \<in> set (all_tasks s)" for u
    using ok that t(1) unfolding tasks_ok_def by blast
  then have fresh: "t \<notin> set (all_tasks s)" by fastforce
  have keep: "tcbs r u = tcbs s u" if "u \<in> set (all_tasks s)" for u using that fresh tcb(1) by auto
  have pids: "pid (tcbs r u) \<noteq> pid x" if "u \<in> set (all_tasks s)" for u
    using ok that keep[OF that] tcb(2) unfolding tasks_ok_def by fastforce
  have np: "unat (next_pid r) = unat (next_pid s) + 1"
    using ok n tcb(3) by (simp add: tasks_ok_def unat_add_less)
  have nz: "t \<noteq> 0" using h(1) by (auto simp: in_heap_def)
  have "task_inv r"
    using inv n fresh nz keep tcb(1,4) list cur unfolding task_inv_def app by auto
  moreover have "\<forall>u \<in> set (all_tasks r). in_heap u \<and> unat u mod 16 = 0 \<and> unat u + 80 \<le> unat (heap_current_ptr r)"
    using ok h t below unfolding tasks_ok_def app by fastforce
  moreover have "\<forall>u \<in> set (all_tasks r). \<forall>v \<in> set (all_tasks r). unat u < unat v \<longrightarrow> unat u + 80 \<le> unat v"
    using ok below unfolding tasks_ok_def app by fastforce
  moreover have "\<forall>u \<in> set (all_tasks r). unat (pid (tcbs r u)) < unat (next_pid r)"
    using ok keep tcb(1,2) np unfolding tasks_ok_def app by fastforce
  moreover have "inj_on (\<lambda>u. pid (tcbs r u)) (set (all_tasks r))"
  proof -
    have "inj_on (\<lambda>u. pid (tcbs r u)) (set (all_tasks s))"
      using ok keep unfolding tasks_ok_def inj_on_def by simp
    moreover have "pid (tcbs r t) \<notin> (\<lambda>u. pid (tcbs r u)) ` (set (all_tasks s) - {t})"
    proof
      assume "pid (tcbs r t) \<in> (\<lambda>u. pid (tcbs r u)) ` (set (all_tasks s) - {t})"
      then obtain u where "u \<in> set (all_tasks s)" "pid (tcbs r u) = pid (tcbs r t)" by fastforce
      then show False using pids[of u] tcb(1) by simp
    qed
    ultimately show ?thesis unfolding app by (simp add: inj_on_insert)
  qed
  moreover have "0 < unat (next_pid r)" "unat (next_pid r) \<le> task_count_val r + 1"
    using ok np list(2) by (auto simp: tasks_ok_def)
  ultimately show ?thesis using ptr unfolding tasks_ok_def by blast
qed

lemma task_switch_form:
  assumes inv: "task_inv s"
  shows "snd (task_switch regs s) = s \<or> (\<exists>t. snd (task_switch regs s) = run_task t (saved regs s))"
proof (cases "current_task s = 0")
  case False
  then show ?thesis using task_switch_run[OF inv False] by metis
next
  case True
  show ?thesis
  proof (cases "\<exists>t \<in> set (all_tasks s). runnable (saved regs s) t")
    case True
    then obtain k where k: "k < task_count_val s" "runnable (saved regs s) (candidate s k)"
      "\<And>i. i < k \<Longrightarrow> \<not> runnable (saved regs s) (candidate s i)" using first_runnable[OF inv] by metis
    show ?thesis using task_switch_some[OF inv k] by auto
  next
    case none: False
    show ?thesis
    proof (cases "task_count_val s = 0")
      case True
      then show ?thesis by (simp add: task_switch_def)
    next
      case False
      then have n: "0 < task_count_val s" by simp
      show ?thesis using task_switch_none[OF n, of regs] candidate_in[OF inv n] none \<open>current_task s = 0\<close> by simp
    qed
  qed
qed

lemma sched_step_fields:
  assumes "task_inv s"
  shows "all_tasks (sched_step e s) = all_tasks s" "task_count_val (sched_step e s) = task_count_val s"
    "next_pid (sched_step e s) = next_pid s" "pid (tcbs (sched_step e s) t) = pid (tcbs s t)"
    "heap_current_ptr (sched_step e s) = heap_current_ptr s" "heap_total_alloc (sched_step e s) = heap_total_alloc s"
    "stack_base (tcbs (sched_step e s) t) = stack_base (tcbs s t)"
    "stack_size (tcbs (sched_step e s) t) = stack_size (tcbs s t)"
proof -
  have r: "next_pid (run_task t (saved regs s)) = next_pid s"
    "heap_current_ptr (run_task t (saved regs s)) = heap_current_ptr s"
    "heap_total_alloc (run_task t (saved regs s)) = heap_total_alloc s"
    "stack_base (tcbs (run_task t (saved regs s)) u) = stack_base (tcbs s u)"
    "stack_size (tcbs (run_task t (saved regs s)) u) = stack_size (tcbs s u)" for t u regs
    by (simp_all add: run_task_def saved_def)
  let ?same = "\<lambda>u. all_tasks u = all_tasks s \<and> task_count_val u = task_count_val s \<and> next_pid u = next_pid s \<and>
    pid (tcbs u t) = pid (tcbs s t) \<and> stack_base (tcbs u t) = stack_base (tcbs s t) \<and>
    stack_size (tcbs u t) = stack_size (tcbs s t) \<and> heap_current_ptr u = heap_current_ptr s \<and> heap_total_alloc u = heap_total_alloc s"
  have "?same (sched_step e s)"
  proof (cases e)
    case (Switch regs)
    have "?same (snd (task_switch regs s))"
      using task_switch_form[OF assms, of regs]
    proof (elim disjE exE)
      assume "snd (task_switch regs s) = s"
      then show ?thesis by simp
    next
      fix t assume "snd (task_switch regs s) = run_task t (saved regs s)"
      then show ?thesis by (simp add: r)
    qed
    then show ?thesis by (simp add: Switch)
  qed (simp_all add: task_sleep_def task_exit_def all_tasks_def)
  then show "all_tasks (sched_step e s) = all_tasks s" "task_count_val (sched_step e s) = task_count_val s"
    "next_pid (sched_step e s) = next_pid s" "pid (tcbs (sched_step e s) t) = pid (tcbs s t)"
    "heap_current_ptr (sched_step e s) = heap_current_ptr s" "heap_total_alloc (sched_step e s) = heap_total_alloc s"
    "stack_base (tcbs (sched_step e s) t) = stack_base (tcbs s t)"
    "stack_size (tcbs (sched_step e s) t) = stack_size (tcbs s t)"
    by blast+
qed

lemma tasks_ok_event: "tasks_ok s \<Longrightarrow> tasks_ok (sched_step e s)"
proof -
  assume ok: "tasks_ok s"
  then have inv: "task_inv s" by (simp add: tasks_ok_def)
  show ?thesis
    using ok sched_step_inv[OF inv, of e] unfolding tasks_ok_def ptr_ok_def sched_step_fields[OF inv] by simp
qed

lemma tasks_ok_init:
  fixes s :: "'a task_state_scheme"
  assumes "ptr_ok s"
  shows "tasks_ok (task_init s)" "tasks_apart (task_init s)"
proof -
  have "tasks_ok (task_init s) \<and> tasks_apart (task_init s)"
proof -
  define s0 where "s0 = s\<lparr>task_list := replicate MAX_TASKS 0, task_count_val := 0, current_task := 0, next_pid := 1\<rparr>"
  obtain k s1 where k: "kmalloc SIZEOF_TASK s0 = (k, s1)" by force
  have "round16 SIZEOF_TASK = 80" by code_simp
  then have ptr: "ptr_ok s0" and s1: "ptr_ok s1" "k \<noteq> 0 \<Longrightarrow> k = heap_current_ptr s0 \<and> unat (heap_current_ptr s1) = unat k + 80"
    using assms kmalloc_ptr[of s0 SIZEOF_TASK] k by (auto simp: s0_def ptr_ok_def)
  have f: "tcbs s1 = tcbs s0" "task_list s1 = replicate MAX_TASKS 0" "task_count_val s1 = 0" "current_task s1 = 0" "next_pid s1 = 1"
    using kmalloc_task_fields[of SIZEOF_TASK s0] unfolding k snd_conv by (simp_all add: s0_def)
  show ?thesis
  proof (cases "k = 0")
    case True
    then have "task_init s = s1" using k by (simp add: task_init_def s0_def)
    then show ?thesis using f s1(1) by (simp add: tasks_ok_def tasks_apart_def task_inv_def all_tasks_def)
  next
    case False
    define r where "r = task_init s"
    have r0: "r = s1\<lparr>tcbs := (tcbs s1)(k := (tcbs s1 k)\<lparr>pid := 0, task_name := name_field (cstr ''kernel_idle''),
        task_st := TASK_STATE_RUNNING, stack_base := 0, stack_size := 0, task_regs := 0,
        sleep_until := 0, task_next := 0\<rparr>), task_list := (task_list s1)[0 := k], task_count_val := 1, current_task := k\<rparr>"
      using False unfolding r_def task_init_def Let_def s0_def[symmetric] k prod.case by (simp add: f)
    have "take 1 ((replicate MAX_TASKS 0)[0 := k]) = [k]" by (simp add: numeral_eq_Suc)
    then have all: "all_tasks r = [k]" unfolding all_tasks_def r0 by (simp add: f)
    have r: "length (task_list r) = MAX_TASKS" "task_count_val r = 1" "current_task r = k" "next_pid r = 1"
      "pid (tcbs r k) = 0" "stack_base (tcbs r k) = 0" "heap_current_ptr r = heap_current_ptr s1" "heap_total_alloc r = heap_total_alloc s1"
      by (simp_all add: r0 f)
    have "in_heap k" "unat k mod 16 = 0" using ptr s1(2)[OF False] by (auto simp: ptr_ok_def)
    moreover have "task_inv r" using False by (simp add: task_inv_def all r)
    moreover have "ptr_ok r" using s1(1) by (simp add: ptr_ok_def r)
    ultimately show ?thesis using s1(2)[OF False] r 
      unfolding r_def[symmetric] tasks_ok_def tasks_apart_def task_end_def all by simp
  qed
qed
  then show "tasks_ok (task_init s)" "tasks_apart (task_init s)" by blast+
qed

lemma tasks_ok_create:
  fixes s :: "'a task_state_scheme"
  assumes ok: "tasks_ok s" and size: "unat ssize \<le> MAX_REQUEST"
  shows "tasks_ok (snd (task_create name entry ssize s))"
proof -
  have ptr: "ptr_ok s" using ok by (simp add: tasks_ok_def)
  obtain task s1 stack s2 where k: "kmalloc SIZEOF_TASK s = (task, s1)" "kmalloc ssize s1 = (stack, s2)" by (metis surj_pair)
  show ?thesis
  proof (cases "task_count_val s < MAX_TASKS \<and> task \<noteq> 0 \<and> stack \<noteq> 0")
    case False
    then have "task_count_val s \<ge> MAX_TASKS \<or> fst (kmalloc SIZEOF_TASK s) = 0 \<or>
      fst (kmalloc ssize (snd (kmalloc SIZEOF_TASK s))) = 0" using k by auto
    note f = task_create_failure[OF ptr size this, of name entry]
    define r where "r = snd (task_create name entry ssize s)"
    note f = f[folded r_def]
    have all: "all_tasks r = all_tasks s" by (simp add: all_tasks_def f)
    have "task_inv r" using ok unfolding tasks_ok_def task_inv_def all f(2,4,5,6) by blast
    moreover have "unat t + 80 \<le> unat (heap_current_ptr r)" if "t \<in> set (all_tasks s)" for t
      using ok that f(9) unfolding tasks_ok_def by (meson order_trans)
    ultimately show ?thesis using ok f(8) unfolding r_def[symmetric] tasks_ok_def all f(2,5,7) by blast
  next
    case True
    then have n: "task_count_val s < MAX_TASKS" "task \<noteq> 0" "stack \<noteq> 0" by auto
    have "round16 SIZEOF_TASK = 80" by code_simp
    then have t: "task = heap_current_ptr s" "unat (heap_current_ptr s1) = unat task + 80" "ptr_ok s1"
      using kmalloc_ptr[OF ptr, of SIZEOF_TASK] k n(2) by auto
    have s2: "ptr_ok s2" "unat (heap_current_ptr s1) \<le> unat (heap_current_ptr s2)"
      using kmalloc_ptr[OF t(3) size] k(2) n(3) by auto
    note c = task_create_success[OF n(1) k(1) n(2) k(2) n(3), of name entry]
    show ?thesis
    proof (rule tasks_ok_add[OF ok n(1) _ t(1) _ c(2) _ c(7) _ c(4,5,6)])
      show "ptr_ok (snd (task_create name entry ssize s))" using s2(1) c(8,9) by (simp add: ptr_ok_def)
      show "unat task + 80 \<le> unat (heap_current_ptr (snd (task_create name entry ssize s)))"
        using t(2) s2(2) c(8) by simp
    qed (simp_all add: new_tcb_def)
  qed
qed

section \<open>The frame on the new stack\<close>

lemma frame_top_bounds:
  assumes "in_heap stack" and "unat stack mod 16 = 0" and "unat stack + unat ssize < 0xFFFF800001000000"
  shows "208 \<le> unat ssize \<Longrightarrow> unat stack \<le> unat (frame_top stack ssize) \<and>
      unat (frame_top stack ssize) + 208 \<le> unat stack + unat ssize"
    "unat ssize < 208 \<Longrightarrow> unat (frame_top stack ssize) < unat stack"
    "unat (frame_top stack ssize) mod 16 = 0"
proof -
  have sum: "unat (stack + ssize) = unat stack + unat ssize" using assms(3) by (intro unat_add_less) simp
  have st: "0xFFFF800000000000 \<le> unat stack" using assms(1) by (simp add: in_heap_def)
  define e where "e = (unat stack + unat ssize) div 16 * 16"
  have e: "unat ((stack + ssize) AND NOT 0xF) = e" by (simp only: unat_align16 sum e_def)
  obtain q where q: "unat stack = 16 * q" using assms(2) by (metis mult_div_mod_eq add.right_neutral)
  have e2: "e = unat stack + unat ssize div 16 * 16" by (simp add: e_def q)
  have le: "SIZEOF_REGISTERS \<le> (stack + ssize) AND NOT 0xF"
    unfolding word_le_nat_alt e using st e2 by simp
  have top: "unat (frame_top stack ssize) = e - 208"
    unfolding frame_top_def unat_sub[OF le] e by simp
  show "unat stack \<le> unat (frame_top stack ssize) \<and> unat (frame_top stack ssize) + 208 \<le> unat stack + unat ssize"
    if "208 \<le> unat ssize"
  proof -
    have "13 \<le> unat ssize div 16" using div_le_mono[OF that, of 16] by simp
    moreover have "unat ssize div 16 * 16 \<le> unat ssize" by simp
    ultimately show ?thesis unfolding top e2 by linarith
  qed
  show "unat (frame_top stack ssize) < unat stack" if "unat ssize < 208"
  proof -
    have "unat ssize div 16 * 16 \<le> unat ssize" by simp
    then show ?thesis unfolding top e2 using that st by linarith
  qed
  show "unat (frame_top stack ssize) mod 16 = 0"
    unfolding top e2 q using st q by (auto simp: mod_eq_0_iff_dvd intro!: dvd_diff_nat)
qed

lemma task_create_ok:
  fixes s :: "'a task_state_scheme"
  assumes ptr: "ptr_ok s" and size: "unat ssize \<le> MAX_REQUEST"
    and c: "task_create name entry ssize s = (t, r)" and t: "t \<noteq> 0"
  obtains s1 stack s2 where "task_count_val s < MAX_TASKS" and "kmalloc SIZEOF_TASK s = (t, s1)"
    and "kmalloc ssize s1 = (stack, s2)" and "stack \<noteq> 0" and "stack = t + 80" and "unat stack = unat t + 80"
    and "t = heap_current_ptr s" and "in_heap stack" and "unat stack mod 16 = 0"
    and "unat stack + unat ssize \<le> unat (heap_current_ptr s2)" and "ptr_ok s2"
proof -
  obtain task s1 stack s2 where k: "kmalloc SIZEOF_TASK s = (task, s1)" "kmalloc ssize s1 = (stack, s2)" by (metis surj_pair)
  have n: "task_count_val s < MAX_TASKS" "task \<noteq> 0" "stack \<noteq> 0"
    using task_create_failure(1)[OF ptr size, of name entry] c t k by (auto simp: not_less[symmetric])
  then have e: "task = t" using task_create_success(1)[OF n(1) k(1) n(2) k(2) n(3), of name entry] c by simp
  have "round16 SIZEOF_TASK = 80" by code_simp
  then have p: "t = heap_current_ptr s" "unat (heap_current_ptr s1) = unat t + 80" "ptr_ok s1" "heap_current_ptr s1 = t + 80"
    using kmalloc_ptr[OF ptr, of SIZEOF_TASK] k n(2) e by auto
  have q: "stack = heap_current_ptr s1" "unat (heap_current_ptr s2) = unat stack + unat (round16 ssize)" "ptr_ok s2"
    using kmalloc_ptr[OF p(3) size] k(2) n(3) by auto
  have "unat ssize \<le> unat (round16 ssize)" using size by (intro round16_bounds(1)) simp
  then show thesis using that[OF n(1) _ k(2) n(3)] k(1) e p q by (simp add: ptr_ok_def)
qed

lemma tasks_apart_create:
  fixes s :: "'a task_state_scheme"
  assumes ok: "tasks_ok s" "tasks_apart s" and size: "208 \<le> unat ssize" "unat ssize \<le> MAX_REQUEST"
  shows "tasks_apart (snd (task_create name entry ssize s))"
proof -
  have ptr: "ptr_ok s" and inv: "task_inv s" using ok by (simp_all add: tasks_ok_def)
  obtain t r where c: "task_create name entry ssize s = (t, r)" by force
  have apart: "stack_base (tcbs s u) \<noteq> 0 \<Longrightarrow> unat u + 80 \<le> unat (stack_base (tcbs s u)) \<and> 208 \<le> unat (stack_size (tcbs s u))"
    "task_end s u \<le> unat (heap_current_ptr s)" "\<And>v. v \<in> set (all_tasks s) \<Longrightarrow> unat u < unat v \<Longrightarrow> task_end s u \<le> unat v"
    if "u \<in> set (all_tasks s)" for u using ok(2) that by (auto simp: tasks_apart_def)
  show ?thesis
  proof (cases "t = 0")
    case True
    then have "task_count_val s \<ge> MAX_TASKS \<or> fst (kmalloc SIZEOF_TASK s) = 0 \<or>
      fst (kmalloc ssize (snd (kmalloc SIZEOF_TASK s))) = 0"
      using task_create_null[OF ptr size(2), of name entry] c by simp
    note f = task_create_failure[OF ptr size(2) this, of name entry, unfolded c snd_conv]
    have e: "all_tasks r = all_tasks s" "task_end r u = task_end s u" for u
      by (simp_all add: all_tasks_def task_end_def f)
    show ?thesis unfolding c snd_conv tasks_apart_def e f(2)
      using apart(1,3) order_trans[OF apart(2) f(9)] by blast
  next
    case False
    obtain s1 stack s2 where k: "task_count_val s < MAX_TASKS" "kmalloc SIZEOF_TASK s = (t, s1)"
      "kmalloc ssize s1 = (stack, s2)" "stack \<noteq> 0" "stack = t + 80" "unat stack = unat t + 80"
      "t = heap_current_ptr s" "in_heap stack" "unat stack mod 16 = 0"
      "unat stack + unat ssize \<le> unat (heap_current_ptr s2)" "ptr_ok s2"
      using task_create_ok[OF ptr size(2) c False] by blast
    note r = task_create_success[OF k(1,2) False k(3,4), of name entry, unfolded c snd_conv]
    have app: "all_tasks r = all_tasks s @ [t]" using inv k(1) r(4,5) by (intro all_tasks_append) (simp_all add: task_inv_def)
    have low: "unat u + 80 \<le> unat t" if "u \<in> set (all_tasks s)" for u
      using ok(1) that k(7) unfolding tasks_ok_def by blast
    have old: "tcbs r u = tcbs s u" "task_end r u = task_end s u" if "u \<in> set (all_tasks s)" for u
      using r(2) low[OF that] by (auto simp: task_end_def)
    have new: "stack_base (tcbs r t) = stack" "stack_size (tcbs r t) = ssize" "task_end r t = unat stack + unat ssize"
      using k(4) by (simp_all add: r(2) new_tcb_def task_end_def)
    have hp: "unat (heap_current_ptr s) \<le> unat (heap_current_ptr r)" using k(6,7,10) r(8) by simp
    have A: "(stack_base (tcbs r u) \<noteq> 0 \<longrightarrow> unat u + 80 \<le> unat (stack_base (tcbs r u)) \<and> 208 \<le> unat (stack_size (tcbs r u))) \<and>
        task_end r u \<le> unat (heap_current_ptr r) \<and> (\<forall>v \<in> set (all_tasks r). unat u < unat v \<longrightarrow> task_end r u \<le> unat v)"
      if "u \<in> set (all_tasks s)" for u
      using apart[OF that] hp unfolding app old[OF that] by (auto simp: k(7))
    have B: "(stack_base (tcbs r t) \<noteq> 0 \<longrightarrow> unat t + 80 \<le> unat (stack_base (tcbs r t)) \<and> 208 \<le> unat (stack_size (tcbs r t))) \<and>
        task_end r t \<le> unat (heap_current_ptr r) \<and> (\<forall>v \<in> set (all_tasks r). unat t < unat v \<longrightarrow> task_end r t \<le> unat v)"
      using k(6,10) size(1) r(8) low unfolding app new by fastforce
    show ?thesis unfolding c snd_conv tasks_apart_def using A B by (simp add: app)
  qed
qed

lemma tasks_apart_event:
  assumes "tasks_ok s" and "tasks_apart s"
  shows "tasks_apart (sched_step e s)"
proof -
  have inv: "task_inv s" using assms(1) by (simp add: tasks_ok_def)
  show ?thesis using assms(2) unfolding tasks_apart_def task_end_def sched_step_fields[OF inv] .
qed

lemma task_reach_ok: "task_reach s \<Longrightarrow> tasks_ok s \<and> tasks_apart s"
  by (induction rule: task_reach.induct)
    (auto intro: tasks_ok_init tasks_ok_create tasks_ok_event tasks_apart_create tasks_apart_event)

section \<open>A kernel without tasks\<close>

definition example_start :: task_state where
  "example_start = \<lparr>mem = mem example_heap, hw_trace = [], vga_buffer = blank_screen,
     vga_cursor_x = 0, vga_cursor_y = 0, vga_color = 15, bitmap = bitmap example_heap,
     total_pages = total_pages example_heap, used_pages = used_pages example_heap,
     cr3 = 0x100000, current_pml4_phys = 0x100000,
     heap_current_ptr = HEAP_START, heap_total_alloc = 0, pit_ticks = 0, scheduler_enabled = False,
     tcbs = (\<lambda>_. example_tcb 0 TASK_STATE_READY 0), frames = (\<lambda>a. initial_frame 0 a),
     task_list = replicate MAX_TASKS 0, task_count_val = 0, current_task = 0, next_pid = 1\<rparr>"

lemma heap_ok_same:
  assumes "bitmap s = bitmap t" "total_pages s = total_pages t" "used_pages s = used_pages t" "mem s = mem t"
    "current_pml4_phys s = current_pml4_phys t"
  shows "heap_ok s = heap_ok t" "free_pages s = free_pages t"
proof -
  have m: "\<And>a. mem s a = mem t a" using assms(4) by simp
  note same = pmm_same[OF assms(1-3), OF m]
  have "translation s va = translation t va" "small_path s va = small_path t va" for va
    by (simp_all add: translation_def small_path_def assms(4,5))
  moreover have "kept_bytes s = kept_bytes t" by (simp add: kept_bytes_def same assms(4,5))
  moreover have "vmm_inv s = vmm_inv t" by (simp add: vmm_inv_def same assms(2,4,5))
  ultimately show "heap_ok s = heap_ok t" by (simp add: heap_ok_def)
  show "free_pages s = free_pages t" by (rule same)
qed

lemma example_start_facts:
  "heap_ok example_start" "ptr_ok example_start" "free_pages example_start = {273..<288}"
  "heap_current_ptr example_start = HEAP_START" "tasks_ok example_start" "task_count_val example_start = 0"
proof -
  have e: "bitmap example_start = bitmap example_heap" "total_pages example_start = total_pages example_heap"
    "used_pages example_start = used_pages example_heap" "mem example_start = mem example_heap"
    "current_pml4_phys example_start = current_pml4_phys example_heap"
    by (simp_all add: example_start_def example_heap_def)
  show "heap_ok example_start" "free_pages example_start = {273..<288}"
    using heap_ok_same[OF e] example_heap_ok(1,3) by simp_all
  show ptr: "ptr_ok example_start" by (simp add: ptr_ok_def example_start_def in_heap_def)
  show "heap_current_ptr example_start = HEAP_START" "task_count_val example_start = 0"
    by (simp_all add: example_start_def)
  have "all_tasks example_start = []" by (simp add: all_tasks_def example_start_def)
  then show "tasks_ok example_start"
    using ptr by (simp add: tasks_ok_def task_inv_def) (simp add: example_start_def)
qed

lemma example_create:
  assumes "n \<noteq> 0" and "unat n \<le> 1024"
  shows "fst (task_create name entry n example_start) = HEAP_START"
proof -
  have r: "round16 SIZEOF_TASK = 80" by code_simp
  obtain t u where t: "kmalloc SIZEOF_TASK example_start = (HEAP_START, t)"
    "t = u\<lparr>heap_current_ptr := HEAP_START + 80, heap_total_alloc := heap_total_alloc example_start + 80\<rparr>"
    "heap_ok t" "\<forall>k < 80. translation t (HEAP_START + of_nat k) \<noteq> None"
  proof -
    have p: "unat (heap_current_ptr example_start) + unat (round16 SIZEOF_TASK) < 0xFFFF800001000000"
      "4 * (unat SIZEOF_TASK div 4096 + 3) \<le> card (free_pages example_start)" "SIZEOF_TASK \<noteq> 0"
      "unat SIZEOF_TASK \<le> MAX_REQUEST" "unat SIZEOF_TASK = 80"
      by (simp_all add: r example_start_facts(3,4))
    obtain t u where "kmalloc SIZEOF_TASK example_start = (heap_current_ptr example_start, t)"
      "t = u\<lparr>heap_current_ptr := heap_current_ptr example_start + round16 SIZEOF_TASK,
         heap_total_alloc := heap_total_alloc example_start + round16 SIZEOF_TASK\<rparr>" "heap_ok t"
      "\<forall>k < unat SIZEOF_TASK. translation t (heap_current_ptr example_start + of_nat k) \<noteq> None"
      by (rule kmalloc_success[OF example_start_facts(1,2) p(3,4,1,2)])
    then show thesis unfolding r example_start_facts(4) p(5) by (rule that)
  qed
  have "(0 :: nat) < 80" by simp
  then have "translation t (HEAP_START + of_nat 0) \<noteq> None" using t(4) by blast
  then have "translation t HEAP_START \<noteq> None" by simp
  moreover have "heap_current_ptr t = HEAP_START + 80" by (simp add: t(2))
  ultimately have k2: "fst (kmalloc n t) = HEAP_START + 80" using kmalloc_one_mapped[OF t(3), of 80] assms by simp
  obtain s2 where k2': "kmalloc n t = (HEAP_START + 80, s2)" using k2 by (metis prod.collapse)
  show ?thesis
    by (rule task_create_success(1)[OF _ t(1) _ k2']) (simp_all add: example_start_facts)
qed

section \<open>Properties\<close>

text \<open>
  C21: in every state the task subsystem reaches from \<^verbatim>\<open>task_init\<close> by creating tasks with stacks
  of at least 208 bytes (also unsuccessfully), switching, sleeping, exiting and timer ticks,
  the listed tasks have pairwise different PIDs, and their memory, a control block followed by
  a stack, lies in the allocated heap, pairwise disjoint; the current task is listed, at most
  one task is RUNNING and that one is current, and there are at most 64 tasks.
\<close>

theorem task_table_invariant:
  assumes "task_reach s"
  shows "task_count_val s \<le> MAX_TASKS \<and> length (all_tasks s) = task_count_val s \<and> distinct (all_tasks s) \<and>
    (current_task s = 0 \<or> current_task s \<in> set (all_tasks s)) \<and>
    (\<forall>t \<in> set (all_tasks s). task_st (tcbs s t) = TASK_STATE_RUNNING \<longrightarrow> t = current_task s) \<and>
    (\<forall>t \<in> set (all_tasks s). in_heap t \<and> unat t + 80 \<le> task_end s t \<and> task_end s t \<le> unat (heap_current_ptr s) \<and>
       (stack_base (tcbs s t) \<noteq> 0 \<longrightarrow> unat t + 80 \<le> unat (stack_base (tcbs s t)) \<and> 208 \<le> unat (stack_size (tcbs s t)))) \<and>
    (\<forall>t \<in> set (all_tasks s). \<forall>u \<in> set (all_tasks s). t \<noteq> u \<longrightarrow>
       pid (tcbs s t) \<noteq> pid (tcbs s u) \<and> (task_end s t \<le> unat u \<or> task_end s u \<le> unat t))"
proof -
  have ok: "tasks_ok s" and ap: "tasks_apart s" using task_reach_ok[OF assms] by auto
  have inv: "task_inv s" using ok by (simp add: tasks_ok_def)
  have one: "in_heap t \<and> unat t + 80 \<le> task_end s t \<and> task_end s t \<le> unat (heap_current_ptr s) \<and>
      (stack_base (tcbs s t) \<noteq> 0 \<longrightarrow> unat t + 80 \<le> unat (stack_base (tcbs s t)) \<and> 208 \<le> unat (stack_size (tcbs s t)))"
    if "t \<in> set (all_tasks s)" for t
    using ok ap that unfolding tasks_ok_def tasks_apart_def by (auto simp: task_end_def)
  have "pid (tcbs s t) \<noteq> pid (tcbs s u) \<and> (task_end s t \<le> unat u \<or> task_end s u \<le> unat t)"
    if "t \<in> set (all_tasks s)" "u \<in> set (all_tasks s)" "t \<noteq> u" for t u
  proof
    show "pid (tcbs s t) \<noteq> pid (tcbs s u)" using ok that unfolding tasks_ok_def inj_on_def by blast
    have "unat t < unat u \<or> unat u < unat t" using that(3) by (metis linorder_neqE_nat unsigned_word_eqI)
    then show "task_end s t \<le> unat u \<or> task_end s u \<le> unat t" using ap that(1,2) unfolding tasks_apart_def by blast
  qed
  then show ?thesis using one ok length_all_tasks[OF inv] unfolding tasks_ok_def task_inv_def by blast
qed

lemma task_table_invariant_witness:
  "let s = sched_step (Switch 0x5000) (snd (task_create (cstr ''worker'') 0x1000 512 (task_init example_start)))
   in distinct (all_tasks s) \<and> task_count_val s \<le> MAX_TASKS"
proof -
  have "208 \<le> unat (512 :: u64)" "unat (512 :: u64) \<le> MAX_REQUEST" by simp_all
  note s = task_reach.event[OF task_reach.create[OF task_reach.init[OF example_start_facts(2)] this],
      of "Switch 0x5000" "cstr ''worker''" "0x1000"]
  show ?thesis using task_table_invariant[OF s] unfolding Let_def by blast
qed

text \<open>
  C22: a task that \<^verbatim>\<open>task_create\<close> returns is appended to the list under a new PID, READY
  (RUNNING as the very first task), and no other control block or frame changes. With a
  stack of at least 208 bytes its initial frame, with the entry point and interrupts
  enabled, lies 16-byte aligned inside its own stack, behind its control block.
\<close>

theorem task_create_correct:
  assumes "tasks_ok s" and "208 \<le> unat ssize" and "unat ssize \<le> MAX_REQUEST"
    and "task_create name entry ssize s = (t, r)" and "t \<noteq> 0"
  shows "all_tasks r = all_tasks s @ [t] \<and> tasks_ok r \<and>
    (\<forall>u \<in> set (all_tasks s). tcbs r u = tcbs s u \<and> pid (tcbs s u) \<noteq> pid (tcbs r t)) \<and>
    task_st (tcbs r t) = (if current_task s = 0 then TASK_STATE_RUNNING else TASK_STATE_READY) \<and>
    (let c = tcbs r t; top = task_regs c in
       frames r = (frames s)(top := initial_frame entry top) \<and>
       unat t + 80 \<le> unat (stack_base c) \<and> unat (stack_base c) \<le> unat top \<and> unat top mod 16 = 0 \<and>
       unat top + 208 \<le> unat (stack_base c) + unat ssize \<and>
       unat (stack_base c) + unat ssize \<le> unat (heap_current_ptr r))"
proof -
  have ptr: "ptr_ok s" and inv: "task_inv s" using assms(1) by (simp_all add: tasks_ok_def)
  obtain s1 stack s2 where k: "task_count_val s < MAX_TASKS" "kmalloc SIZEOF_TASK s = (t, s1)"
    "kmalloc ssize s1 = (stack, s2)" "stack \<noteq> 0" "stack = t + 80" "unat stack = unat t + 80"
    "t = heap_current_ptr s" "in_heap stack" "unat stack mod 16 = 0"
    "unat stack + unat ssize \<le> unat (heap_current_ptr s2)" "ptr_ok s2"
    using task_create_ok[OF ptr assms(3-5)] by blast
  note c = task_create_success[OF k(1,2) assms(5) k(3,4), of name entry, unfolded assms(4) snd_conv]
  have ok: "tasks_ok r" using tasks_ok_create[OF assms(1,3), of name entry] assms(4) by simp
  have app: "all_tasks r = all_tasks s @ [t]" using inv k(1) c(4,5) by (intro all_tasks_append) (simp_all add: task_inv_def)
  have fresh: "u \<noteq> t" if "u \<in> set (all_tasks s)" for u
    using assms(1) that k(7) unfolding tasks_ok_def by fastforce
  have new: "tcbs r t = new_tcb name stack ssize s" using c(2) by simp
  have old: "tcbs r u = tcbs s u" if "u \<in> set (all_tasks s)" for u using c(2) fresh[OF that] by simp
  have pids: "pid (tcbs s u) \<noteq> pid (tcbs r t)" if "u \<in> set (all_tasks s)" for u
  proof -
    have "unat (pid (tcbs s u)) < unat (next_pid s)" using assms(1) that unfolding tasks_ok_def by blast
    then show ?thesis using new by (auto simp: new_tcb_def)
  qed
  have "unat stack + unat ssize < 0xFFFF800001000000" using k(10,11) by (simp add: ptr_ok_def in_heap_def)
  note fb = frame_top_bounds[OF k(8,9) this]
  show ?thesis
    using app ok old pids fb(1)[OF assms(2)] fb(3) k(6,10) c(3,8) unfolding new
    by (simp add: new_tcb_def Let_def)
qed

lemma task_create_correct_witness:
  "\<exists>r. task_create (cstr ''worker'') 0x1000 512 example_start = (HEAP_START, r) \<and> all_tasks r = [HEAP_START] \<and>
     unat (task_regs (tcbs r HEAP_START)) mod 16 = 0 \<and>
     unat (stack_base (tcbs r HEAP_START)) \<le> unat (task_regs (tcbs r HEAP_START))"
proof -
  obtain r where r: "task_create (cstr ''worker'') 0x1000 512 example_start = (HEAP_START, r)"
    using example_create[of 512 "cstr ''worker''" "0x1000"] by (cases "task_create (cstr ''worker'') 0x1000 512 example_start") simp
  have "all_tasks example_start = []" by (simp add: all_tasks_def example_start_def)
  then show ?thesis
    using task_create_correct[OF example_start_facts(5) _ _ r] r by (simp add: Let_def)
qed

text \<open>
  C23: \<^verbatim>\<open>task_create\<close> returns NULL exactly when the table is full or one of its two
  allocations fails, and then the task table, all control blocks, frames and the next PID
  are as before.
\<close>

theorem task_create_error:
  assumes "ptr_ok s" and "unat ssize \<le> MAX_REQUEST"
  shows "let (t, r) = task_create name entry ssize s in
    (t = 0 \<longleftrightarrow> MAX_TASKS \<le> task_count_val s \<or> fst (kmalloc SIZEOF_TASK s) = 0 \<or>
       fst (kmalloc ssize (snd (kmalloc SIZEOF_TASK s))) = 0) \<and>
    (t = 0 \<longrightarrow> task_list r = task_list s \<and> task_count_val r = task_count_val s \<and> tcbs r = tcbs s \<and>
       frames r = frames s \<and> current_task r = current_task s \<and> next_pid r = next_pid s)"
proof -
  obtain t r where c: "task_create name entry ssize s = (t, r)" by force
  let ?cond = "MAX_TASKS \<le> task_count_val s \<or> fst (kmalloc SIZEOF_TASK s) = 0 \<or>
       fst (kmalloc ssize (snd (kmalloc SIZEOF_TASK s))) = 0"
  have "t = 0 \<longleftrightarrow> ?cond" using task_create_null[OF assms, of name entry] c by simp
  then show ?thesis using task_create_failure(2-7)[OF assms, of name entry] unfolding c by (simp add: Let_def)
qed

lemma task_create_error_witness:
  "let s = example_start\<lparr>task_count_val := 64\<rparr> in fst (task_create (cstr ''worker'') 0x1000 512 s) = 0 \<and>
     task_list (snd (task_create (cstr ''worker'') 0x1000 512 s)) = task_list s"
proof -
  have "ptr_ok (example_start\<lparr>task_count_val := 64\<rparr>)" using example_start_facts(2) by (simp add: ptr_ok_def)
  then show ?thesis
    using task_create_error[of "example_start\<lparr>task_count_val := 64\<rparr>" 512 "cstr ''worker''" "0x1000"]
    by (simp add: Let_def split_beta)
qed

text \<open>
  The stack size is not checked. With less than 208 bytes the initial frame starts below
  the stack and overlaps the new task's own control block, which lies directly before it.
\<close>

theorem task_create_small_stack:
  assumes "ptr_ok s" and "unat ssize < 208"
    and "task_create name entry ssize s = (t, r)" and "t \<noteq> 0"
  shows "unat (task_regs (tcbs r t)) < unat (stack_base (tcbs r t)) \<and>
    (\<exists>a. unat t \<le> a \<and> a < unat t + 80 \<and>
       unat (task_regs (tcbs r t)) \<le> a \<and> a < unat (task_regs (tcbs r t)) + 208)"
proof -
  have size: "unat ssize \<le> MAX_REQUEST" using assms(2) by simp
  obtain s1 stack s2 where k: "task_count_val s < MAX_TASKS" "kmalloc SIZEOF_TASK s = (t, s1)"
    "kmalloc ssize s1 = (stack, s2)" "stack \<noteq> 0" "stack = t + 80" "unat stack = unat t + 80"
    "t = heap_current_ptr s" "in_heap stack" "unat stack mod 16 = 0"
    "unat stack + unat ssize \<le> unat (heap_current_ptr s2)" "ptr_ok s2"
    using task_create_ok[OF assms(1) size assms(3,4)] by blast
  have c: "tcbs r t = new_tcb name stack ssize s"
    using task_create_success(2)[OF k(1,2) assms(4) k(3,4), of name entry] assms(3) by simp
  have lt: "unat stack + unat ssize < 0xFFFF800001000000" using k(10,11) by (simp add: ptr_ok_def in_heap_def)
  note lo = frame_top_bounds(2)[OF k(8,9) lt assms(2)]
  have hi: "unat stack \<le> unat (frame_top stack ssize) + 208"
  proof -
    have st: "0xFFFF800000000000 \<le> unat stack" using k(8) by (simp add: in_heap_def)
    have sum: "unat (stack + ssize) = unat stack + unat ssize" using lt by (intro unat_add_less) simp
    have e: "unat ((stack + ssize) AND NOT 0xF) = (unat stack + unat ssize) div 16 * 16" by (simp only: unat_align16 sum)
    obtain q where "unat stack = 16 * q" using k(9) by (metis mult_div_mod_eq add.right_neutral)
    then have ge: "unat stack \<le> unat ((stack + ssize) AND NOT 0xF)" unfolding e by simp
    then have "SIZEOF_REGISTERS \<le> (stack + ssize) AND NOT 0xF" using st by (simp add: word_le_nat_alt)
    then show ?thesis using ge by (simp add: frame_top_def unat_sub)
  qed
  have "unat t \<le> unat stack - 1" "unat stack - 1 < unat t + 80" using k(6) by simp_all
  then show ?thesis using lo hi k(6) by (intro conjI exI[of _ "unat stack - 1"]) (auto simp: c new_tcb_def)
qed

lemma task_create_small_stack_witness:
  "\<exists>r. task_create (cstr ''tiny'') 0x1000 64 example_start = (HEAP_START, r) \<and>
     unat (task_regs (tcbs r HEAP_START)) < unat (stack_base (tcbs r HEAP_START))"
proof -
  obtain r where r: "task_create (cstr ''tiny'') 0x1000 64 example_start = (HEAP_START, r)"
    using example_create[of 64 "cstr ''tiny''" "0x1000"] by (cases "task_create (cstr ''tiny'') 0x1000 64 example_start") simp
  show ?thesis using task_create_small_stack[OF example_start_facts(2) _ r] r by simp
qed

end
