(* ===== verification/Pic.thy ===== *)
theory Pic
  imports Machine
begin

text \<open>
  The driver of the two 8259 interrupt controllers, \<^verbatim>\<open>src/kernel/pic.c\<close>, and the part of
  the controllers' documented behaviour that the driver relies on: how a controller reacts to
  the bytes written to its two ports. The driver reads the mask registers back, so what a
  read of the data port answers is the hypothesis \<open>reads_masks\<close> about the device parameter.
\<close>

section \<open>pic.c\<close>

abbreviation PIC1_COMMAND :: u16 where "PIC1_COMMAND \<equiv> 0x20"
abbreviation PIC1_DATA :: u16 where "PIC1_DATA \<equiv> 0x21"
abbreviation PIC2_COMMAND :: u16 where "PIC2_COMMAND \<equiv> 0xA0"
abbreviation PIC2_DATA :: u16 where "PIC2_DATA \<equiv> 0xA1"
abbreviation PIC_EOI :: u8 where "PIC_EOI \<equiv> 0x20"
abbreviation ICW1_ICW4 :: u8 where "ICW1_ICW4 \<equiv> 0x01"
abbreviation ICW1_INIT :: u8 where "ICW1_INIT \<equiv> 0x10"
abbreviation ICW4_8086 :: u8 where "ICW4_8086 \<equiv> 0x01"

definition pic_remap :: "device \<Rightarrow> u32 \<Rightarrow> u32 \<Rightarrow> 'a mach_scheme \<Rightarrow> 'a mach_scheme" where
  "pic_remap dev offset1 offset2 s =
     (let (a1, s) = inb dev PIC1_DATA s;
          (a2, s) = inb dev PIC2_DATA s;
          s = io_wait (outb PIC1_COMMAND (ICW1_INIT OR ICW1_ICW4) s);
          s = io_wait (outb PIC2_COMMAND (ICW1_INIT OR ICW1_ICW4) s);
          s = io_wait (outb PIC1_DATA (ucast offset1) s);
          s = io_wait (outb PIC2_DATA (ucast offset2) s);
          s = io_wait (outb PIC1_DATA 0x04 s);
          s = io_wait (outb PIC2_DATA 0x02 s);
          s = io_wait (outb PIC1_DATA ICW4_8086 s);
          s = io_wait (outb PIC2_DATA ICW4_8086 s);
          s = outb PIC1_DATA a1 s
      in outb PIC2_DATA a2 s)"

definition pic_disable :: "'a mach_scheme \<Rightarrow> 'a mach_scheme" where
  "pic_disable s = outb PIC2_DATA 0xFF (outb PIC1_DATA 0xFF s)"

definition pic_send_eoi :: "u8 \<Rightarrow> 'a mach_scheme \<Rightarrow> 'a mach_scheme" where
  "pic_send_eoi irq s =
     (let s = (if irq \<ge> 8 then outb PIC2_COMMAND PIC_EOI s else s) in outb PIC1_COMMAND PIC_EOI s)"

text \<open>The port and the bit number, the common start of the two mask functions.\<close>

definition pic_line :: "u8 \<Rightarrow> u16 \<times> u8" where
  "pic_line irq_line = (if irq_line < 8 then (PIC1_DATA, irq_line) else (PIC2_DATA, irq_line - 8))"

definition pic_set_mask :: "device \<Rightarrow> u8 \<Rightarrow> 'a mach_scheme \<Rightarrow> 'a mach_scheme" where
  "pic_set_mask dev irq_line s =
     (let (port, irq_line) = pic_line irq_line;
          (v, s) = inb dev port s;
          value = ucast (ucast v OR push_bit (unat irq_line) (1 :: u32))
      in outb port value s)"

definition pic_clear_mask :: "device \<Rightarrow> u8 \<Rightarrow> 'a mach_scheme \<Rightarrow> 'a mach_scheme" where
  "pic_clear_mask dev irq_line s =
     (let (port, irq_line) = pic_line irq_line;
          (v, s) = inb dev port s;
          value = ucast (ucast v AND NOT (push_bit (unat irq_line) (1 :: u32)))
      in outb port value s)"

section \<open>The controller\<close>

text \<open>
  An 8259: the initialisation byte it expects next (0 none, 2 to 4 for ICW2 to ICW4), whether
  ICW1 announced an ICW4 and a single controller, the vector base and the mask register.
  Writing ICW1 clears the mask; a data byte outside an initialisation sets it.
\<close>

record pic_chip =
  expect :: nat
  need_icw4 :: bool
  single :: bool
  vector_base :: u8
  imr :: u8

definition chip_command :: "u8 \<Rightarrow> pic_chip \<Rightarrow> pic_chip" where
  "chip_command v c =
     (if bit v 4 then c\<lparr>expect := 2, need_icw4 := bit v 0, single := bit v 1, imr := 0\<rparr> else c)"

definition chip_data :: "u8 \<Rightarrow> pic_chip \<Rightarrow> pic_chip" where
  "chip_data v c =
     (if expect c = 2 then c\<lparr>vector_base := v AND 0xF8,
        expect := (if single c then (if need_icw4 c then 4 else 0) else 3)\<rparr>
      else if expect c = 3 then c\<lparr>expect := (if need_icw4 c then 4 else 0)\<rparr>
      else if expect c = 4 then c\<lparr>expect := 0\<rparr>
      else c\<lparr>imr := v\<rparr>)"

fun chip_event :: "u16 \<Rightarrow> u16 \<Rightarrow> hw_event \<Rightarrow> pic_chip \<Rightarrow> pic_chip" where
  "chip_event cmd dat (OutB p v) c =
     (if p = cmd then chip_command v c else if p = dat then chip_data v c else c)"
| "chip_event cmd dat _ c = c"

definition chip_after :: "u16 \<Rightarrow> u16 \<Rightarrow> hw_event list \<Rightarrow> pic_chip \<Rightarrow> pic_chip" where
  "chip_after cmd dat tr c = fold (chip_event cmd dat) tr c"

abbreviation master_after :: "hw_event list \<Rightarrow> pic_chip \<Rightarrow> pic_chip" where
  "master_after \<equiv> chip_after PIC1_COMMAND PIC1_DATA"

abbreviation slave_after :: "hw_event list \<Rightarrow> pic_chip \<Rightarrow> pic_chip" where
  "slave_after \<equiv> chip_after PIC2_COMMAND PIC2_DATA"

text \<open>A device whose data ports answer with the mask registers, from power-on states \<open>m\<close> and \<open>sl\<close>.\<close>

definition reads_masks :: "device \<Rightarrow> pic_chip \<Rightarrow> pic_chip \<Rightarrow> bool" where
  "reads_masks dev m sl \<longleftrightarrow>
     (\<forall>tr. dev tr PIC1_DATA = ucast (imr (master_after tr m)) \<and> dev tr PIC2_DATA = ucast (imr (slave_after tr sl)))"

lemma chip_after_append [simp]: "chip_after cmd dat (tr @ es) c = chip_after cmd dat es (chip_after cmd dat tr c)"
  by (simp add: chip_after_def)

lemma chip_after_simps [simp]:
  "chip_after cmd dat [] c = c" "chip_after cmd dat (e # es) c = chip_after cmd dat es (chip_event cmd dat e c)"
  by (simp_all add: chip_after_def)

definition idle_chip :: "pic_chip \<Rightarrow> bool" where
  "idle_chip c \<longleftrightarrow> expect c = 0"

section \<open>The driver against the controller\<close>

lemma ucast_back [simp]: "ucast (ucast (v :: u8) :: u32) = v"
  by (rule bit_word_eqI) (simp add: bit_simps)

text \<open>The bytes of \<^verbatim>\<open>pic_remap\<close>, with the pauses on port 0x80 in between.\<close>

definition remap_bytes :: "u8 \<Rightarrow> u8 \<Rightarrow> u8 \<Rightarrow> u8 \<Rightarrow> hw_event list" where
  "remap_bytes a b a1 a2 = InB PIC1_DATA a1 # InB PIC2_DATA a2 #
     concat (map (\<lambda>(p, v). [OutB p v, OutB 0x80 0])
       [(PIC1_COMMAND, 0x11), (PIC2_COMMAND, 0x11), (PIC1_DATA, a), (PIC2_DATA, b),
        (PIC1_DATA, 4), (PIC2_DATA, 2), (PIC1_DATA, 1), (PIC2_DATA, 1)]) @
     [OutB PIC1_DATA a1, OutB PIC2_DATA a2]"

lemma pic_remap_bytes:
  assumes "reads_masks dev m sl"
  shows "hw_trace (pic_remap dev a b s) = hw_trace s @
    remap_bytes (ucast a) (ucast b) (imr (master_after (hw_trace s) m)) (imr (slave_after (hw_trace s) sl))"
proof -
  have r: "ucast (dev tr PIC1_DATA) = imr (master_after tr m)" "ucast (dev tr PIC2_DATA) = imr (slave_after tr sl)" for tr
    using assms by (simp_all add: reads_masks_def)
  show ?thesis
    unfolding pic_remap_def inb_def Let_def prod.case r by (simp add: outb_def io_wait_def emit_def remap_bytes_def)
qed

lemma remap_bytes_chips:
  "master_after (remap_bytes a b a1 a2) c =
     c\<lparr>expect := 0, need_icw4 := True, single := False, vector_base := a AND 0xF8, imr := a1\<rparr>"
  "slave_after (remap_bytes a b a1 a2) c =
     c\<lparr>expect := 0, need_icw4 := True, single := False, vector_base := b AND 0xF8, imr := a2\<rparr>"
proof -
  have i: "chip_command 0x11 c = c\<lparr>expect := 2, need_icw4 := True, single := False, imr := 0\<rparr>" for c
    by (simp add: chip_command_def)
  show "master_after (remap_bytes a b a1 a2) c =
     c\<lparr>expect := 0, need_icw4 := True, single := False, vector_base := a AND 0xF8, imr := a1\<rparr>"
    "slave_after (remap_bytes a b a1 a2) c =
     c\<lparr>expect := 0, need_icw4 := True, single := False, vector_base := b AND 0xF8, imr := a2\<rparr>"
    by (simp_all add: remap_bytes_def i chip_data_def)
qed

lemma line_bits:
  fixes v :: u8
  assumes "n < 8"
  shows "ucast (ucast v OR push_bit n (1 :: u32)) = v OR push_bit n 1"
    "ucast (ucast v AND NOT (push_bit n (1 :: u32))) = v AND NOT (push_bit n 1)"
  using assms by (auto intro!: bit_word_eqI simp: bit_simps)

lemma pic_mask_trace:
  assumes "reads_masks dev m sl" and "irq < 16"
  defines "n \<equiv> unat irq mod 8"
  shows "\<exists>v. hw_trace (pic_set_mask dev irq s) = hw_trace s @
      [InB (fst (pic_line irq)) v, OutB (fst (pic_line irq)) (v OR push_bit n 1)] \<and>
    hw_trace (pic_clear_mask dev irq s) = hw_trace s @
      [InB (fst (pic_line irq)) v, OutB (fst (pic_line irq)) (v AND NOT (push_bit n 1))] \<and>
    v = imr (if irq < 8 then master_after (hw_trace s) m else slave_after (hw_trace s) sl)"
proof -
  have n: "n < 8" by (simp add: n_def)
  have l: "unat (snd (pic_line irq)) = n"
  proof (cases "irq < 8")
    case True
    then show ?thesis by (simp add: pic_line_def n_def word_less_nat_alt)
  next
    case False
    then have "unat (irq - 8) = unat irq - 8" by (simp add: unat_sub word_le_nat_alt word_less_nat_alt)
    then show ?thesis using False assms(2)
      by (simp add: pic_line_def n_def word_less_nat_alt) (simp add: le_mod_geq)
  qed
  show ?thesis
    using assms(1) l line_bits[OF n]
    by (auto simp: pic_set_mask_def pic_clear_mask_def port_defs Let_def split_beta reads_masks_def pic_line_def)
qed

section \<open>Interrupt lines\<close>

definition irq_masked :: "pic_chip \<Rightarrow> pic_chip \<Rightarrow> hw_event list \<Rightarrow> nat \<Rightarrow> bool" where
  "irq_masked m sl tr j = (if j < 8 then bit (imr (master_after tr m)) j else bit (imr (slave_after tr sl)) (j - 8))"

definition irq_vector :: "pic_chip \<Rightarrow> pic_chip \<Rightarrow> hw_event list \<Rightarrow> nat \<Rightarrow> nat" where
  "irq_vector m sl tr j = (if j < 8 then unat (vector_base (master_after tr m)) + j
     else unat (vector_base (slave_after tr sl)) + (j - 8))"

definition pics_idle :: "pic_chip \<Rightarrow> pic_chip \<Rightarrow> hw_event list \<Rightarrow> bool" where
  "pics_idle m sl tr \<longleftrightarrow> idle_chip (master_after tr m) \<and> idle_chip (slave_after tr sl)"

lemma set_bit_at: "n < 8 \<Longrightarrow> i < 8 \<Longrightarrow> bit (v OR push_bit n 1 :: u8) i \<longleftrightarrow> i = n \<or> bit v i"
  "n < 8 \<Longrightarrow> i < 8 \<Longrightarrow> bit (v AND NOT (push_bit n 1) :: u8) i \<longleftrightarrow> i \<noteq> n \<and> bit v i"
  by (auto simp: bit_simps)

lemma mask_write:
  assumes "pics_idle m sl tr" and "irq < 16"
  shows "pics_idle m sl (tr @ [InB (fst (pic_line irq)) v, OutB (fst (pic_line irq)) w])"
    "irq_masked m sl (tr @ [InB (fst (pic_line irq)) v, OutB (fst (pic_line irq)) w]) j =
       (if (j < 8) = (irq < 8) then bit w (if j < 8 then j else j - 8) else irq_masked m sl tr j)"
    "irq_vector m sl (tr @ [InB (fst (pic_line irq)) v, OutB (fst (pic_line irq)) w]) j = irq_vector m sl tr j"
  using assms by (auto simp: pics_idle_def idle_chip_def irq_masked_def irq_vector_def pic_line_def chip_data_def)

lemma pic_set_clear:
  assumes dev: "reads_masks dev m sl" and idle: "pics_idle m sl (hw_trace s)" and irq: "irq < 16" and j: "j < 16"
  shows "irq_masked m sl (hw_trace (pic_set_mask dev irq s)) j \<longleftrightarrow> j = unat irq \<or> irq_masked m sl (hw_trace s) j"
    "irq_masked m sl (hw_trace (pic_clear_mask dev irq s)) j \<longleftrightarrow> j \<noteq> unat irq \<and> irq_masked m sl (hw_trace s) j"
    "pics_idle m sl (hw_trace (pic_set_mask dev irq s))" "pics_idle m sl (hw_trace (pic_clear_mask dev irq s))"
    "irq_vector m sl (hw_trace (pic_set_mask dev irq s)) j = irq_vector m sl (hw_trace s) j"
    "irq_vector m sl (hw_trace (pic_clear_mask dev irq s)) j = irq_vector m sl (hw_trace s) j"
proof -
  let ?n = "unat irq mod 8"
  obtain v where t: "hw_trace (pic_set_mask dev irq s) = hw_trace s @
      [InB (fst (pic_line irq)) v, OutB (fst (pic_line irq)) (v OR push_bit ?n 1)]"
    "hw_trace (pic_clear_mask dev irq s) = hw_trace s @
      [InB (fst (pic_line irq)) v, OutB (fst (pic_line irq)) (v AND NOT (push_bit ?n 1))]"
    and v: "v = imr (if irq < 8 then master_after (hw_trace s) m else slave_after (hw_trace s) sl)"
    using pic_mask_trace[OF dev irq] by blast
  define i where "i = (if j < 8 then j else j - 8)"
  have i: "i < 8" using j by (auto simp: i_def less_diff_conv2)
  have n: "?n < 8" by simp
  have u: "unat irq < 16" "irq < 8 \<longleftrightarrow> unat irq < 8" using irq by (simp_all add: word_less_nat_alt)
  have same: "(j = unat irq) = (((j < 8) = (irq < 8)) \<and> i = ?n)"
    using u j by (auto simp: i_def mod_if)
  have m: "irq_masked m sl (hw_trace s) j = bit v i" if "(j < 8) = (irq < 8)"
    using that v by (simp add: irq_masked_def i_def)
  show "irq_masked m sl (hw_trace (pic_set_mask dev irq s)) j \<longleftrightarrow> j = unat irq \<or> irq_masked m sl (hw_trace s) j"
    unfolding t(1) mask_write(2)[OF idle irq] i_def[symmetric] same set_bit_at(1)[OF n i] using m by auto
  show "irq_masked m sl (hw_trace (pic_clear_mask dev irq s)) j \<longleftrightarrow> j \<noteq> unat irq \<and> irq_masked m sl (hw_trace s) j"
    unfolding t(2) mask_write(2)[OF idle irq] i_def[symmetric] same set_bit_at(2)[OF n i] using m by auto
  show "pics_idle m sl (hw_trace (pic_set_mask dev irq s))" "pics_idle m sl (hw_trace (pic_clear_mask dev irq s))"
    unfolding t by (rule mask_write(1)[OF idle irq])+
  show "irq_vector m sl (hw_trace (pic_set_mask dev irq s)) j = irq_vector m sl (hw_trace s) j"
    "irq_vector m sl (hw_trace (pic_clear_mask dev irq s)) j = irq_vector m sl (hw_trace s) j"
    unfolding t by (rule mask_write(3)[OF idle irq])+
qed

lemma pic_remap_lines:
  assumes "reads_masks dev m sl"
  shows "irq_masked m sl (hw_trace (pic_remap dev a b s)) j = irq_masked m sl (hw_trace s) j"
    "irq_vector m sl (hw_trace (pic_remap dev a b s)) j =
       (if j < 8 then unat (ucast a AND 0xF8 :: u8) + j else unat (ucast b AND 0xF8 :: u8) + (j - 8))"
    "pics_idle m sl (hw_trace (pic_remap dev a b s))"
  by (simp_all add: irq_masked_def irq_vector_def pics_idle_def idle_chip_def pic_remap_bytes[OF assms] remap_bytes_chips)

text \<open>
  C32: with controllers that follow the 8259 protocol and answer reads of their data ports with
  their mask registers, \<^verbatim>\<open>pic_remap(32, 40)\<close> moves IRQ \<open>j\<close> to vector \<open>32 + j\<close> for all sixteen
  lines and keeps every mask bit; \<^verbatim>\<open>pic_set_mask\<close> and \<^verbatim>\<open>pic_clear_mask\<close> mask and unmask
  exactly the given line; an end of interrupt changes neither masks nor vectors.
\<close>

theorem pic_lines_correct:
  assumes "reads_masks dev m sl" and "pics_idle m sl (hw_trace s)" and "irq < 16" and "j < 16"
  shows "irq_vector m sl (hw_trace (pic_remap dev 32 40 s)) j = 32 + j \<and>
    irq_masked m sl (hw_trace (pic_remap dev 32 40 s)) j = irq_masked m sl (hw_trace s) j \<and>
    (irq_masked m sl (hw_trace (pic_set_mask dev irq s)) j \<longleftrightarrow> j = unat irq \<or> irq_masked m sl (hw_trace s) j) \<and>
    (irq_masked m sl (hw_trace (pic_clear_mask dev irq s)) j \<longleftrightarrow> j \<noteq> unat irq \<and> irq_masked m sl (hw_trace s) j) \<and>
    irq_masked m sl (hw_trace (pic_send_eoi irq s)) j = irq_masked m sl (hw_trace s) j \<and>
    irq_vector m sl (hw_trace (pic_send_eoi irq s)) j = irq_vector m sl (hw_trace s) j"
proof -
  have "chip_command PIC_EOI c = c" for c by (simp add: chip_command_def)
  then have "irq_masked m sl (hw_trace (pic_send_eoi irq s)) j = irq_masked m sl (hw_trace s) j"
    "irq_vector m sl (hw_trace (pic_send_eoi irq s)) j = irq_vector m sl (hw_trace s) j"
    by (simp_all add: pic_send_eoi_def port_defs Let_def irq_masked_def irq_vector_def)
  moreover have "irq_vector m sl (hw_trace (pic_remap dev 32 40 s)) j = 32 + j"
    using assms(4) by (simp add: pic_remap_lines[OF assms(1)])
  ultimately show ?thesis using pic_remap_lines(1)[OF assms(1)] pic_set_clear(1,2)[OF assms] by simp
qed

text \<open>Two controllers at power-on, everything masked, and the device they make.\<close>

definition example_chip :: pic_chip where
  "example_chip = \<lparr>expect = 0, need_icw4 = False, single = False, vector_base = 8, imr = 0xFF\<rparr>"

definition pic_device :: device where
  "pic_device tr p = (if p = PIC1_DATA then ucast (imr (master_after tr example_chip))
     else if p = PIC2_DATA then ucast (imr (slave_after tr example_chip)) else 0)"

lemma pic_device_reads: "reads_masks pic_device example_chip example_chip"
  by (simp add: reads_masks_def pic_device_def)

lemma pic_lines_correct_witness:
  "let s = \<lparr>mem = (\<lambda>_. 0), hw_trace = []\<rparr> in
     irq_vector example_chip example_chip (hw_trace (pic_remap pic_device 32 40 s)) 9 = 41 \<and>
     \<not> irq_masked example_chip example_chip (hw_trace (pic_clear_mask pic_device 1 s)) 1"
  using pic_lines_correct[OF pic_device_reads, of "\<lparr>mem = (\<lambda>_. 0), hw_trace = []\<rparr>" 1 9]
    pic_lines_correct[OF pic_device_reads, of "\<lparr>mem = (\<lambda>_. 0), hw_trace = []\<rparr>" 1 1]
  by (simp add: pics_idle_def idle_chip_def example_chip_def)

end
