(* ===== verification/Isr.thy ===== *)
theory Isr
  imports Task Pic
begin

text \<open>
  Exceptions, the table of IRQ handlers and the timer: \<^verbatim>\<open>src/kernel/isr.c\<close> without its
  dispatcher, which needs the keyboard handler too and is in theory \<open>Irq\<close>, and the rest of
  \<^verbatim>\<open>pit.c\<close>. A handler is a function pointer in C; the kernel installs two, so the pointer is
  one of three values here.
\<close>

section \<open>State\<close>

datatype irq_handler_t = NO_HANDLER | PIT_IRQ_HANDLER | KEYBOARD_IRQ_HANDLER

record irq_state = task_state +
  irq_handlers :: "irq_handler_t list"
  new_task_regs :: u64

text \<open>Code that stops the machine in a \<^verbatim>\<open>hlt\<close> loop does not return.\<close>

datatype 's control = Returns 's | Halts 's

fun ctl_state :: "'s control \<Rightarrow> 's" where
  "ctl_state (Returns s) = s"
| "ctl_state (Halts s) = s"

section \<open>isr.c\<close>

definition exception_messages :: "u8 list list" where
  "exception_messages = map cstr
    [''Division By Zero'', ''Debug'', ''Non Maskable Interrupt'', ''Breakpoint'', ''Overflow'',
     ''Bound Range Exceeded'', ''Invalid Opcode'', ''Device Not Available'', ''Double Fault'',
     ''Coprocessor Segment Overrun'', ''Invalid TSS'', ''Segment Not Present'', ''Stack Fault'',
     ''General Protection Fault'', ''Page Fault'', ''Reserved'', ''x87 FPU Error'',
     ''Alignment Check'', ''Machine Check'', ''SIMD Floating-Point Exception'', ''Reserved'',
     ''Reserved'', ''Reserved'', ''Reserved'', ''Reserved'', ''Reserved'', ''Reserved'',
     ''Reserved'', ''Reserved'', ''Reserved'', ''Security Exception'', ''Reserved'']"

text \<open>A label and a register value, as the exception screen prints them.\<close>

definition print_reg :: "string \<Rightarrow> u64 \<Rightarrow> 'a vga_state_scheme \<Rightarrow> 'a vga_state_scheme" where
  "print_reg label v s = vga_print_hex v (vga_print (cstr label) s)"

definition isr_handler :: "u64 \<Rightarrow> 'a task_state_scheme \<Rightarrow> 'a task_state_scheme control" where
  "isr_handler regs s =
     (let r = frames s regs;
          s = vga_set_color VGA_WHITE VGA_RED s;
          s = vga_println [] s;
          s = vga_println (cstr ''==========================================='') s;
          s = vga_print (cstr ''  EXCEPTION: '') s;
          s = (if r_int_no r < 32 then vga_println (exception_messages ! unat (r_int_no r)) s
               else vga_println [] (vga_print_dec (r_int_no r) (vga_print (cstr ''Unknown Exception #'') s)));
          s = vga_println (cstr ''==========================================='') s;
          s = vga_set_color VGA_LIGHT_GRAY VGA_BLACK s;
          s = vga_println [] (vga_print_dec (r_int_no r) (vga_print (cstr ''  INT#:    '') s));
          s = vga_println [] (print_reg ''  ERRCODE: 0x'' (r_err_code r) s);
          s = vga_println [] (print_reg ''  RIP:     0x'' (r_rip r) s);
          s = vga_println [] (print_reg ''  CS:      0x'' (r_cs r) s);
          s = vga_println [] (print_reg ''  RFLAGS:  0x'' (r_rflags r) s);
          s = vga_println [] (print_reg ''  RSP:     0x'' (r_rsp r) s);
          s = vga_println [] (print_reg ''  SS:      0x'' (r_ss r) s);
          s = vga_println [] s;
          s = print_reg ''  RAX: 0x'' (r_rax r) s;
          s = vga_println [] (print_reg ''  RBX: 0x'' (r_rbx r) s);
          s = print_reg ''  RCX: 0x'' (r_rcx r) s;
          s = vga_println [] (print_reg ''  RDX: 0x'' (r_rdx r) s);
          s = vga_println (cstr ''==========================================='') s;
          s = vga_set_color VGA_WHITE VGA_BLACK s;
          s = vga_println [] s;
          s = vga_println (cstr ''System halted.'') s
      in Halts (emit Hlt (emit Cli s)))"

text \<open>Whatever the exception: the console is written, interrupts are off, the processor halts.\<close>

lemma vga_only_print_reg: "vga_only s (print_reg l v s)"
  unfolding print_reg_def by (rule vga_only_trans[OF vga_only_print vga_only_print_hex])

lemma isr_handler_halts: "\<exists>t. vga_only s t \<and> isr_handler regs s = Halts (emit Hlt (emit Cli t))"
  unfolding isr_handler_def Let_def
  by (rule exI, rule conjI[rotated], rule refl)
     (intro vga_only_trans[OF _ vga_only_println] vga_only_trans[OF _ vga_only_print]
        vga_only_trans[OF _ vga_only_print_dec] vga_only_trans[OF _ vga_only_print_reg]
        vga_only_trans[OF _ vga_only_set_color] vga_only_set_color conjI impI | simp)+

definition irq_set_new_stack :: "u64 \<Rightarrow> 'a irq_state_scheme \<Rightarrow> 'a irq_state_scheme" where
  "irq_set_new_stack new_regs s = s\<lparr>new_task_regs := new_regs\<rparr>"

definition irq_install_handler :: "int \<Rightarrow> irq_handler_t \<Rightarrow> 'a irq_state_scheme \<Rightarrow> 'a irq_state_scheme" where
  "irq_install_handler irq handler s =
     (if irq \<ge> 0 \<and> irq < 16 then s\<lparr>irq_handlers := (irq_handlers s)[nat irq := handler]\<rparr> else s)"

definition irq_uninstall_handler :: "int \<Rightarrow> 'a irq_state_scheme \<Rightarrow> 'a irq_state_scheme" where
  "irq_uninstall_handler irq s =
     (if irq \<ge> 0 \<and> irq < 16 then s\<lparr>irq_handlers := (irq_handlers s)[nat irq := NO_HANDLER]\<rparr> else s)"

section \<open>pit.c\<close>

abbreviation PIT_CHANNEL0_DATA :: u16 where "PIT_CHANNEL0_DATA \<equiv> 0x40"
abbreviation PIT_COMMAND :: u16 where "PIT_COMMAND \<equiv> 0x43"

definition PIT_DIVISOR :: u16 where
  "PIT_DIVISOR = ucast (1193182 div 100 :: u32)"

definition pit_irq_handler :: "u64 \<Rightarrow> 'a irq_state_scheme \<Rightarrow> 'a irq_state_scheme" where
  "pit_irq_handler regs s =
     (let s = s\<lparr>pit_ticks := pit_ticks s + 1\<rparr> in
      if scheduler_enabled s \<and> pit_ticks s mod 10 = 0 then
        (let (new_regs, s) = task_switch regs s
         in if new_regs \<noteq> regs then irq_set_new_stack new_regs s else s)
      else s)"

definition pit_init :: "'a irq_state_scheme \<Rightarrow> 'a irq_state_scheme" where
  "pit_init s =
     (let s = irq_install_handler 0 PIT_IRQ_HANDLER s;
          s = outb PIT_COMMAND 0x36 s;
          divisor = PIT_DIVISOR;
          s = outb PIT_CHANNEL0_DATA (ucast (divisor AND 0xFF)) s
      in outb PIT_CHANNEL0_DATA (ucast (drop_bit 8 divisor AND 0xFF)) s)"

end
