(* ===== verification/Keyboard.thy ===== *)
theory Keyboard
  imports Isr
begin

text \<open>
  The PS/2 keyboard: the translation of scan codes and the polling reader of
  \<^verbatim>\<open>src/kernel/keyboard.h\<close>, and the interrupt-driven ring buffer of \<^verbatim>\<open>keyboard_irq.c\<close>. The
  header defines its modifier flags \<^verbatim>\<open>static\<close>, so every file that includes it has its own
  copy: the record \<open>kb_mods\<close> is a value, kept once by the shell and once by the interrupt
  side. What the controller answers on its ports is the device parameter.
\<close>

section \<open>keyboard.h\<close>

abbreviation KB_DATA_PORT :: u16 where "KB_DATA_PORT \<equiv> 0x60"
abbreviation KB_STATUS_PORT :: u16 where "KB_STATUS_PORT \<equiv> 0x64"
abbreviation KB_STATUS_OUTPUT_FULL :: u8 where "KB_STATUS_OUTPUT_FULL \<equiv> 0x01"
abbreviation SC_RELEASE :: u8 where "SC_RELEASE \<equiv> 0x80"
abbreviation SC_LCTRL :: u8 where "SC_LCTRL \<equiv> 0x1D"
abbreviation SC_LSHIFT :: u8 where "SC_LSHIFT \<equiv> 0x2A"
abbreviation SC_RSHIFT :: u8 where "SC_RSHIFT \<equiv> 0x36"
abbreviation SC_LALT :: u8 where "SC_LALT \<equiv> 0x38"
abbreviation SC_CAPSLOCK :: u8 where "SC_CAPSLOCK \<equiv> 0x3A"

record kb_mods =
  kb_shift_pressed :: bool
  kb_ctrl_pressed :: bool
  kb_alt_pressed :: bool
  kb_capslock_on :: bool

definition kb_mods_initial :: kb_mods where
  "kb_mods_initial = \<lparr>kb_shift_pressed = False, kb_ctrl_pressed = False, kb_alt_pressed = False,
     kb_capslock_on = False\<rparr>"

definition scancode_to_ascii_lower :: "u8 list" where
  "scancode_to_ascii_lower =
     [0, 27] @ cstr ''1234567890-='' @ [8, 9] @ cstr ''qwertyuiop[]'' @ [10, 0] @ cstr ''asdfghjkl;'' @ [39, 96] @
     [0, 92] @ cstr ''zxcvbnm,./'' @ [0] @ cstr ''*'' @ [0] @ cstr '' '' @ replicate 70 0"

definition scancode_to_ascii_upper :: "u8 list" where
  "scancode_to_ascii_upper =
     [0, 27] @ cstr ''!@#$%^&*()_+'' @ [8, 9] @ cstr ''QWERTYUIOP{}'' @ [10, 0] @ cstr ''ASDFGHJKL:'' @ [34, 126] @
     [0, 124] @ cstr ''ZXCVBNM<>?'' @ [0] @ cstr ''*'' @ [0] @ cstr '' '' @ replicate 70 0"

text \<open>The polling loop; the counter is tested before it is decremented, so 100000 reads.\<close>

primrec kb_wait_loop :: "nat \<Rightarrow> device \<Rightarrow> 'a mach_scheme \<Rightarrow> bool \<times> 'a mach_scheme" where
  "kb_wait_loop 0 dev s = (False, s)"
| "kb_wait_loop (Suc timeout) dev s =
     (let (st, s) = inb dev KB_STATUS_PORT s
      in if st AND KB_STATUS_OUTPUT_FULL \<noteq> 0 then (True, s) else kb_wait_loop timeout dev s)"

definition kb_wait_output :: "device \<Rightarrow> 'a mach_scheme \<Rightarrow> bool \<times> 'a mach_scheme" where
  "kb_wait_output dev s = kb_wait_loop 100000 dev s"

definition kb_read_scancode :: "device \<Rightarrow> 'a mach_scheme \<Rightarrow> u8 \<times> 'a mach_scheme" where
  "kb_read_scancode dev s =
     (let (ready, s) = kb_wait_output dev s in if ready then inb dev KB_DATA_PORT s else (0, s))"

definition kb_try_read_scancode :: "device \<Rightarrow> 'a mach_scheme \<Rightarrow> u8 \<times> 'a mach_scheme" where
  "kb_try_read_scancode dev s =
     (let (st, s) = inb dev KB_STATUS_PORT s
      in if st AND KB_STATUS_OUTPUT_FULL \<noteq> 0 then inb dev KB_DATA_PORT s else (0, s))"

definition kb_scancode_to_ascii :: "u8 \<Rightarrow> kb_mods \<Rightarrow> u8 \<times> kb_mods" where
  "kb_scancode_to_ascii scancode k =
     (if scancode AND SC_RELEASE \<noteq> 0 then
        (let key = scancode AND NOT SC_RELEASE in
         (0, if key = SC_LSHIFT \<or> key = SC_RSHIFT then k\<lparr>kb_shift_pressed := False\<rparr>
             else if key = SC_LCTRL then k\<lparr>kb_ctrl_pressed := False\<rparr>
             else if key = SC_LALT then k\<lparr>kb_alt_pressed := False\<rparr>
             else k))
      else if scancode = SC_LSHIFT \<or> scancode = SC_RSHIFT then (0, k\<lparr>kb_shift_pressed := True\<rparr>)
      else if scancode = SC_LCTRL then (0, k\<lparr>kb_ctrl_pressed := True\<rparr>)
      else if scancode = SC_LALT then (0, k\<lparr>kb_alt_pressed := True\<rparr>)
      else if scancode = SC_CAPSLOCK then (0, k\<lparr>kb_capslock_on := \<not> kb_capslock_on k\<rparr>)
      else if scancode < 128 then
        (let use_upper = kb_shift_pressed k;
             lower = scancode_to_ascii_lower ! unat scancode;
             use_upper = (if kb_capslock_on k \<and> of_char CHR ''a'' \<le> sint lower \<and> sint lower \<le> of_char CHR ''z''
                          then \<not> use_upper else use_upper)
         in (if use_upper then scancode_to_ascii_upper ! unat scancode
             else scancode_to_ascii_lower ! unat scancode, k))
      else (0, k))"

text \<open>The blocking reader never returns when no key is pressed: \<open>None\<close>.\<close>

partial_function (option) kb_getchar ::
  "device \<Rightarrow> kb_mods \<Rightarrow> 'a mach_scheme \<Rightarrow> (u8 \<times> kb_mods \<times> 'a mach_scheme) option" where
  "kb_getchar dev k s =
     (let (scancode, s) = kb_read_scancode dev s;
          (c, k) = kb_scancode_to_ascii scancode k
      in if c \<noteq> 0 then Some (c, k, s) else kb_getchar dev k s)"

definition kb_try_getchar :: "device \<Rightarrow> kb_mods \<Rightarrow> 'a mach_scheme \<Rightarrow> u8 \<times> kb_mods \<times> 'a mach_scheme" where
  "kb_try_getchar dev k s =
     (let (scancode, s) = kb_try_read_scancode dev s
      in if scancode = 0 then (0, k, s)
         else let (c, k) = kb_scancode_to_ascii scancode k in (c, k, s))"

definition kb_is_shift_pressed :: "kb_mods \<Rightarrow> bool" where
  "kb_is_shift_pressed k = kb_shift_pressed k"

definition kb_is_ctrl_pressed :: "kb_mods \<Rightarrow> bool" where
  "kb_is_ctrl_pressed k = kb_ctrl_pressed k"

definition kb_is_alt_pressed :: "kb_mods \<Rightarrow> bool" where
  "kb_is_alt_pressed k = kb_alt_pressed k"

section \<open>keyboard\_irq.c\<close>

abbreviation KB_BUFFER_SIZE :: nat where "KB_BUFFER_SIZE \<equiv> 256"

record kbd_state = irq_state +
  kb_buffer :: "u8 list"
  kb_buffer_read :: nat
  kb_buffer_write :: nat
  kb_irq_mods :: kb_mods

definition keyboard_irq_handler :: "device \<Rightarrow> u64 \<Rightarrow> 'a kbd_state_scheme \<Rightarrow> 'a kbd_state_scheme" where
  "keyboard_irq_handler dev regs s =
     (let (scancode, s) = inb dev KB_DATA_PORT s;
          next_write = (kb_buffer_write s + 1) mod KB_BUFFER_SIZE
      in if next_write \<noteq> kb_buffer_read s
         then s\<lparr>kb_buffer := (kb_buffer s)[kb_buffer_write s := scancode], kb_buffer_write := next_write\<rparr>
         else s)"

definition kb_irq_has_scancode :: "'a kbd_state_scheme \<Rightarrow> bool" where
  "kb_irq_has_scancode s \<longleftrightarrow> kb_buffer_read s \<noteq> kb_buffer_write s"

definition kb_irq_get_scancode :: "'a kbd_state_scheme \<Rightarrow> u8 \<times> 'a kbd_state_scheme" where
  "kb_irq_get_scancode s =
     (if kb_buffer_read s = kb_buffer_write s then (0, s)
      else let scancode = kb_buffer s ! kb_buffer_read s
           in (scancode, s\<lparr>kb_buffer_read := (kb_buffer_read s + 1) mod KB_BUFFER_SIZE\<rparr>))"

definition keyboard_irq_init :: "device \<Rightarrow> 'a kbd_state_scheme \<Rightarrow> 'a kbd_state_scheme" where
  "keyboard_irq_init dev s =
     (let s = s\<lparr>kb_buffer_read := 0, kb_buffer_write := 0\<rparr>;
          s = irq_install_handler 1 KEYBOARD_IRQ_HANDLER s
      in pic_clear_mask dev 1 s)"

text \<open>
  The blocking reader sleeps in \<^verbatim>\<open>hlt\<close> until an interrupt has been served; \<open>wake\<close> stands for
  the interrupts served before the processor goes on.
\<close>

partial_function (option) kb_getchar_irq ::
  "('a kbd_state_scheme \<Rightarrow> 'a kbd_state_scheme) \<Rightarrow> 'a kbd_state_scheme \<Rightarrow> (u8 \<times> 'a kbd_state_scheme) option" where
  "kb_getchar_irq wake s =
     (if \<not> kb_irq_has_scancode s then kb_getchar_irq wake (wake (emit Hlt s))
      else let (scancode, s) = kb_irq_get_scancode s;
               (c, k) = kb_scancode_to_ascii scancode (kb_irq_mods s);
               s = s\<lparr>kb_irq_mods := k\<rparr>
           in if c \<noteq> 0 then Some (c, s) else kb_getchar_irq wake s)"

definition kb_try_getchar_irq :: "'a kbd_state_scheme \<Rightarrow> u8 \<times> 'a kbd_state_scheme" where
  "kb_try_getchar_irq s =
     (if \<not> kb_irq_has_scancode s then (0, s)
      else let (scancode, s) = kb_irq_get_scancode s;
               (c, k) = kb_scancode_to_ascii scancode (kb_irq_mods s)
           in (c, s\<lparr>kb_irq_mods := k\<rparr>))"

end
