(* ===== verification/KeyboardProps.thy ===== *)
theory KeyboardProps
  imports Keyboard TaskInv
begin

text \<open>
  The interrupt ring buffer implements a bounded first-in first-out queue, stated as a
  locale and interpreted on \<^verbatim>\<open>keyboard_irq.c\<close>; the modifier flags as functions of the key
  history; and what the translation of scan codes can return.
\<close>

section \<open>A bounded queue\<close>

text \<open>
  An observation of a queue: a value was offered, a value was taken, or the queue was found
  empty. The specification accepts a sequence of observations from contents \<open>q\<close>.
\<close>

datatype 'x fifo_event = Offered 'x | Taken 'x | Empty

fun fifo_spec :: "nat \<Rightarrow> 'x list \<Rightarrow> 'x fifo_event list \<Rightarrow> 'x list option" where
  "fifo_spec cap q [] = Some q"
| "fifo_spec cap q (Offered x # es) = fifo_spec cap (if length q < cap then q @ [x] else q) es"
| "fifo_spec cap q (Taken x # es) = (case q of [] \<Rightarrow> None | y # q' \<Rightarrow> if y = x then fifo_spec cap q' es else None)"
| "fifo_spec cap q (Empty # es) = (if q = [] then fifo_spec cap q es else None)"

datatype 'd fifo_op = Put 'd | Take

fun fifo_run :: "('d \<Rightarrow> 's \<Rightarrow> 's) \<Rightarrow> ('d \<Rightarrow> 's \<Rightarrow> 'x) \<Rightarrow> ('s \<Rightarrow> bool) \<Rightarrow> ('s \<Rightarrow> 'x \<times> 's) \<Rightarrow>
    'd fifo_op list \<Rightarrow> 's \<Rightarrow> 'x fifo_event list \<times> 's" where
  "fifo_run put offer has get [] s = ([], s)"
| "fifo_run put offer has get (Put d # ops) s =
     (let (es, t) = fifo_run put offer has get ops (put d s) in (Offered (offer d s) # es, t))"
| "fifo_run put offer has get (Take # ops) s =
     (let (es, t) = fifo_run put offer has get ops (snd (get s))
      in ((if has s then Taken (fst (get s)) else Empty) # es, t))"

locale bounded_fifo =
  fixes put :: "'d \<Rightarrow> 's \<Rightarrow> 's" and offer :: "'d \<Rightarrow> 's \<Rightarrow> 'x" and has :: "'s \<Rightarrow> bool"
    and get :: "'s \<Rightarrow> 'x \<times> 's" and contents :: "'s \<Rightarrow> 'x list" and invar :: "'s \<Rightarrow> bool" and cap :: nat
  assumes has: "invar s \<Longrightarrow> has s \<longleftrightarrow> contents s \<noteq> []"
    and put: "invar s \<Longrightarrow> contents (put d s) = (if length (contents s) < cap then contents s @ [offer d s] else contents s)"
    and get: "invar s \<Longrightarrow> contents s \<noteq> [] \<Longrightarrow> fst (get s) = hd (contents s)"
    and get_rest: "invar s \<Longrightarrow> contents (snd (get s)) = tl (contents s)"
    and invar_put: "invar s \<Longrightarrow> invar (put d s)"
    and invar_get: "invar s \<Longrightarrow> invar (snd (get s))"
    and invar_cap: "invar s \<Longrightarrow> length (contents s) \<le> cap"
begin

lemma run_refines:
  "invar s \<Longrightarrow> fifo_run put offer has get ops s = (es, t) \<Longrightarrow>
     invar t \<and> fifo_spec cap (contents s) es = Some (contents t)"
proof (induction ops arbitrary: s es t)
  case Nil
  then show ?case by simp
next
  case (Cons op ops)
  show ?case
  proof (cases op)
    case (Put d)
    then obtain es' where "fifo_run put offer has get ops (put d s) = (es', t)" "es = Offered (offer d s) # es'"
      using Cons.prems(2) by (auto split: prod.splits)
    then show ?thesis using Cons.IH[OF invar_put[OF Cons.prems(1)]] put[OF Cons.prems(1)] by simp
  next
    case Take
    then obtain es' where r: "fifo_run put offer has get ops (snd (get s)) = (es', t)"
      "es = (if has s then Taken (fst (get s)) else Empty) # es'"
      using Cons.prems(2) by (auto simp: Let_def split: prod.splits)
    have IH: "invar t \<and> fifo_spec cap (tl (contents s)) es' = Some (contents t)"
      using Cons.IH[OF invar_get[OF Cons.prems(1)] r(1)] get_rest[OF Cons.prems(1)] by simp
    show ?thesis
    proof (cases "contents s")
      case Nil
      then show ?thesis using IH r(2) has[OF Cons.prems(1)] by simp
    next
      case (Cons x q)
      then show ?thesis using IH r(2) has[OF Cons.prems(1)] get[OF Cons.prems(1)] by simp
    qed
  qed
qed

end

section \<open>The ring buffer\<close>

definition kb_contents :: "'a kbd_state_scheme \<Rightarrow> u8 list" where
  "kb_contents s = map (\<lambda>i. kb_buffer s ! ((kb_buffer_read s + i) mod KB_BUFFER_SIZE))
     [0 ..< (kb_buffer_write s + KB_BUFFER_SIZE - kb_buffer_read s) mod KB_BUFFER_SIZE]"

definition kb_inv :: "'a kbd_state_scheme \<Rightarrow> bool" where
  "kb_inv s \<longleftrightarrow> length (kb_buffer s) = KB_BUFFER_SIZE \<and> kb_buffer_read s < KB_BUFFER_SIZE \<and>
     kb_buffer_write s < KB_BUFFER_SIZE"

definition kb_offer :: "device \<Rightarrow> u64 \<Rightarrow> 'a kbd_state_scheme \<Rightarrow> u8" where
  "kb_offer dev regs s = ucast (dev (hw_trace s) KB_DATA_PORT)"

text \<open>The number of scan codes between the two indices, and how the indices move it.\<close>

lemma ring_count:
  fixes r w n :: nat
  assumes "r < n" and "w < n"
  shows "(w + n - r) mod n = (if r \<le> w then w - r else w + n - r)"
    "((w + 1) mod n + n - r) mod n = (if (w + 1) mod n = r then 0 else (w + n - r) mod n + 1)"
    "r \<noteq> w \<Longrightarrow> (w + n - (r + 1) mod n) mod n = (w + n - r) mod n - 1"
    "r \<noteq> w \<Longrightarrow> 0 < (w + n - r) mod n"
    "(r + (w + n - r) mod n) mod n = w"
    "(w + 1) mod n = r \<longleftrightarrow> (w + n - r) mod n = n - 1"
proof -
  have w1: "(w + 1) mod n = (if w + 1 = n then 0 else w + 1)" using assms(2) by auto
  have r1: "(r + 1) mod n = (if r + 1 = n then 0 else r + 1)" using assms(1) by auto
  show c: "(w + n - r) mod n = (if r \<le> w then w - r else w + n - r)"
    using assms by (auto simp: mod_if)
  show "((w + 1) mod n + n - r) mod n = (if (w + 1) mod n = r then 0 else (w + n - r) mod n + 1)"
    unfolding c w1 using assms by (auto simp: mod_if)
  show "r \<noteq> w \<Longrightarrow> (w + n - (r + 1) mod n) mod n = (w + n - r) mod n - 1"
    unfolding c r1 using assms by (auto simp: mod_if)
  show "r \<noteq> w \<Longrightarrow> 0 < (w + n - r) mod n" unfolding c using assms by auto
  show "(r + (w + n - r) mod n) mod n = w" unfolding c using assms by auto
  show "(w + 1) mod n = r \<longleftrightarrow> (w + n - r) mod n = n - 1" unfolding c w1 using assms by auto
qed

lemma ring_index_neq:
  fixes r w n i :: nat
  assumes "r < n" and "w < n" and "i < (w + n - r) mod n"
  shows "(r + i) mod n \<noteq> w"
proof -
  have i: "i < (if r \<le> w then w - r else w + n - r)" using assms(3) unfolding ring_count(1)[OF assms(1,2)] .
  then have "i < n" using assms(1,2) by (cases "r \<le> w") auto
  then have "(r + i) mod n = (if r + i < n then r + i else r + i - n)"
    using assms(1) by (simp add: le_mod_geq)
  then show ?thesis using i assms(1,2) by (cases "r \<le> w"; cases "r + i < n") auto
qed

abbreviation kb_count :: "'a kbd_state_scheme \<Rightarrow> nat" where
  "kb_count s \<equiv> (kb_buffer_write s + KB_BUFFER_SIZE - kb_buffer_read s) mod KB_BUFFER_SIZE"

lemma length_kb_contents [simp]: "length (kb_contents s) = kb_count s"
  by (simp add: kb_contents_def)

lemma kb_full: "kb_inv s \<Longrightarrow> (kb_buffer_write s + 1) mod KB_BUFFER_SIZE = kb_buffer_read s \<longleftrightarrow> \<not> kb_count s < 255"
proof -
  assume "kb_inv s"
  then have b: "kb_buffer_read s < KB_BUFFER_SIZE" "kb_buffer_write s < KB_BUFFER_SIZE" by (auto simp: kb_inv_def)
  have "kb_count s < KB_BUFFER_SIZE" by simp
  then show ?thesis using ring_count(6)[OF b] by auto
qed

lemma keyboard_irq_handler_contents:
  assumes "kb_inv s"
  shows "kb_contents (keyboard_irq_handler dev regs s) =
    (if kb_count s < 255 then kb_contents s @ [kb_offer dev regs s] else kb_contents s)"
proof -
  let ?r = "kb_buffer_read s" and ?w = "kb_buffer_write s" and ?n = "kb_count s"
  have b: "?r < KB_BUFFER_SIZE" "?w < KB_BUFFER_SIZE" "length (kb_buffer s) = KB_BUFFER_SIZE"
    using assms by (auto simp: kb_inv_def)
  show ?thesis
  proof (cases "?n < 255")
    case False
    then have "(?w + 1) mod KB_BUFFER_SIZE = ?r" using kb_full[OF assms] by simp
    then show ?thesis using False
      by (simp add: keyboard_irq_handler_def inb_def emit_def Let_def kb_contents_def)
  next
    case True
    define x where "x = kb_offer dev regs s"
    define u where "u = keyboard_irq_handler dev regs s"
    have nf: "(?w + 1) mod KB_BUFFER_SIZE \<noteq> ?r" using True kb_full[OF assms] by blast
    then have u: "kb_buffer u = (kb_buffer s)[?w := x]" "kb_buffer_read u = ?r"
      "kb_buffer_write u = (?w + 1) mod KB_BUFFER_SIZE"
      by (simp_all add: u_def keyboard_irq_handler_def inb_def emit_def Let_def kb_offer_def x_def)
    have n: "kb_count u = ?n + 1" unfolding u using ring_count(2)[OF b(1,2)] nf by simp
    have "kb_contents u = map (\<lambda>i. (kb_buffer s)[?w := x] ! ((?r + i) mod KB_BUFFER_SIZE)) [0..<?n + 1]"
      unfolding kb_contents_def n unfolding u(1,2) ..
    also have "\<dots> = map (\<lambda>i. (kb_buffer s)[?w := x] ! ((?r + i) mod KB_BUFFER_SIZE)) [0..<?n] @
        [(kb_buffer s)[?w := x] ! ((?r + ?n) mod KB_BUFFER_SIZE)]" by simp
    also have "(kb_buffer s)[?w := x] ! ((?r + ?n) mod KB_BUFFER_SIZE) = x"
      unfolding ring_count(5)[OF b(1,2)] using b by simp
    also have "map (\<lambda>i. (kb_buffer s)[?w := x] ! ((?r + i) mod KB_BUFFER_SIZE)) [0..<?n] = kb_contents s"
      unfolding kb_contents_def
    proof (rule map_cong[OF refl])
      fix i assume "i \<in> set [0..<?n]"
      then have "(?r + i) mod KB_BUFFER_SIZE \<noteq> ?w" by (intro ring_index_neq[OF b(1,2)]) simp
      then show "(kb_buffer s)[?w := x] ! ((?r + i) mod KB_BUFFER_SIZE) = kb_buffer s ! ((?r + i) mod KB_BUFFER_SIZE)"
        by (metis nth_list_update_neq)
    qed
    finally show ?thesis using True by (simp add: u_def x_def)
  qed
qed

lemma kb_irq_get_contents:
  assumes "kb_inv s"
  shows "kb_contents s \<noteq> [] \<Longrightarrow> fst (kb_irq_get_scancode s) = hd (kb_contents s)"
    "kb_contents (snd (kb_irq_get_scancode s)) = tl (kb_contents s)"
    "kb_irq_has_scancode s \<longleftrightarrow> kb_contents s \<noteq> []"
proof -
  let ?r = "kb_buffer_read s" and ?w = "kb_buffer_write s" and ?n = "kb_count s"
  have b: "?r < KB_BUFFER_SIZE" "?w < KB_BUFFER_SIZE" using assms by (auto simp: kb_inv_def)
  have empty: "?r = ?w \<longleftrightarrow> kb_contents s = []"
  proof
    assume "?r = ?w"
    then show "kb_contents s = []" by (simp add: kb_contents_def)
  next
    assume "kb_contents s = []"
    then have "?n = 0" by (metis length_kb_contents length_0_conv)
    then show "?r = ?w" using ring_count(4)[OF b] by linarith
  qed
  then show "kb_irq_has_scancode s \<longleftrightarrow> kb_contents s \<noteq> []" by (simp add: kb_irq_has_scancode_def)
  have split: "kb_contents s = kb_buffer s ! ?r # map (\<lambda>i. kb_buffer s ! ((?r + Suc i) mod KB_BUFFER_SIZE)) [0..<?n - 1]"
    if "?r \<noteq> ?w"
  proof -
    have "[0..<?n] = 0 # map Suc [0..<?n - 1]"
      using ring_count(4)[OF b that] by (metis Suc_pred' map_Suc_upt upt_conv_Cons)
    then show ?thesis using b unfolding kb_contents_def by (simp add: comp_def)
  qed
  show "fst (kb_irq_get_scancode s) = hd (kb_contents s)" if "kb_contents s \<noteq> []"
    using that empty split by (simp add: kb_irq_get_scancode_def)
  show "kb_contents (snd (kb_irq_get_scancode s)) = tl (kb_contents s)"
  proof (cases "?r = ?w")
    case True
    then show ?thesis using empty by (simp add: kb_irq_get_scancode_def)
  next
    case False
    define u where "u = snd (kb_irq_get_scancode s)"
    have u: "kb_buffer u = kb_buffer s" "kb_buffer_read u = (?r + 1) mod KB_BUFFER_SIZE" "kb_buffer_write u = ?w"
      using False by (simp_all add: u_def kb_irq_get_scancode_def Let_def)
    have n: "kb_count u = ?n - 1" unfolding u by (rule ring_count(3)[OF b False])
    have "((?r + 1) mod KB_BUFFER_SIZE + i) mod KB_BUFFER_SIZE = (?r + Suc i) mod KB_BUFFER_SIZE" for i
      by (simp add: mod_simps)
    then have "kb_contents u = map (\<lambda>i. kb_buffer s ! ((?r + Suc i) mod KB_BUFFER_SIZE)) [0..<?n - 1]"
      unfolding kb_contents_def n unfolding u by simp
    then show ?thesis using split[OF False] by (simp add: u_def)
  qed
qed

lemma kb_inv_ops:
  "kb_inv s \<Longrightarrow> kb_inv (keyboard_irq_handler dev regs s)" "kb_inv s \<Longrightarrow> kb_inv (snd (kb_irq_get_scancode s))"
  by (auto simp: kb_inv_def keyboard_irq_handler_def kb_irq_get_scancode_def inb_def emit_def Let_def)

interpretation kb_fifo: bounded_fifo "\<lambda>(dev, regs). keyboard_irq_handler dev regs" "\<lambda>(dev, regs). kb_offer dev regs"
  kb_irq_has_scancode kb_irq_get_scancode kb_contents kb_inv 255
proof (unfold_locales, goal_cases)
  case (1 s)
  then show ?case by (rule kb_irq_get_contents(3))
next
  case (2 s d)
  then show ?case by (cases d) (simp add: keyboard_irq_handler_contents)
next
  case (3 s)
  then show ?case by (rule kb_irq_get_contents(1))
next
  case (4 s)
  then show ?case by (rule kb_irq_get_contents(2))
next
  case (5 s d)
  then show ?case by (cases d) (simp add: kb_inv_ops)
next
  case (6 s)
  then show ?case by (rule kb_inv_ops)
next
  case (7 s)
  have "kb_count s < KB_BUFFER_SIZE" by simp
  then show ?case by simp
qed

definition example_irq :: irq_state where
  "example_irq = task_state.extend example_start (irq_state.fields (replicate 16 NO_HANDLER) 0)"

definition example_kbd :: kbd_state where
  "example_kbd = irq_state.extend example_irq (kbd_state.fields (replicate 256 0) 255 255 kb_mods_initial)"

lemma example_kbd_fields [simp]:
  "kb_buffer example_kbd = replicate 256 0" "kb_buffer_read example_kbd = 255" "kb_buffer_write example_kbd = 255"
  by (simp_all add: example_kbd_def irq_state.defs kbd_state.defs)

section \<open>The key history\<close>

fun kb_feed :: "u8 list \<Rightarrow> kb_mods \<Rightarrow> u8 list \<times> kb_mods" where
  "kb_feed [] k = ([], k)"
| "kb_feed (sc # scs) k =
     (let (c, k) = kb_scancode_to_ascii sc k; (cs, k) = kb_feed scs k in (c # cs, k))"

lemma kb_feed_append:
  "kb_feed (as @ bs) k = (let (x, k) = kb_feed as k; (y, k) = kb_feed bs k in (x @ y, k))"
  by (induction as arbitrary: k) (auto simp: Let_def split_beta)

text \<open>The last event of one of the given keys in a history was a press.\<close>

definition held :: "u8 set \<Rightarrow> u8 list \<Rightarrow> bool" where
  "held keys h \<longleftrightarrow> (let f = filter (\<lambda>sc. sc AND NOT SC_RELEASE \<in> keys) h in f \<noteq> [] \<and> last f AND SC_RELEASE = 0)"

lemma held_simps [simp]:
  "held keys [] = False"
  "held keys (h @ [sc]) = (if sc AND NOT SC_RELEASE \<in> keys then sc AND SC_RELEASE = 0 else held keys h)"
  by (simp_all add: held_def Let_def)

lemma not_released: "sc AND SC_RELEASE = 0 \<Longrightarrow> sc AND NOT SC_RELEASE = (sc :: u8)"
proof -
  assume "sc AND SC_RELEASE = 0"
  moreover have "sc = (sc AND SC_RELEASE) OR (sc AND NOT SC_RELEASE)"
    by (rule bit_word_eqI) (auto simp: bit_simps)
  ultimately show ?thesis by simp
qed

lemma kb_mods_step:
  defines "k' \<equiv> \<lambda>sc k. snd (kb_scancode_to_ascii sc k)"
  shows "kb_shift_pressed (k' sc k) = (if sc AND NOT SC_RELEASE \<in> {SC_LSHIFT, SC_RSHIFT}
      then sc AND SC_RELEASE = 0 else kb_shift_pressed k)"
    "kb_ctrl_pressed (k' sc k) = (if sc AND NOT SC_RELEASE \<in> {SC_LCTRL} then sc AND SC_RELEASE = 0 else kb_ctrl_pressed k)"
    "kb_alt_pressed (k' sc k) = (if sc AND NOT SC_RELEASE \<in> {SC_LALT} then sc AND SC_RELEASE = 0 else kb_alt_pressed k)"
    "kb_capslock_on (k' sc k) = (if sc = SC_CAPSLOCK then \<not> kb_capslock_on k else kb_capslock_on k)"
proof -
  show "kb_shift_pressed (k' sc k) = (if sc AND NOT SC_RELEASE \<in> {SC_LSHIFT, SC_RSHIFT}
      then sc AND SC_RELEASE = 0 else kb_shift_pressed k)"
    "kb_ctrl_pressed (k' sc k) = (if sc AND NOT SC_RELEASE \<in> {SC_LCTRL} then sc AND SC_RELEASE = 0 else kb_ctrl_pressed k)"
    "kb_alt_pressed (k' sc k) = (if sc AND NOT SC_RELEASE \<in> {SC_LALT} then sc AND SC_RELEASE = 0 else kb_alt_pressed k)"
    using not_released[of sc] unfolding k'_def kb_scancode_to_ascii_def Let_def
    by (cases "sc AND SC_RELEASE = 0"; simp)+
  have "sc AND SC_RELEASE = 0" if "sc = SC_CAPSLOCK" using that by simp
  then show "kb_capslock_on (k' sc k) = (if sc = SC_CAPSLOCK then \<not> kb_capslock_on k else kb_capslock_on k)"
    unfolding k'_def kb_scancode_to_ascii_def Let_def by (cases "sc = SC_CAPSLOCK") auto
qed

section \<open>Typing text\<close>

text \<open>
  A US keyboard with scan code set 1, independent of the tables of the driver: for each key
  its make code and its character without and with Shift. The last line has the space bar,
  Escape, Backspace, Tab and Enter.
\<close>

definition us_layout :: "(u8 \<times> string) list" where
  "us_layout =
    [(0x02, ''1!''), (0x03, ''2@''), (0x04, ''3#''), (0x05, ''4$''), (0x06, ''5%''),
     (0x07, ''6^''), (0x08, ''7&''), (0x09, ''8*''), (0x0A, ''9(''), (0x0B, ''0)''),
     (0x0C, ''-_''), (0x0D, ''=+''), (0x10, ''qQ''), (0x11, ''wW''), (0x12, ''eE''),
     (0x13, ''rR''), (0x14, ''tT''), (0x15, ''yY''), (0x16, ''uU''), (0x17, ''iI''),
     (0x18, ''oO''), (0x19, ''pP''), (0x1A, ''[{''), (0x1B, '']}''), (0x1E, ''aA''),
     (0x1F, ''sS''), (0x20, ''dD''), (0x21, ''fF''), (0x22, ''gG''), (0x23, ''hH''),
     (0x24, ''jJ''), (0x25, ''kK''), (0x26, ''lL''), (0x27, '';:''),
     (0x28, [CHR 0x27, CHR 0x22]), (0x29, [CHR 0x60, CHR 0x7E]), (0x2B, [CHR 0x5C, CHR 0x7C]),
     (0x2C, ''zZ''), (0x2D, ''xX''), (0x2E, ''cC''), (0x2F, ''vV''), (0x30, ''bB''),
     (0x31, ''nN''), (0x32, ''mM''), (0x33, '',<''), (0x34, ''.>''), (0x35, ''/?''),
     (0x39, ''  ''), (0x01, [CHR 0x1B, CHR 0x1B]), (0x0E, [CHR 0x08, CHR 0x08]),
     (0x0F, [CHR 0x09, CHR 0x09]), (0x1C, [CHR 0x0A, CHR 0x0A])]"

definition plain_char :: "u8 \<times> string \<Rightarrow> u8" where "plain_char key = of_char (snd key ! 0)"
definition shifted_char :: "u8 \<times> string \<Rightarrow> u8" where "shifted_char key = of_char (snd key ! 1)"

text \<open>The scan codes of typing one character on it, with CapsLock off.\<close>

definition keys_for :: "u8 \<Rightarrow> u8 list" where
  "keys_for c =
     (case find (\<lambda>key. plain_char key = c) us_layout of
        Some (sc, _) \<Rightarrow> [sc, sc OR SC_RELEASE]
      | None \<Rightarrow>
          (case find (\<lambda>key. shifted_char key = c) us_layout of
             Some (sc, _) \<Rightarrow> [SC_LSHIFT, sc, sc OR SC_RELEASE, SC_LSHIFT OR SC_RELEASE]
           | None \<Rightarrow> []))"

definition typeable :: "u8 list" where
  "typeable = [8, 9, 10, 27] @ map of_nat [32..<127]"

lemma lower_codes: "scancode_to_ascii_lower = [
     0, 27, 49, 50, 51, 52, 53, 54, 55, 56, 57, 48, 45, 61, 8, 9, 113, 119, 101, 114, 116, 121, 117, 
     105, 111, 112, 91, 93, 10, 0, 97, 115, 100, 102, 103, 104, 106, 107, 108, 59, 39, 96, 0, 92, 
     122, 120, 99, 118, 98, 110, 109, 44, 46, 47, 0, 42, 0, 32] @ replicate 70 0"
  by code_simp

lemma upper_codes: "scancode_to_ascii_upper = [
     0, 27, 33, 64, 35, 36, 37, 94, 38, 42, 40, 41, 95, 43, 8, 9, 81, 87, 69, 82, 84, 89, 85, 73, 
     79, 80, 123, 125, 10, 0, 65, 83, 68, 70, 71, 72, 74, 75, 76, 58, 34, 126, 0, 124, 90, 88, 67, 
     86, 66, 78, 77, 60, 62, 63, 0, 42, 0, 32] @ replicate 70 0"
  by code_simp

lemma typeable_codes: "typeable = [8, 9, 10, 27,
     32, 33, 34, 35, 36, 37, 38, 39, 40, 41, 42, 43, 44, 45, 46, 47, 48, 49, 50, 51, 52, 53, 54, 55, 
     56, 57, 58, 59, 60, 61, 62, 63, 64, 65, 66, 67, 68, 69, 70, 71, 72, 73, 74, 75, 76, 77, 78, 79, 
     80, 81, 82, 83, 84, 85, 86, 87, 88, 89, 90, 91, 92, 93, 94, 95, 96, 97, 98, 99, 100, 101, 102, 
     103, 104, 105, 106, 107, 108, 109, 110, 111, 112, 113, 114, 115, 116, 117, 118, 119, 120, 121, 
     122, 123, 124, 125, 126]"
  by code_simp

text \<open>The tables of the driver hold what the layout says.\<close>

lemma us_layout_keys: "map (\<lambda>key. (unat (fst key), plain_char key, shifted_char key)) us_layout = [
     (2, 49, 33), (3, 50, 64), (4, 51, 35), (5, 52, 36), (6, 53, 37), (7, 54, 94), (8, 55,
     38), (9, 56, 42), (10, 57, 40), (11, 48, 41), (12, 45, 95), (13, 61, 43), (16, 113, 81),
     (17, 119, 87), (18, 101, 69), (19, 114, 82), (20, 116, 84), (21, 121, 89), (22, 117,
     85), (23, 105, 73), (24, 111, 79), (25, 112, 80), (26, 91, 123), (27, 93, 125), (30, 97,
     65), (31, 115, 83), (32, 100, 68), (33, 102, 70), (34, 103, 71), (35, 104, 72), (36,
     106, 74), (37, 107, 75), (38, 108, 76), (39, 59, 58), (40, 39, 34), (41, 96, 126), (43,
     92, 124), (44, 122, 90), (45, 120, 88), (46, 99, 67), (47, 118, 86), (48, 98, 66), (49,
     110, 78), (50, 109, 77), (51, 44, 60), (52, 46, 62), (53, 47, 63), (57, 32, 32), (1, 27,
     27), (14, 8, 8), (15, 9, 9), (28, 10, 10)]"
  by code_simp

lemma us_layout_tables:
  assumes "key \<in> set us_layout"
  shows "unat (fst key) < 128" "unat (fst key) \<notin> {29, 42, 54, 56, 58}"
    "scancode_to_ascii_lower ! unat (fst key) = plain_char key"
    "scancode_to_ascii_upper ! unat (fst key) = shifted_char key"
proof -
  have "list_all (\<lambda>(i, c, d). i < 128 \<and> i \<notin> {29, 42, 54, 56, 58} \<and> scancode_to_ascii_lower ! i = c \<and>
      scancode_to_ascii_upper ! i = d) (map (\<lambda>key. (unat (fst key), plain_char key, shifted_char key)) us_layout)"
    unfolding us_layout_keys lower_codes upper_codes by simp
  then show "unat (fst key) < 128" "unat (fst key) \<notin> {29, 42, 54, 56, 58}"
    "scancode_to_ascii_lower ! unat (fst key) = plain_char key"
    "scancode_to_ascii_upper ! unat (fst key) = shifted_char key"
    using assms unfolding list_all_iff by auto
qed

lemma us_layout_covers: "set typeable \<subseteq> plain_char ` set us_layout \<union> shifted_char ` set us_layout" "0 \<notin> set typeable"
proof -
  have e: "map plain_char us_layout = map (fst \<circ> snd) (map (\<lambda>key. (unat (fst key), plain_char key, shifted_char key)) us_layout)"
    "map shifted_char us_layout = map (snd \<circ> snd) (map (\<lambda>key. (unat (fst key), plain_char key, shifted_char key)) us_layout)"
    by simp_all
  show "set typeable \<subseteq> plain_char ` set us_layout \<union> shifted_char ` set us_layout" "0 \<notin> set typeable"
    unfolding set_map[symmetric] e unfolding us_layout_keys typeable_codes by simp_all
qed

lemma translations_ascii:
  "list_all (\<lambda>c. c < 128) scancode_to_ascii_lower" "list_all (\<lambda>c. c < 128) scancode_to_ascii_upper"
  "length scancode_to_ascii_lower = 128" "length scancode_to_ascii_upper = 128"
  unfolding lower_codes upper_codes by (simp_all add: list_all_iff)

lemma release_bit:
  fixes sc r :: u8
  assumes "\<And>n. bit r n \<longleftrightarrow> n = 7" and "\<not> bit sc 7"
  shows "sc AND r = 0" "(sc OR r) AND r = r" "(sc OR r) AND NOT r = sc"
  using assms(2) by (auto intro!: bit_word_eqI simp: bit_simps assms(1))

text \<open>A press of a key with a character, and its release.\<close>

lemma press_release:
  fixes sc :: u8 and k :: kb_mods
  assumes "unat sc < 128" and "unat sc \<notin> {29, 42, 54, 56, 58}" and "\<not> kb_capslock_on k"
  shows "kb_scancode_to_ascii sc k =
      (if kb_shift_pressed k then scancode_to_ascii_upper ! unat sc else scancode_to_ascii_lower ! unat sc, k)"
    "kb_scancode_to_ascii (sc OR SC_RELEASE) k = (0, k)"
proof -
  have lt: "sc < 128" using assms(1) by (simp add: word_less_nat_alt)
  have ne: "sc \<noteq> 42" "sc \<noteq> 54" "sc \<noteq> 29" "sc \<noteq> 56" "sc \<noteq> 58" using assms(2) by auto
  have b7: "\<not> bit sc 7"
  proof
    assume "bit sc 7"
    then have "bit (unat sc) 7" by (simp add: bit_unsigned_iff)
    then show False using assms(1) by (simp add: bit_iff_odd)
  qed
  have b128: "bit SC_RELEASE n \<longleftrightarrow> n = 7" for n using bit_exp_iff[where 'a = "8 word", of 7 n] by auto
  note r = release_bit[OF b128 b7]
  show "kb_scancode_to_ascii sc k =
      (if kb_shift_pressed k then scancode_to_ascii_upper ! unat sc else scancode_to_ascii_lower ! unat sc, k)"
    using r(1) lt ne assms(3) by (simp add: kb_scancode_to_ascii_def Let_def)
  show "kb_scancode_to_ascii (sc OR SC_RELEASE) k = (0, k)"
    using r(2,3) ne by (simp only: kb_scancode_to_ascii_def Let_def r(2,3)) simp
qed

lemma find_someE:
  assumes "\<exists>x \<in> set xs. P x"
  obtains x where "find P xs = Some x" and "x \<in> set xs" and "P x"
  using assms by (cases "find P xs") (auto simp: find_None_iff find_Some_iff)

lemma typing_step:
  assumes "c \<in> set typeable"
  shows "filter (\<lambda>c. c \<noteq> 0) (fst (kb_feed (keys_for c) kb_mods_initial)) = [c]"
    "snd (kb_feed (keys_for c) kb_mods_initial) = kb_mods_initial"
proof -
  have nz: "c \<noteq> 0" and cov: "(\<exists>key \<in> set us_layout. plain_char key = c) \<or> (\<exists>key \<in> set us_layout. shifted_char key = c)"
    using assms us_layout_covers by (auto 0 3)
  let ?k = "kb_mods_initial" and ?s = "kb_mods_initial\<lparr>kb_shift_pressed := True\<rparr>"
  have k: "\<not> kb_capslock_on ?k" "\<not> kb_capslock_on ?s" "\<not> kb_shift_pressed ?k" "kb_shift_pressed ?s"
    by (simp_all add: kb_mods_initial_def)
  have "filter (\<lambda>c. c \<noteq> 0) (fst (kb_feed (keys_for c) ?k)) = [c] \<and> snd (kb_feed (keys_for c) ?k) = ?k"
  proof (cases "\<exists>key \<in> set us_layout. plain_char key = c")
    case True
    obtain key where f: "find (\<lambda>key. plain_char key = c) us_layout = Some key" "key \<in> set us_layout" "plain_char key = c"
      using True by (rule find_someE)
    obtain sc cs where key: "key = (sc, cs)" by force
    note t = us_layout_tables[OF f(2), unfolded key fst_conv]
    note pr = press_release[OF t(1,2) k(1)]
    have "keys_for c = [sc, sc OR SC_RELEASE]" by (simp add: keys_for_def f(1) key)
    moreover have "kb_scancode_to_ascii sc ?k = (c, ?k)" using pr(1) k(3) t(3) f(3) key by simp
    ultimately have "kb_feed (keys_for c) ?k = ([c, 0], ?k)"
      using pr(2) by (simp only: kb_feed.simps prod.case Let_def)
    then show ?thesis using nz by simp
  next
    case False
    then have n: "find (\<lambda>key. plain_char key = c) us_layout = None" by (simp add: find_None_iff)
    have "\<exists>key \<in> set us_layout. shifted_char key = c" using cov False by blast
    then obtain key where f: "find (\<lambda>key. shifted_char key = c) us_layout = Some key" "key \<in> set us_layout" "shifted_char key = c"
      by (rule find_someE)
    obtain sc cs where key: "key = (sc, cs)" by force
    note t = us_layout_tables[OF f(2), unfolded key fst_conv]
    note pr = press_release[OF t(1,2) k(2)]
    have sh: "kb_scancode_to_ascii SC_LSHIFT ?k = (0, ?s)" "kb_scancode_to_ascii (SC_LSHIFT OR SC_RELEASE) ?s = (0, ?k)"
      by (simp_all add: kb_scancode_to_ascii_def kb_mods_initial_def)
    have "keys_for c = [SC_LSHIFT, sc, sc OR SC_RELEASE, SC_LSHIFT OR SC_RELEASE]" by (simp add: keys_for_def n f(1) key)
    moreover have "kb_scancode_to_ascii sc ?s = (c, ?s)" using pr(1) k(4) t(4) f(3) key by simp
    ultimately have "kb_feed (keys_for c) ?k = ([0, c, 0, 0], ?k)"
      using pr(2) by (simp only: kb_feed.simps sh prod.case Let_def)
    then show ?thesis using nz by simp
  qed
  then show "filter (\<lambda>c. c \<noteq> 0) (fst (kb_feed (keys_for c) kb_mods_initial)) = [c]"
    "snd (kb_feed (keys_for c) kb_mods_initial) = kb_mods_initial" by blast+
qed

section \<open>Properties\<close>

text \<open>
  C29: however interrupts and readers interleave, the ring buffer behaves as a first-in
  first-out queue of 255 scan codes: a code is appended when it arrives and there is room
  and dropped otherwise, readers get the oldest code, and emptiness is reported exactly when
  the queue is empty. The indices stay inside the array.
\<close>

theorem kb_ring_fifo:
  assumes "kb_inv s"
    and "fifo_run (\<lambda>(dev, regs). keyboard_irq_handler dev regs) (\<lambda>(dev, regs). kb_offer dev regs)
      kb_irq_has_scancode kb_irq_get_scancode ops s = (es, t)"
  shows "kb_inv t \<and> fifo_spec 255 (kb_contents s) es = Some (kb_contents t) \<and> length (kb_contents t) \<le> 255"
  using kb_fifo.run_refines[OF assms] kb_fifo.invar_cap[of t] by simp

lemma kb_ring_fifo_witness:
  "fst (fifo_run (\<lambda>(dev, regs). keyboard_irq_handler dev regs) (\<lambda>(dev, regs). kb_offer dev regs)
      kb_irq_has_scancode kb_irq_get_scancode
      [Put (\<lambda>_ _. 7, 0), Put (\<lambda>_ _. 9, 0), Take, Take, Take] example_kbd)
    = [Offered 7, Offered 9, Taken 7, Taken 9, Empty]"
proof -
  let ?ops = "[Put (\<lambda>_ _. 7, 0), Put (\<lambda>_ _. 9, 0), Take, Take, Take]"
  obtain es t where r: "fifo_run (\<lambda>(dev, regs). keyboard_irq_handler dev regs) (\<lambda>(dev, regs). kb_offer dev regs)
      kb_irq_has_scancode kb_irq_get_scancode ?ops example_kbd = (es, t)" by force
  obtain a b c where es: "es = [Offered 7, Offered 9, a, b, c]" "a \<noteq> Offered x" "b \<noteq> Offered x" "c \<noteq> Offered x" for x
    using r by (auto simp: kb_offer_def Let_def split_beta split: if_splits)
  have "kb_inv example_kbd" by (simp add: kb_inv_def)
  then have "fifo_spec 255 [] es = Some (kb_contents t)"
    using kb_ring_fifo[OF _ r] by (simp add: kb_contents_def)
  then show ?thesis unfolding r es(1) using es(2-4)
    by (cases a; cases b; cases c) (auto split: if_splits)
qed

text \<open>
  C31: the modifier flags follow the key history. After any sequence of scan codes Shift is
  on exactly if the last event of either Shift key was a press (releasing one key also ends
  the other), likewise Ctrl and Alt for their left keys, and CapsLock after an odd number of
  presses; and every translation is 7-bit ASCII.
\<close>

theorem kb_modifiers_history:
  "let (cs, k) = kb_feed h kb_mods_initial in
     (kb_is_shift_pressed k \<longleftrightarrow> held {SC_LSHIFT, SC_RSHIFT} h) \<and>
     (kb_is_ctrl_pressed k \<longleftrightarrow> held {SC_LCTRL} h) \<and> (kb_is_alt_pressed k \<longleftrightarrow> held {SC_LALT} h) \<and>
     (kb_capslock_on k \<longleftrightarrow> odd (count_list h SC_CAPSLOCK)) \<and> list_all (\<lambda>c. c < 128) cs"
proof (induction h rule: rev_induct)
  case Nil
  then show ?case
    by (simp add: kb_mods_initial_def kb_is_shift_pressed_def kb_is_ctrl_pressed_def kb_is_alt_pressed_def)
next
  case (snoc sc h)
  obtain cs k where h: "kb_feed h kb_mods_initial = (cs, k)" by force
  obtain c k' where c: "kb_scancode_to_ascii sc k = (c, k')" by force
  have f: "kb_feed (h @ [sc]) kb_mods_initial = (cs @ [c], k')" by (simp add: kb_feed_append h c)
  have "c < 128"
  proof (cases "sc < 128")
    case True
    then have "unat sc < 128" by (simp add: word_less_nat_alt)
    then have "scancode_to_ascii_lower ! unat sc < 128" "scancode_to_ascii_upper ! unat sc < 128"
      using translations_ascii by (simp_all add: list_all_length)
    then show ?thesis using c by (auto simp: kb_scancode_to_ascii_def Let_def split: if_splits)
  next
    case False
    then show ?thesis using c by (auto simp: kb_scancode_to_ascii_def Let_def split: if_splits)
  qed
  moreover have "k' = snd (kb_scancode_to_ascii sc k)" using c by simp
  ultimately show ?case
    using snoc.IH unfolding f h
    by (simp add: kb_mods_step kb_is_shift_pressed_def kb_is_ctrl_pressed_def kb_is_alt_pressed_def)
qed

lemma kb_feed_keys:
  assumes "set cs \<subseteq> set typeable"
  shows "filter (\<lambda>c. c \<noteq> 0) (fst (kb_feed (concat (map keys_for cs)) kb_mods_initial)) = cs \<and>
    snd (kb_feed (concat (map keys_for cs)) kb_mods_initial) = kb_mods_initial"
  using assms
proof (induction cs)
  case Nil
  then show ?case by simp
next
  case (Cons c cs)
  obtain xs k where x: "kb_feed (keys_for c) kb_mods_initial = (xs, k)" by force
  have "c \<in> set typeable" using Cons.prems by simp
  then have "filter (\<lambda>c. c \<noteq> 0) xs = [c]" "k = kb_mods_initial" using typing_step[of c] x by simp_all
  then show ?case using Cons x by (simp add: kb_feed_append split_beta Let_def)
qed

text \<open>
  C30: every text of printable ASCII characters, tabs, newlines, backspaces and escapes can
  be typed on a US keyboard: the codes its keys send (\<open>us_layout\<close>, scan code set 1) when they are
  pressed and released, with the left Shift key around those that need it, translate to
  exactly that text, and no modifier stays on.
\<close>

theorem kb_typing_roundtrip:
  assumes "set cs \<subseteq> set typeable"
  shows "filter (\<lambda>c. c \<noteq> 0) (fst (kb_feed (concat (map keys_for cs)) kb_mods_initial)) = cs \<and>
    snd (kb_feed (concat (map keys_for cs)) kb_mods_initial) = kb_mods_initial"
  using kb_feed_keys[OF assms] .

lemma kb_typing_roundtrip_witness:
  "filter (\<lambda>c. c \<noteq> 0) (fst (kb_feed (concat (map keys_for (cstr ''Hi!''))) kb_mods_initial)) = cstr ''Hi!''"
proof -
  have "set (cstr ''Hi!'') \<subseteq> set typeable" by code_simp
  then show ?thesis using kb_typing_roundtrip by blast
qed

end
