(* ===== verification/Irq.thy ===== *)
theory Irq
  imports KeyboardProps
begin

text \<open>
  The interrupt dispatcher of \<^verbatim>\<open>src/kernel/isr.c\<close> over the timer and keyboard handlers, and
  preemption: the scheduler driven by hardware interrupts. The entry stub has pushed the
  interrupted context; its address is \<open>regs\<close>.
\<close>

section \<open>The dispatcher\<close>

text \<open>
  \<^verbatim>\<open>irq_handlers[irq]\<close> is not range checked in the code; \<open>None\<close> is an access outside the
  array, which the stubs for vectors 32 to 47 never cause.
\<close>

definition irq_handler :: "device \<Rightarrow> u64 \<Rightarrow> 'a kbd_state_scheme \<Rightarrow> (u64 \<times> 'a kbd_state_scheme) option" where
  "irq_handler dev regs s =
     (let irq = sint (ucast (r_int_no (frames s regs) - 32) :: u32);
          s = s\<lparr>new_task_regs := 0\<rparr>
      in if 0 \<le> irq \<and> irq < 16 then
           let s = (case irq_handlers s ! nat irq of
                      NO_HANDLER \<Rightarrow> s
                    | PIT_IRQ_HANDLER \<Rightarrow> pit_irq_handler regs s
                    | KEYBOARD_IRQ_HANDLER \<Rightarrow> keyboard_irq_handler dev regs s);
               s = (if irq \<ge> 8 then outb PIC2_COMMAND PIC_EOI s else s);
               s = outb PIC1_COMMAND PIC_EOI s
           in Some (if new_task_regs s \<noteq> 0 then new_task_regs s else regs, s)
         else None)"

definition eoi_bytes :: "nat \<Rightarrow> hw_event list" where
  "eoi_bytes j = (if 8 \<le> j then [OutB PIC2_COMMAND PIC_EOI] else []) @ [OutB PIC1_COMMAND PIC_EOI]"

definition call_handler :: "irq_handler_t \<Rightarrow> device \<Rightarrow> u64 \<Rightarrow> 'a kbd_state_scheme \<Rightarrow> 'a kbd_state_scheme" where
  "call_handler h dev regs s = (case h of NO_HANDLER \<Rightarrow> s | PIT_IRQ_HANDLER \<Rightarrow> pit_irq_handler regs s
     | KEYBOARD_IRQ_HANDLER \<Rightarrow> keyboard_irq_handler dev regs s)"

lemma irq_number:
  assumes "unat (v :: u64) = 32 + j" and "j < 16"
  shows "sint (ucast (v - 32) :: u32) = int j"
proof -
  have "unat (v - 32) = j" using assms(1) by (simp add: unat_sub word_le_nat_alt)
  then have "uint (v - 32) = int j" by (metis uint_nat)
  then have "uint (ucast (v - 32) :: u32) = int j"
    using assms(2) by (simp add: unsigned_ucast_eq take_bit_int_eq_self_iff)
  then show ?thesis using assms(2) by (simp add: sint_uint signed_take_bit_int_eq_self_iff)
qed

lemma irq_handler_eq:
  assumes "unat (r_int_no (frames s regs)) = 32 + j" and "j < 16"
  shows "irq_handler dev regs s =
    (let u = call_handler (irq_handlers s ! j) dev regs (s\<lparr>new_task_regs := 0\<rparr>)
     in Some (if new_task_regs u \<noteq> 0 then new_task_regs u else regs, u\<lparr>hw_trace := hw_trace u @ eoi_bytes j\<rparr>))"
  unfolding irq_handler_def irq_number[OF assms] Let_def using assms(2)
  by (simp add: call_handler_def eoi_bytes_def outb_def emit_def split: irq_handler_t.splits)

section \<open>The handlers and the task table\<close>

text \<open>The part of the state that the scheduler reads and writes.\<close>

definition sched_view :: "'a task_state_scheme \<Rightarrow> (u64 \<Rightarrow> task_t) \<times> u64 list \<times> nat \<times> u64 \<times> u64" where
  "sched_view s = (tcbs s, task_list s, task_count_val s, current_task s, pit_ticks s)"

lemma sched_view_cong:
  assumes "sched_view u = sched_view s"
  shows "task_inv u = task_inv s" "all_tasks u = all_tasks s" "runnable u t = runnable s t"
    "candidate u i = candidate s i" "current_task u = current_task s" "pit_ticks u = pit_ticks s"
    "task_count_val u = task_count_val s"
  using assms candidate_cong[of u s]
  by (auto simp: sched_view_def task_inv_def all_tasks_def runnable_def)

text \<open>What a call of a handler means for the scheduler.\<close>

lemma pit_irq_handler_view:
  fixes s :: "'a irq_state_scheme"
  defines "u \<equiv> s\<lparr>pit_ticks := pit_ticks s + 1\<rparr>"
  shows "pit_irq_handler regs s =
    (if scheduler_enabled s \<and> (pit_ticks s + 1) mod 10 = 0 then
       (let (new_regs, v) = task_switch regs u
        in if new_regs \<noteq> regs then v\<lparr>new_task_regs := new_regs\<rparr> else v)
     else u)"
  by (auto simp: pit_irq_handler_def u_def irq_set_new_stack_def Let_def split_beta)

lemma keyboard_irq_handler_view [simp]:
  "sched_view (keyboard_irq_handler dev regs s) = sched_view s"
  "new_task_regs (keyboard_irq_handler dev regs s) = new_task_regs s"
  "irq_handlers (keyboard_irq_handler dev regs s) = irq_handlers s"
  "scheduler_enabled (keyboard_irq_handler dev regs s) = scheduler_enabled s"
  by (simp_all add: keyboard_irq_handler_def inb_def emit_def sched_view_def Let_def)

lemma find_next_irq [simp]:
  fixes s :: "'a irq_state_scheme"
  shows "irq_handlers (snd (find_next n i k s)) = irq_handlers s" "new_task_regs (snd (find_next n i k s)) = new_task_regs s"
    "scheduler_enabled (snd (find_next n i k s)) = scheduler_enabled s"
  by (induction n arbitrary: k) (auto simp: Let_def)

lemma task_switch_irq [simp]:
  fixes s :: "'a irq_state_scheme"
  shows "irq_handlers (snd (task_switch regs s)) = irq_handlers s" "new_task_regs (snd (task_switch regs s)) = new_task_regs s"
    "scheduler_enabled (snd (task_switch regs s)) = scheduler_enabled s"
  by (simp_all add: task_switch_def Let_def split_beta)

text \<open>Events of the whole system: an interrupt with its pushed context, and calls of the running task.\<close>

datatype sys_event = Interrupt u64 registers_t | SleepCall u64 | ExitCall

definition take_irq :: "device \<Rightarrow> u64 \<Rightarrow> registers_t \<Rightarrow> 'a kbd_state_scheme \<Rightarrow> 'a kbd_state_scheme" where
  "take_irq dev regs f s = (case irq_handler dev regs (s\<lparr>frames := (frames s)(regs := f)\<rparr>) of
     Some (_, t) \<Rightarrow> t | None \<Rightarrow> s\<lparr>frames := (frames s)(regs := f)\<rparr>)"

fun sys_step :: "device \<Rightarrow> sys_event \<Rightarrow> 'a kbd_state_scheme \<Rightarrow> 'a kbd_state_scheme" where
  "sys_step dev (Interrupt regs f) s = take_irq dev regs f s"
| "sys_step dev (SleepCall n) s = task_sleep n s"
| "sys_step dev ExitCall s = task_exit s"

definition sys_run :: "device \<Rightarrow> sys_event list \<Rightarrow> 'a kbd_state_scheme \<Rightarrow> 'a kbd_state_scheme" where
  "sys_run dev es s = fold (sys_step dev) es s"

text \<open>The handlers as \<^verbatim>\<open>kernel_main\<close> installs them, with the scheduler on.\<close>

definition irq_setup :: "'a irq_state_scheme \<Rightarrow> bool" where
  "irq_setup s \<longleftrightarrow> irq_handlers s = [PIT_IRQ_HANDLER, KEYBOARD_IRQ_HANDLER] @ replicate 14 NO_HANDLER \<and>
     scheduler_enabled s"

lemma irq_setup_handler: "irq_setup s \<Longrightarrow> j < 16 \<Longrightarrow> irq_handlers s ! j =
    (if j = 0 then PIT_IRQ_HANDLER else if j = 1 then KEYBOARD_IRQ_HANDLER else NO_HANDLER)"
  by (auto simp: irq_setup_def nth_append nth_Cons')

definition is_timer :: "sys_event \<Rightarrow> bool" where
  "is_timer e \<longleftrightarrow> (case e of Interrupt regs f \<Rightarrow> unat (r_int_no f) = 32 | _ \<Rightarrow> False)"

definition valid_event :: "sys_event \<Rightarrow> bool" where
  "valid_event e \<longleftrightarrow> (case e of Interrupt regs f \<Rightarrow> 32 \<le> unat (r_int_no f) \<and> unat (r_int_no f) < 48 | _ \<Rightarrow> True)"

lemma take_irq_eq:
  fixes s :: "'a kbd_state_scheme"
  assumes "unat (r_int_no f) = 32 + j" and "j < 16"
  shows "take_irq dev regs f s =
    (let u = call_handler (irq_handlers s ! j) dev regs (s\<lparr>frames := (frames s)(regs := f), new_task_regs := 0\<rparr>)
     in u\<lparr>hw_trace := hw_trace u @ eoi_bytes j\<rparr>)"
  using irq_handler_eq[of "s\<lparr>frames := (frames s)(regs := f)\<rparr>" regs j dev] assms by (simp add: take_irq_def Let_def)

lemma take_irq_other:
  assumes "irq_setup s" and "unat (r_int_no f) = 32 + j" and "j < 16" and "j \<noteq> 0"
  shows "sched_view (take_irq dev regs f s) = sched_view s" "irq_setup (take_irq dev regs f s)"
proof -
  have "irq_handlers s ! j = NO_HANDLER \<or> irq_handlers s ! j = KEYBOARD_IRQ_HANDLER"
    using irq_setup_handler[OF assms(1,3)] assms(4) by auto
  then show "sched_view (take_irq dev regs f s) = sched_view s" "irq_setup (take_irq dev regs f s)"
    using assms(1) unfolding take_irq_eq[OF assms(2,3)] Let_def
    by (auto simp: call_handler_def sched_view_def irq_setup_def keyboard_irq_handler_def inb_def emit_def Let_def)
qed

text \<open>A timer interrupt is a tick, and on every tenth tick a switch.\<close>

lemma take_irq_timer:
  fixes s :: "'a kbd_state_scheme" and regs :: u64
  assumes set: "irq_setup s" and f: "unat (r_int_no f) = 32"
  defines "p \<equiv> s\<lparr>frames := (frames s)(regs := f), new_task_regs := 0, pit_ticks := pit_ticks s + 1\<rparr>"
  shows "sched_view (take_irq dev regs f s) =
      (if (pit_ticks s + 1) mod 10 = 0 then sched_view (snd (task_switch regs p)) else sched_view p)"
    "irq_setup (take_irq dev regs f s)"
proof -
  have t: "take_irq dev regs f s =
      (let u = pit_irq_handler regs (s\<lparr>frames := (frames s)(regs := f), new_task_regs := 0\<rparr>)
       in u\<lparr>hw_trace := hw_trace u @ eoi_bytes 0\<rparr>)"
    using take_irq_eq[of f 0 dev regs s] f irq_setup_handler[OF set, of 0] by (simp add: call_handler_def)
  have en: "scheduler_enabled s" "irq_handlers s = irq_handlers p"
    "irq_handlers s = [PIT_IRQ_HANDLER, KEYBOARD_IRQ_HANDLER] @ replicate 14 NO_HANDLER"
    using set by (auto simp: irq_setup_def p_def)
  have h: "pit_irq_handler regs (s\<lparr>frames := (frames s)(regs := f), new_task_regs := 0\<rparr>) =
      (if (pit_ticks s + 1) mod 10 = 0 then
         (let (new_regs, v) = task_switch regs p
          in if new_regs \<noteq> regs then v\<lparr>new_task_regs := new_regs\<rparr> else v)
       else p)"
    using en by (simp add: pit_irq_handler_view p_def)
  show "sched_view (take_irq dev regs f s) =
      (if (pit_ticks s + 1) mod 10 = 0 then sched_view (snd (task_switch regs p)) else sched_view p)"
    unfolding t h by (simp add: sched_view_def Let_def split_beta)
  have pe: "scheduler_enabled p" using en by (simp add: p_def)
  show "irq_setup (take_irq dev regs f s)"
    unfolding t h irq_setup_def using en pe by (simp add: Let_def split_beta)
qed

section \<open>Preemption\<close>

text \<open>How often the tick counter passes a multiple of ten in the next \<open>n\<close> ticks.\<close>

definition switches_due :: "nat \<Rightarrow> nat \<Rightarrow> nat" where
  "switches_due now n = (now + n) div 10 - now div 10"

lemma switches_due_step:
  "switches_due now (Suc n) = switches_due (Suc now) n + (if Suc now mod 10 = 0 then 1 else 0)"
proof -
  have "Suc now div 10 = now div 10 + (if Suc now mod 10 = 0 then 1 else 0)" by (simp add: div_Suc)
  moreover have "Suc now div 10 \<le> (Suc now + n) div 10" by (simp add: div_le_mono)
  ultimately show ?thesis by (simp add: switches_due_def)
qed

lemma preempted_within:
  fixes s :: "'a kbd_state_scheme"
  assumes "task_inv s" and "irq_setup s" and "t \<in> set (all_tasks s)" and "runnable s t" and "candidate s i = t"
    and "i < switches_due (unat (pit_ticks s)) (length (filter is_timer es))" and "\<forall>e \<in> set es. valid_event e"
    and "unat (pit_ticks s) + length es < 2 ^ 64"
  shows "\<exists>j \<le> length es. current_task (sys_run dev (take j es) s) = t"
  using assms
proof (induction es arbitrary: s i)
  case Nil
  then show ?case by (simp add: switches_due_def)
next
  case (Cons e es)
  let ?u = "sys_step dev e s"
  have run: "sys_run dev (take (Suc j) (e # es)) s = sys_run dev (take j es) ?u" for j
    by (simp add: sys_run_def)
  have lift: ?case if "\<exists>j \<le> length es. current_task (sys_run dev (take j es) ?u) = t"
    using that run by (metis Suc_le_mono length_Cons)
  have valid: "\<forall>e \<in> set es. valid_event e" "valid_event e" using Cons.prems(7) by simp_all
  have step: ?case if v: "sched_view ?u = sched_view w" and w: "task_inv w" "irq_setup ?u" "t \<in> set (all_tasks w)"
    "runnable w t" "candidate w k = t"
    "k < switches_due (unat (pit_ticks w)) (length (filter is_timer es))"
    "unat (pit_ticks w) \<le> unat (pit_ticks s) + 1" for w :: "'a kbd_state_scheme" and k
    using Cons.IH[of ?u k] w valid(1) Cons.prems(8) unfolding sched_view_cong[OF v] by (intro lift) simp
  show ?case
  proof (cases "t = current_task s")
    case True
    then show ?thesis by (intro exI[of _ 0]) (simp add: sys_run_def)
  next
    case nc: False
    have tk: "unat (pit_ticks s) + 1 < 2 ^ 64" using Cons.prems(8) by simp
    have tick: "unat (pit_ticks s + 1) = unat (pit_ticks s) + 1" using tk by (simp add: unat_add_less)
    have call: ?thesis if "?u = sched_step e' s" "\<And>regs. e' \<noteq> Switch regs" "\<not> is_timer e" "irq_setup ?u"
      "pit_ticks ?u = pit_ticks s" for e'
    proof (rule step[of ?u i])
      note o = other_progress[OF nc Cons.prems(4) that(2) tk, folded that(1)]
      show "task_inv ?u" using sched_step_inv[OF Cons.prems(1), of e'] that(1) by simp
      show "t \<in> set (all_tasks ?u)" "runnable ?u t" "candidate ?u i = t" using o Cons.prems(3,5) by simp_all
      show "i < switches_due (unat (pit_ticks ?u)) (length (filter is_timer es))"
        using Cons.prems(6) that(3,5) by simp
    qed (use that in simp_all)
    show ?thesis
    proof (cases e)
      case (SleepCall n)
      then show ?thesis using Cons.prems(2)
        by (intro call[of "Sleep n"]) (auto simp: is_timer_def task_sleep_def irq_setup_def)
    next
      case ExitCall
      then show ?thesis using Cons.prems(2)
        by (intro call[of Exit]) (auto simp: is_timer_def task_exit_def irq_setup_def)
    next
      case (Interrupt regs f)
      show ?thesis
      proof (cases "is_timer e")
        case False
        define j where "j = unat (r_int_no f) - 32"
        have j: "unat (r_int_no f) = 32 + j" "j < 16" "j \<noteq> 0"
          using valid(2) False Interrupt by (auto simp: valid_event_def is_timer_def j_def)
        note o = take_irq_other[OF Cons.prems(2) j, of dev regs]
        show ?thesis
          using o Cons.prems(1,3-6) False by (intro step[of s i]) (simp_all add: Interrupt)
      next
        case timer: True
        then have f: "unat (r_int_no f) = 32" using Interrupt by (simp add: is_timer_def)
        note o = take_irq_timer[OF Cons.prems(2) f, of dev regs]
        define p where "p = s\<lparr>frames := (frames s)(regs := f), new_task_regs := 0, pit_ticks := pit_ticks s + 1\<rparr>"
        have pv: "sched_view p = sched_view (sched_step Tick s)" by (simp add: p_def sched_view_def)
        note pc = sched_view_cong[OF pv]
        have "Tick \<noteq> Switch r" for r by simp
        note q = other_progress[OF nc Cons.prems(4) this tk]
        have p: "task_inv p" "t \<in> set (all_tasks p)" "t \<noteq> current_task p" "runnable p t" "candidate p i = t"
          "pit_ticks p = pit_ticks s + 1"
          using pc q sched_step_inv[OF Cons.prems(1), of Tick] Cons.prems(3,5) nc by simp_all
        have due: "i < switches_due (unat (pit_ticks s) + 1) (length (filter is_timer es)) +
            (if (unat (pit_ticks s) + 1) mod 10 = 0 then 1 else 0)"
          using Cons.prems(6) timer switches_due_step by simp
        have m: "(pit_ticks s + 1) mod 10 = 0 \<longleftrightarrow> (unat (pit_ticks s) + 1) mod 10 = 0"
          unfolding tick[symmetric] by (simp add: unat_eq_0[symmetric] unat_mod)
        have us: "irq_setup ?u" using o(2) by (simp add: Interrupt)
        show ?thesis
        proof (cases "(pit_ticks s + 1) mod 10 = 0")
          case False
          then show ?thesis using o(1) p due m us tick
            by (intro step[of p i]) (simp_all add: Interrupt p_def[symmetric])
        next
          case True
          then have v: "sched_view ?u = sched_view (snd (task_switch regs p))" using o(1) by (simp add: Interrupt p_def)
          show ?thesis
            using switch_progress[OF p(1-5), of regs]
          proof (elim disjE conjE exE)
            assume "current_task (snd (task_switch regs p)) = t"
            then show ?thesis using sched_view_cong(5)[OF v] by (intro lift exI[of _ 0]) (simp add: sys_run_def)
          next
            fix i' assume h: "t \<in> set (all_tasks (snd (task_switch regs p)))" "runnable (snd (task_switch regs p)) t"
              "pit_ticks (snd (task_switch regs p)) = pit_ticks p" "i' < i" "candidate (snd (task_switch regs p)) i' = t"
            show ?thesis
              using h due m True p(6) tick us task_switch_inv[OF p(1), of regs]
              by (intro step[of "snd (task_switch regs p)" i', OF v]) simp_all
          qed
        qed
      qed
    qed
  qed
qed

section \<open>A concrete system\<close>

definition interrupt_frame :: "u64 \<Rightarrow> registers_t" where
  "interrupt_frame n = (initial_frame 0x1000 0x9000)\<lparr>r_int_no := n\<rparr>"

lemma interrupt_frame_no [simp]: "r_int_no (interrupt_frame n) = n"
  by (simp add: interrupt_frame_def)

text \<open>The four tasks of \<open>example_tasks\<close>, task 1 running, under the handlers of the kernel.\<close>

definition example_system :: "u64 \<Rightarrow> kbd_state" where
  "example_system ticks = irq_state.extend
     (task_state.extend (example_tasks TASK_STATE_READY TASK_STATE_READY ticks)
        (irq_state.fields ([PIT_IRQ_HANDLER, KEYBOARD_IRQ_HANDLER] @ replicate 14 NO_HANDLER) 0))
     (kbd_state.fields (replicate 256 0) 0 0 kb_mods_initial)"

lemma example_system_facts:
  "irq_setup (example_system ticks)" "pit_ticks (example_system ticks) = ticks" "task_inv (example_system ticks)"
  "task_count_val (example_system ticks) = 4" "runnable (example_system ticks) 0x400"
  "0x400 \<in> set (all_tasks (example_system ticks))" "current_task (example_system ticks) = 0x200"
proof -
  let ?t = "example_tasks TASK_STATE_READY TASK_STATE_READY ticks"
  note d = example_system_def irq_state.defs kbd_state.defs task_state.defs
  have v: "tcbs (example_system ticks) = tcbs ?t" "task_list (example_system ticks) = task_list ?t"
    "task_count_val (example_system ticks) = task_count_val ?t" "current_task (example_system ticks) = current_task ?t"
    "pit_ticks (example_system ticks) = pit_ticks ?t" "scheduler_enabled (example_system ticks) = scheduler_enabled ?t"
    by (simp_all add: d)
  have e: "all_tasks (example_system ticks) = all_tasks ?t" by (simp add: all_tasks_def v)
  have "task_inv (example_system ticks) = task_inv ?t" by (simp add: task_inv_def e v)
  then show "task_inv (example_system ticks)" "0x400 \<in> set (all_tasks (example_system ticks))"
    by (simp_all add: example_tasks_inv e)
  have "irq_handlers (example_system ticks) = [PIT_IRQ_HANDLER, KEYBOARD_IRQ_HANDLER] @ replicate 14 NO_HANDLER"
    by (simp add: d)
  then show "irq_setup (example_system ticks)" by (simp add: irq_setup_def v) (simp add: example_tasks_def)
  show "task_count_val (example_system ticks) = 4" "runnable (example_system ticks) 0x400"
    "pit_ticks (example_system ticks) = ticks" "current_task (example_system ticks) = 0x200"
    by (simp_all add: runnable_def v) (simp_all add: example_tasks_def example_tcb_def)
qed

section \<open>Properties\<close>

text \<open>
  C27: preemptive scheduling is live from the hardware up. With the handlers the kernel
  installs, a runnable task gets the processor within ten timer interrupts per task,
  whatever keyboard and other hardware interrupts, sleeps and exits come in between, at
  whatever contexts the processor is interrupted.
\<close>

theorem preemption_fair:
  assumes "task_inv s" and "irq_setup s" and "t \<in> set (all_tasks s)" and "runnable s t"
    and "10 * task_count_val s \<le> length (filter is_timer es)" and "\<forall>e \<in> set es. valid_event e"
    and "unat (pit_ticks s) + length es < 2 ^ 64"
  shows "\<exists>j \<le> length es. current_task (sys_run dev (take j es) s) = t"
proof -
  obtain i where i: "i < task_count_val s" "candidate s i = t" using candidate_cover[OF assms(1,3)] by metis
  let ?now = "unat (pit_ticks s)" and ?n = "length (filter is_timer es)"
  have "(?now + 10 * task_count_val s) div 10 \<le> (?now + ?n) div 10" using assms(5) by (intro div_le_mono) simp
  then have "task_count_val s \<le> switches_due ?now ?n" by (simp add: switches_due_def)
  then show ?thesis using preempted_within[OF assms(1-4) i(2) _ assms(6,7)] i(1) by simp
qed

lemma preemption_fair_witness:
  "\<exists>j \<le> 41. current_task (sys_run pic_device
     (take j (SleepCall 100 # replicate 40 (Interrupt 0x7000 (interrupt_frame 32)))) (example_system 3)) = 0x400"
proof -
  define es where "es = SleepCall 100 # replicate 40 (Interrupt 0x7000 (interrupt_frame 32))"
  have len: "length es = 41" by (simp add: es_def)
  have "is_timer (Interrupt 0x7000 (interrupt_frame 32))" by (simp add: is_timer_def)
  then have "length (filter is_timer es) = 40" by (simp add: es_def is_timer_def)
  moreover have "\<forall>e \<in> set es. valid_event e" by (simp add: es_def valid_event_def)
  ultimately have "\<exists>j \<le> length es. current_task (sys_run pic_device (take j es) (example_system 3)) = 0x400"
    by (intro preemption_fair) (simp_all add: example_system_facts len)
  then show ?thesis unfolding len by (simp only: es_def)
qed

text \<open>
  C28: the dispatcher runs exactly the handler registered for the interrupt, then
  acknowledges it, to both controllers for lines 8 to 15 and to the first one otherwise,
  and returns the interrupted context, except when the timer handler switched tasks: then
  it returns the context of the task that is current now. Each timer interrupt is one tick,
  and the scheduler runs on every tenth.
\<close>

theorem irq_handler_correct:
  assumes "unat (r_int_no (frames s regs)) = 32 + j" and "j < 16"
  shows "\<exists>ret t. irq_handler dev regs s = Some (ret, t) \<and>
    (irq_handlers s ! j = NO_HANDLER \<longrightarrow>
       ret = regs \<and> t = s\<lparr>new_task_regs := 0, hw_trace := hw_trace s @ eoi_bytes j\<rparr>) \<and>
    (irq_handlers s ! j = KEYBOARD_IRQ_HANDLER \<longrightarrow>
       ret = regs \<and> sched_view t = sched_view s \<and>
       (kb_inv s \<longrightarrow> kb_contents t =
          (if length (kb_contents s) < 255 then kb_contents s @ [kb_offer dev regs s] else kb_contents s))) \<and>
    (irq_handlers s ! j = PIT_IRQ_HANDLER \<longrightarrow>
       (let s1 = s\<lparr>new_task_regs := 0, pit_ticks := pit_ticks s + 1\<rparr>; (frame, s2) = task_switch regs s1 in
        if scheduler_enabled s \<and> (pit_ticks s + 1) mod 10 = 0
        then sched_view t = sched_view s2 \<and> ret = (if frame = 0 then regs else frame)
        else sched_view t = sched_view s1 \<and> ret = regs)) \<and>
    (\<exists>es. hw_trace t = es @ eoi_bytes j)"
proof -
  define s0 where "s0 = s\<lparr>new_task_regs := 0\<rparr>"
  define u where "u = call_handler (irq_handlers s ! j) dev regs s0"
  define ret where "ret = (if new_task_regs u \<noteq> 0 then new_task_regs u else regs)"
  define t where "t = u\<lparr>hw_trace := hw_trace u @ eoi_bytes j\<rparr>"
  have e: "irq_handler dev regs s = Some (ret, t)"
    using irq_handler_eq[OF assms, of dev] by (simp add: ret_def t_def u_def s0_def Let_def)
  have view: "sched_view t = sched_view u" by (simp add: t_def sched_view_def)
  have none: "ret = regs \<and> t = s\<lparr>new_task_regs := 0, hw_trace := hw_trace s @ eoi_bytes j\<rparr>"
    if "irq_handlers s ! j = NO_HANDLER"
    using that by (simp add: ret_def t_def u_def s0_def call_handler_def)
  have kbd: "ret = regs \<and> sched_view t = sched_view s \<and>
       (kb_inv s \<longrightarrow> kb_contents t =
          (if length (kb_contents s) < 255 then kb_contents s @ [kb_offer dev regs s] else kb_contents s))"
    if "irq_handlers s ! j = KEYBOARD_IRQ_HANDLER"
  proof -
    have u: "u = keyboard_irq_handler dev regs s0" using that by (simp add: u_def call_handler_def)
    have "sched_view s0 = sched_view s" "new_task_regs s0 = 0" by (simp_all add: s0_def sched_view_def)
    then have "ret = regs" "sched_view u = sched_view s" by (simp_all add: ret_def u)
    moreover have "kb_contents t = kb_contents u" by (simp add: t_def kb_contents_def)
    moreover have "kb_contents s0 = kb_contents s" "kb_inv s0 = kb_inv s" "kb_offer dev regs s0 = kb_offer dev regs s"
      by (simp_all add: s0_def kb_contents_def kb_inv_def kb_offer_def)
    ultimately show ?thesis
      using keyboard_irq_handler_contents[of s0 dev regs] view
      by (metis length_kb_contents u)
  qed
  have pit: "let s1 = s\<lparr>new_task_regs := 0, pit_ticks := pit_ticks s + 1\<rparr>; (frame, s2) = task_switch regs s1 in
        if scheduler_enabled s \<and> (pit_ticks s + 1) mod 10 = 0
        then sched_view t = sched_view s2 \<and> ret = (if frame = 0 then regs else frame)
        else sched_view t = sched_view s1 \<and> ret = regs" if "irq_handlers s ! j = PIT_IRQ_HANDLER"
  proof -
    define s1 where "s1 = s\<lparr>new_task_regs := 0, pit_ticks := pit_ticks s + 1\<rparr>"
    obtain frame s2 where sw: "task_switch regs s1 = (frame, s2)" by force
    have n2: "new_task_regs s2 = 0" using task_switch_irq(2)[of regs s1] unfolding sw snd_conv by (simp add: s1_def)
    have "u = pit_irq_handler regs s0" using that by (simp add: u_def call_handler_def)
    then have u: "u = (if scheduler_enabled s \<and> (pit_ticks s + 1) mod 10 = 0
        then (if frame \<noteq> regs then s2\<lparr>new_task_regs := frame\<rparr> else s2) else s1)"
      using sw by (simp add: pit_irq_handler_view s0_def s1_def)
    have "new_task_regs s1 = 0" by (simp add: s1_def)
    then show ?thesis unfolding s1_def[symmetric] Let_def sw prod.case view ret_def using u n2
      by (auto simp: sched_view_def)
  qed
  have "\<exists>es. hw_trace t = es @ eoi_bytes j" by (simp add: t_def)
  then show ?thesis using e none kbd pit by blast
qed

lemma irq_handler_correct_witness:
  "\<exists>ret t. irq_handler pic_device 0x9000 (example_system 9\<lparr>frames := (\<lambda>_. interrupt_frame 32)\<rparr>) = Some (ret, t) \<and>
     ret = 0x7000 \<and> current_task t = 0x300"
proof -
  let ?s = "example_system 9\<lparr>frames := (\<lambda>_. interrupt_frame 32)\<rparr>"
  have f: "unat (r_int_no (frames ?s 0x9000)) = 32 + 0" by simp
  have h: "irq_handlers ?s ! 0 = PIT_IRQ_HANDLER" "scheduler_enabled ?s" "pit_ticks ?s = 9"
    using example_system_facts[of 9] by (simp_all add: irq_setup_def)
  define s1 where "s1 = ?s\<lparr>new_task_regs := 0, pit_ticks := 10\<rparr>"
  have v: "sched_view s1 = sched_view (example_system 10)"
    by (simp add: s1_def sched_view_def example_system_def irq_state.defs kbd_state.defs task_state.defs example_tasks_def)
  note vc = sched_view_cong[OF v]
  have c: "candidate s1 0 = 0x300"
  proof -
    have a: "all_tasks s1 = [0x100, 0x200, 0x300, 0x400]"
      unfolding vc by (simp add: all_tasks_def example_system_def irq_state.defs kbd_state.defs task_state.defs example_tasks_def)
    have i: "task_inv s1" "task_count_val s1 = 4" "current_task s1 = 0x200"
      by (simp_all add: vc example_system_facts)
    have "start_index s1 = (1 + 1) mod task_count_val s1"
      by (rule start_index_current[OF i(1)]) (simp_all add: i a)
    then show ?thesis by (simp add: candidate_def a i)
  qed
  have t: "tcbs s1 0x300 = example_tcb 2 TASK_STATE_READY 0x7000" "current_task s1 = 0x200"
    using v by (simp_all add: sched_view_def example_system_def irq_state.defs kbd_state.defs task_state.defs example_tasks_def)
  have "runnable (saved 0x9000 s1) (candidate s1 0)" "task_regs (tcbs (saved 0x9000 s1) 0x300) = 0x7000"
    using t by (simp_all add: runnable_def saved_def c example_tcb_def)
  then have sw: "task_switch 0x9000 s1 = (0x7000, run_task 0x300 (saved 0x9000 s1))"
    using task_switch_some[of s1 0 "0x9000", unfolded c] vc(1,7) by (simp add: c example_system_facts)
  obtain ret u where "irq_handler pic_device 0x9000 ?s = Some (ret, u)"
    "sched_view u = sched_view (run_task 0x300 (saved 0x9000 s1))" "ret = 0x7000"
    using irq_handler_correct[OF f, of pic_device] h sw by (auto simp: s1_def[symmetric] Let_def)
  then show ?thesis using sched_view_cong(5)[of u "run_task 0x300 (saved 0x9000 s1)"] by simp
qed

end
