(* ===== verification/Desc.thy ===== *)
theory Desc
  imports Irq
begin

text \<open>
  The descriptor tables: \<^verbatim>\<open>src/kernel/idt.c\<close>, \<^verbatim>\<open>gdt.c\<close> and \<^verbatim>\<open>tss.c\<close>. The entry stubs are
  assembly code: the address of the stub of vector \<open>v\<close> is \<open>stub v\<close>, a parameter, as are the
  link addresses of the tables. How the processor decodes a descriptor is defined beside it.
\<close>

section \<open>State\<close>

record idt_entry_t =
  offset_low :: u16
  selector :: u16
  ist :: u8
  type_attr :: u8
  offset_mid :: u16
  offset_high :: u32
  reserved :: u32

record table_ptr =
  ptr_limit :: u16
  ptr_base :: u64

record tss_t =
  tss_reserved0 :: u32
  rsp0 :: u64
  rsp1 :: u64
  rsp2 :: u64
  tss_reserved1 :: u64
  ist1 :: u64
  ist2 :: u64
  ist3 :: u64
  ist4 :: u64
  ist5 :: u64
  ist6 :: u64
  ist7 :: u64
  tss_reserved2 :: u64
  tss_reserved3 :: u16
  io_map_base :: u16

text \<open>4 + 3 * 8 + 8 + 7 * 8 + 8 + 2 + 2 bytes, packed.\<close>

abbreviation SIZEOF_TSS :: u16 where "SIZEOF_TSS \<equiv> 104"

record desc_state = kbd_state +
  idt :: "idt_entry_t list"
  idtp :: table_ptr
  gdt :: "u64 list"
  gdt_ptr :: table_ptr
  tss :: tss_t

section \<open>idt.c\<close>

abbreviation IDT_ENTRIES :: nat where "IDT_ENTRIES \<equiv> 256"
abbreviation IDT_TYPE_INTERRUPT :: u8 where "IDT_TYPE_INTERRUPT \<equiv> 0x8E"

definition zero_gate :: idt_entry_t where
  "zero_gate = \<lparr>offset_low = 0, selector = 0, ist = 0, type_attr = 0, offset_mid = 0, offset_high = 0, reserved = 0\<rparr>"

definition idt_set_gate_ist ::
  "u8 \<Rightarrow> u64 \<Rightarrow> u16 \<Rightarrow> u8 \<Rightarrow> u8 \<Rightarrow> 'a desc_state_scheme \<Rightarrow> 'a desc_state_scheme" where
  "idt_set_gate_ist num handler sel flags ist_no s =
     s\<lparr>idt := (idt s)[unat num :=
        \<lparr>offset_low = ucast (handler AND 0xFFFF), selector = sel, ist = ist_no, type_attr = flags,
         offset_mid = ucast (drop_bit 16 handler AND 0xFFFF),
         offset_high = ucast (drop_bit 32 handler AND 0xFFFFFFFF), reserved = 0\<rparr>]\<rparr>"

definition idt_set_gate :: "u8 \<Rightarrow> u64 \<Rightarrow> u16 \<Rightarrow> u8 \<Rightarrow> 'a desc_state_scheme \<Rightarrow> 'a desc_state_scheme" where
  "idt_set_gate num handler sel flags s = idt_set_gate_ist num handler sel flags 0 s"

text \<open>
  The 48 calls of \<^verbatim>\<open>idt_init\<close>, vectors 0 to 31 for exceptions and 32 to 47 for IRQs; vector 8,
  the double fault, names an interrupt stack.
\<close>

definition idt_init :: "(nat \<Rightarrow> u64) \<Rightarrow> u64 \<Rightarrow> u64 \<Rightarrow> 'a desc_state_scheme \<Rightarrow> 'a desc_state_scheme" where
  "idt_init stub idt_addr idtp_addr s =
     (let s = s\<lparr>idtp := \<lparr>ptr_limit = 16 * of_nat IDT_ENTRIES - 1, ptr_base = idt_addr\<rparr>\<rparr>;
          s = s\<lparr>idt := replicate IDT_ENTRIES zero_gate\<rparr>;
          s = fold (\<lambda>v. if v = 8 then idt_set_gate_ist 8 (stub 8) 0x08 IDT_TYPE_INTERRUPT 1
                        else idt_set_gate (of_nat v) (stub v) 0x08 IDT_TYPE_INTERRUPT) [0..<48] s
      in emit (Lidt idtp_addr) s)"

section \<open>gdt.c and tss.c\<close>

abbreviation GDT_KERNEL_CODE :: u16 where "GDT_KERNEL_CODE \<equiv> 0x08"
abbreviation GDT_KERNEL_DATA :: u16 where "GDT_KERNEL_DATA \<equiv> 0x10"
abbreviation GDT_USER_DATA :: u16 where "GDT_USER_DATA \<equiv> 0x18"
abbreviation GDT_USER_CODE :: u16 where "GDT_USER_CODE \<equiv> 0x20"
abbreviation GDT_TSS :: u16 where "GDT_TSS \<equiv> 0x28"

definition tss_descriptor_low :: "u64 \<Rightarrow> u16 \<Rightarrow> u64" where
  "tss_descriptor_low tss_base tss_size =
     scast (ucast tss_size - 1 :: u32) OR push_bit 16 (tss_base AND 0xFFFFFF) OR push_bit 40 0x89 OR
     push_bit 32 (tss_base AND 0xFF000000)"

definition gdt_init :: "u64 \<Rightarrow> u16 \<Rightarrow> u64 \<Rightarrow> u64 \<Rightarrow> 'a desc_state_scheme \<Rightarrow> 'a desc_state_scheme" where
  "gdt_init tss_ptr tss_size gdt_addr gdt_ptr_addr s =
     (let g = replicate 16 0;
          g = g[0 := 0];
          g = g[1 := 0x00af9a000000ffff];
          g = g[2 := 0x00af92000000ffff];
          g = g[3 := 0x00aff2000000ffff];
          g = g[4 := 0x00affa000000ffff];
          g = g[5 := tss_descriptor_low tss_ptr tss_size];
          g = g[6 := drop_bit 32 tss_ptr];
          s = s\<lparr>gdt := g\<rparr>;
          s = s\<lparr>gdt_ptr := \<lparr>ptr_limit = 8 * 7 - 1, ptr_base = gdt_addr\<rparr>\<rparr>;
          s = emit (Lgdt gdt_ptr_addr) s;
          s = emit ReloadSegments s
      in emit (Ltr GDT_TSS) s)"

definition zero_tss :: tss_t where
  "zero_tss = \<lparr>tss_reserved0 = 0, rsp0 = 0, rsp1 = 0, rsp2 = 0, tss_reserved1 = 0, ist1 = 0, ist2 = 0, ist3 = 0,
     ist4 = 0, ist5 = 0, ist6 = 0, ist7 = 0, tss_reserved2 = 0, tss_reserved3 = 0, io_map_base = 0\<rparr>"

definition tss_init :: "u64 \<Rightarrow> u64 \<Rightarrow> 'a desc_state_scheme \<Rightarrow> 'a desc_state_scheme" where
  "tss_init df_stack df_stack_size s =
     s\<lparr>tss := zero_tss\<lparr>ist1 := df_stack + df_stack_size, io_map_base := SIZEOF_TSS\<rparr>\<rparr>"

definition tss_set_kernel_stack :: "u64 \<Rightarrow> 'a desc_state_scheme \<Rightarrow> 'a desc_state_scheme" where
  "tss_set_kernel_stack stack_top s = s\<lparr>tss := (tss s)\<lparr>rsp0 := stack_top\<rparr>\<rparr>"

section \<open>How the processor reads them\<close>

definition gate_address :: "idt_entry_t \<Rightarrow> u64" where
  "gate_address g = ucast (offset_low g) OR push_bit 16 (ucast (offset_mid g)) OR push_bit 32 (ucast (offset_high g))"

definition gate_present :: "idt_entry_t \<Rightarrow> bool" where
  "gate_present g \<longleftrightarrow> bit (type_attr g) 7"

text \<open>The code segment descriptor of a long-mode selector, and a system descriptor of 16 bytes.\<close>

definition seg_of :: "u64 list \<Rightarrow> u16 \<Rightarrow> u64" where
  "seg_of g sel = g ! (unat sel div 8)"

definition seg_present :: "u64 \<Rightarrow> bool" where "seg_present d \<longleftrightarrow> bit d 47"
definition seg_dpl :: "u64 \<Rightarrow> nat" where "seg_dpl d = unat (drop_bit 45 d AND 3)"
definition seg_code64 :: "u64 \<Rightarrow> bool" where "seg_code64 d \<longleftrightarrow> bit d 44 \<and> bit d 43 \<and> bit d 53 \<and> \<not> bit d 54"
definition seg_data_writable :: "u64 \<Rightarrow> bool" where "seg_data_writable d \<longleftrightarrow> bit d 44 \<and> \<not> bit d 43 \<and> bit d 41"

definition tss_base_of :: "u64 \<Rightarrow> u64 \<Rightarrow> u64" where
  "tss_base_of lo hi = (drop_bit 16 lo AND 0xFFFFFF) OR push_bit 24 (drop_bit 56 lo) OR push_bit 32 hi"

definition tss_limit_of :: "u64 \<Rightarrow> u64" where
  "tss_limit_of lo = (lo AND 0xFFFF) OR push_bit 16 (drop_bit 48 lo AND 0xF)"

definition tss_type_of :: "u64 \<Rightarrow> u64" where
  "tss_type_of lo = drop_bit 40 lo AND 0xFF"

section \<open>Gates\<close>

definition gate_for :: "(nat \<Rightarrow> u64) \<Rightarrow> nat \<Rightarrow> idt_entry_t" where
  "gate_for stub v = \<lparr>offset_low = ucast (stub v AND 0xFFFF), selector = 0x08, ist = (if v = 8 then 1 else 0),
     type_attr = IDT_TYPE_INTERRUPT, offset_mid = ucast (drop_bit 16 (stub v) AND 0xFFFF),
     offset_high = ucast (drop_bit 32 (stub v) AND 0xFFFFFFFF), reserved = 0\<rparr>"

lemma gate_address_for: "gate_address (gate_for stub v) = stub v"
proof -
  have h: "ucast (ucast (w AND 0xFFFF) :: u16) = w AND 0xFFFF" "ucast (ucast (w AND 0xFFFFFFFF) :: u32) = w AND 0xFFFFFFFF"
    for w :: u64
  proof -
    have m: "(0xFFFF :: u64) = mask 16" "(0xFFFFFFFF :: u64) = mask 32" by (simp_all add: mask_eq_exp_minus_1)
    show "ucast (ucast (w AND 0xFFFF) :: u16) = w AND 0xFFFF" "ucast (ucast (w AND 0xFFFFFFFF) :: u32) = w AND 0xFFFFFFFF"
      unfolding m by (auto intro!: bit_word_eqI simp: bit_simps)
  qed
  have m: "(0xFFFF :: u64) = mask 16" "(0xFFFFFFFF :: u64) = mask 32" by (simp_all add: mask_eq_exp_minus_1)
  have "(w AND mask 16) OR push_bit 16 (drop_bit 16 w AND mask 16) OR push_bit 32 (drop_bit 32 w AND mask 32) = w"
    for w :: u64
  proof (rule bit_word_eqI)
    fix n assume "n < LENGTH(64)"
    then show "bit ((w AND mask 16) OR push_bit 16 (drop_bit 16 w AND mask 16) OR
        push_bit 32 (drop_bit 32 w AND mask 32)) n = bit w n"
      by (cases "n < 16"; cases "n < 32") (auto simp: bit_simps less_diff_conv2)
  qed
  then show ?thesis by (simp only: gate_address_def gate_for_def idt_entry_t.select_convs h) (simp only: m)
qed

lemma idt_fold:
  fixes s :: "'a desc_state_scheme" and stub :: "nat \<Rightarrow> u64"
  defines "step \<equiv> \<lambda>v. if v = 8 then idt_set_gate_ist 8 (stub 8) 0x08 IDT_TYPE_INTERRUPT 1
      else idt_set_gate (of_nat v) (stub v) 0x08 IDT_TYPE_INTERRUPT"
  assumes "length (idt s) = IDT_ENTRIES" and "n \<le> IDT_ENTRIES"
  shows "idt (fold step [0..<n] s) = map (gate_for stub) [0..<n] @ drop n (idt s)"
  using assms(3)
proof (induction n)
  case 0
  then show ?case by simp
next
  case (Suc n)
  have "unat (of_nat n :: u8) = n" using Suc.prems by (simp add: unat_of_nat)
  then have st: "idt (step n t) = (idt t)[n := gate_for stub n]" for t :: "'a desc_state_scheme"
    by (simp add: step_def idt_set_gate_def idt_set_gate_ist_def gate_for_def)
  have "idt (fold step [0..<Suc n] s) = (map (gate_for stub) [0..<n] @ drop n (idt s))[n := gate_for stub n]"
    using Suc st by simp
  also have "drop n (idt s) = idt s ! n # drop (Suc n) (idt s)"
    using Suc.prems assms(2) by (simp add: Cons_nth_drop_Suc)
  finally show ?case by (simp add: list_update_append)
qed

lemma idt_init_table:
  "idt (idt_init stub idt_addr idtp_addr s) = map (gate_for stub) [0..<48] @ replicate 208 zero_gate"
  "idtp (idt_init stub idt_addr idtp_addr s) = \<lparr>ptr_limit = 4095, ptr_base = idt_addr\<rparr>"
  "\<exists>es. hw_trace (idt_init stub idt_addr idtp_addr s) = es @ [Lidt idtp_addr]"
proof -
  let ?s = "s\<lparr>idtp := \<lparr>ptr_limit = 16 * of_nat IDT_ENTRIES - 1, ptr_base = idt_addr\<rparr>, idt := replicate IDT_ENTRIES zero_gate\<rparr>"
  have "drop 48 (replicate IDT_ENTRIES zero_gate) = replicate 208 zero_gate" by (simp only: drop_replicate) simp
  then show "idt (idt_init stub idt_addr idtp_addr s) = map (gate_for stub) [0..<48] @ replicate 208 zero_gate"
    using idt_fold[of ?s 48 stub] by (simp only: idt_init_def Let_def) (simp add: emit_def)
  have keep: "idtp (fold f vs t) = idtp t" if "\<And>v t. idtp (f v t) = idtp t" for f vs and t :: "'a desc_state_scheme"
    using that by (induction vs arbitrary: t) simp_all
  show "idtp (idt_init stub idt_addr idtp_addr s) = \<lparr>ptr_limit = 4095, ptr_base = idt_addr\<rparr>"
    by (simp only: idt_init_def Let_def) (subst keep | simp add: emit_def idt_set_gate_def idt_set_gate_ist_def)+
  show "\<exists>es. hw_trace (idt_init stub idt_addr idtp_addr s) = es @ [Lidt idtp_addr]"
    by (simp add: idt_init_def Let_def emit_def)
qed

section \<open>The task state descriptor\<close>

lemma small_bits:
  assumes "unat (w :: u64) < 2 ^ k" and "k \<le> n"
  shows "\<not> bit w n"
proof
  assume "bit w n"
  then have "bit (unat w) n" by (simp add: bit_unsigned_iff)
  then have "odd (unat w div 2 ^ n)" by (simp add: bit_iff_odd)
  moreover have "unat w < 2 ^ n" using assms by (meson less_le_trans one_le_numeral power_increasing)
  ultimately show False by simp
qed

lemma tss_fields:
  fixes v c b :: u64
  assumes v: "\<And>n. 16 \<le> n \<Longrightarrow> \<not> bit v n" and c: "\<And>n. 8 \<le> n \<Longrightarrow> \<not> bit c n"
  defines "lo \<equiv> v OR push_bit 16 (b AND mask 24) OR push_bit 40 c OR push_bit 32 (b AND push_bit 24 (mask 8))"
  shows "(drop_bit 16 lo AND mask 24) OR push_bit 24 (drop_bit 56 lo) OR push_bit 32 (drop_bit 32 b) = b"
    "(lo AND mask 16) OR push_bit 16 (drop_bit 48 lo AND mask 4) = v"
    "drop_bit 40 lo AND mask 8 = c"
proof -
  have bit_lo: "bit lo n \<longleftrightarrow> n < 64 \<and> (if n < 16 then bit v n else if n < 40 then bit b (n - 16)
      else if n < 48 then bit c (n - 40) else if n < 56 then False else bit b (n - 32))" for n
    using v[of n] c[of "n - 40"]
    by (cases "n < 16"; cases "n < 40"; cases "n < 48"; cases "n < 56") (auto simp: lo_def bit_simps)
  show "(drop_bit 16 lo AND mask 24) OR push_bit 24 (drop_bit 56 lo) OR push_bit 32 (drop_bit 32 b) = b"
  proof (rule bit_word_eqI)
    fix n assume n: "n < LENGTH(64)"
    show "bit ((drop_bit 16 lo AND mask 24) OR push_bit 24 (drop_bit 56 lo) OR push_bit 32 (drop_bit 32 b)) n = bit b n"
      using n by (cases "n < 24"; cases "n < 32") (auto simp: bit_or_iff bit_and_iff bit_push_bit_iff bit_drop_bit_eq bit_mask_iff bit_lo)
  qed
  show "(lo AND mask 16) OR push_bit 16 (drop_bit 48 lo AND mask 4) = v"
  proof (rule bit_word_eqI)
    fix n assume n: "n < LENGTH(64)"
    show "bit ((lo AND mask 16) OR push_bit 16 (drop_bit 48 lo AND mask 4)) n = bit v n"
      using n v[of n] by (cases "n < 16"; cases "n < 20") (auto simp: bit_or_iff bit_and_iff bit_push_bit_iff bit_drop_bit_eq bit_mask_iff bit_lo)
  qed
  show "drop_bit 40 lo AND mask 8 = c"
  proof (rule bit_word_eqI)
    fix n assume n: "n < LENGTH(64)"
    show "bit (drop_bit 40 lo AND mask 8) n = bit c n"
      using n c[of n] by (cases "n < 8") (auto simp: bit_and_iff bit_drop_bit_eq bit_mask_iff bit_lo)
  qed
qed

lemma tss_limit_word:
  fixes sz :: u16
  assumes "0 < unat sz"
  shows "unat (scast (ucast sz - 1 :: u32) :: u64) = unat sz - 1"
proof -
  have lt: "unat sz < 65536" using unsigned_less[of sz] by simp
  have us: "unat (ucast sz :: u32) = unat sz" using lt by (simp add: unsigned_ucast_eq take_bit_nat_eq_self_iff)
  then have u: "unat (ucast sz - 1 :: u32) = unat sz - 1"
    using assms by (subst unat_sub) (simp_all add: word_le_nat_alt)
  then have "uint (ucast sz - 1 :: u32) = int (unat sz - 1)" by (metis uint_nat)
  then have "sint (ucast sz - 1 :: u32) = int (unat sz - 1)"
    using lt by (simp add: sint_uint signed_take_bit_int_eq_self_iff)
  then have "(scast (ucast sz - 1 :: u32) :: u64) = of_nat (unat sz - 1)"
    by (metis of_int_of_nat_eq of_int_sint)
  then show ?thesis using lt by (simp add: unat_of_nat)
qed

lemma tss_descriptor:
  assumes "0 < unat sz"
  shows "tss_base_of (tss_descriptor_low base sz) (drop_bit 32 base) = base"
    "unat (tss_limit_of (tss_descriptor_low base sz)) = unat sz - 1"
    "tss_type_of (tss_descriptor_low base sz) = 0x89"
proof -
  define v :: u64 where "v = scast (ucast sz - 1 :: u32)"
  have uv: "unat v = unat sz - 1" using tss_limit_word[OF assms] by (simp only: v_def)
  moreover have "unat sz < 65536" using unsigned_less[of sz] by simp
  ultimately have "unat v < 2 ^ 16" by simp
  then have v: "\<not> bit v n" if "16 \<le> n" for n using small_bits that by blast
  have "unat (0x89 :: u64) < 2 ^ 8" by simp
  then have c: "\<not> bit (0x89 :: u64) n" if "8 \<le> n" for n using small_bits that by blast
  have m: "(0xFFFFFF :: u64) = mask 24" "(0xFF000000 :: u64) = push_bit 24 (mask 8)" "(0xFFFF :: u64) = mask 16"
    "(0xF :: u64) = mask 4" "(0xFF :: u64) = mask 8" by (simp_all add: mask_eq_exp_minus_1)
  have lo: "tss_descriptor_low base sz = v OR push_bit 16 (base AND mask 24) OR push_bit 40 0x89 OR
      push_bit 32 (base AND push_bit 24 (mask 8))"
    by (simp only: tss_descriptor_low_def v_def m)
  note f = tss_fields[OF v c, of base, folded lo]
  show "tss_base_of (tss_descriptor_low base sz) (drop_bit 32 base) = base"
    using f(1) by (simp only: tss_base_of_def m)
  show "tss_type_of (tss_descriptor_low base sz) = 0x89"
    using f(3) by (simp only: tss_type_of_def m)
  have "tss_limit_of (tss_descriptor_low base sz) = v" using f(2) by (simp only: tss_limit_of_def m)
  then show "unat (tss_limit_of (tss_descriptor_low base sz)) = unat sz - 1" using uv by simp
qed

end
