(* ===== verification/Syscall.thy ===== *)
theory Syscall
  imports Desc
begin

text \<open>
  System calls, \<^verbatim>\<open>src/kernel/syscall.c\<close>: the model-specific registers that \<^verbatim>\<open>syscall_init\<close>
  programs and the handler that the assembly entry calls. The handler reads the caller's
  buffer through the page tables, so a byte that is not mapped is a page fault.
\<close>

section \<open>State\<close>

record cpu_data_t =
  kernel_stack :: u64
  user_stack :: u64
  cpu_current_task :: u64

record sys_state = desc_state +
  msrs :: "u32 \<Rightarrow> u64"
  cpu_data :: cpu_data_t

abbreviation MSR_GS_BASE :: u32 where "MSR_GS_BASE \<equiv> 0xC0000101"
abbreviation MSR_KERNEL_GS_BASE :: u32 where "MSR_KERNEL_GS_BASE \<equiv> 0xC0000102"
abbreviation MSR_EFER :: u32 where "MSR_EFER \<equiv> 0xC0000080"
abbreviation MSR_STAR :: u32 where "MSR_STAR \<equiv> 0xC0000081"
abbreviation MSR_LSTAR :: u32 where "MSR_LSTAR \<equiv> 0xC0000082"
abbreviation MSR_SFMASK :: u32 where "MSR_SFMASK \<equiv> 0xC0000084"
abbreviation EFER_SCE :: u64 where "EFER_SCE \<equiv> 1"
abbreviation SFMASK_IF :: u64 where "SFMASK_IF \<equiv> 0x200"
abbreviation SFMASK_TF :: u64 where "SFMASK_TF \<equiv> 0x100"
abbreviation SFMASK_DF :: u64 where "SFMASK_DF \<equiv> 0x400"

section \<open>syscall.c\<close>

text \<open>\<^verbatim>\<open>rdmsr\<close> and \<^verbatim>\<open>wrmsr\<close> move a register through two 32-bit halves.\<close>

definition rdmsr :: "u32 \<Rightarrow> 'a sys_state_scheme \<Rightarrow> u64" where
  "rdmsr msr s =
     (let lo = ucast (msrs s msr) :: u32; hi = ucast (drop_bit 32 (msrs s msr)) :: u32
      in push_bit 32 (ucast hi) OR ucast lo)"

definition wrmsr :: "u32 \<Rightarrow> u64 \<Rightarrow> 'a sys_state_scheme \<Rightarrow> 'a sys_state_scheme" where
  "wrmsr msr value s =
     (let lo = ucast (value AND 0xFFFFFFFF) :: u32; hi = ucast (drop_bit 32 value) :: u32;
          v = push_bit 32 (ucast hi) OR ucast lo
      in emit (Wrmsr msr v) (s\<lparr>msrs := (msrs s)(msr := v)\<rparr>))"

definition syscall_init :: "u64 \<Rightarrow> u64 \<Rightarrow> 'a sys_state_scheme \<Rightarrow> 'a sys_state_scheme" where
  "syscall_init syscall_entry cpu_data_addr s =
     (let s = s\<lparr>cpu_data := \<lparr>kernel_stack = 0, user_stack = 0, cpu_current_task = 0\<rparr>\<rparr>;
          efer = rdmsr MSR_EFER s;
          efer = efer OR EFER_SCE;
          s = wrmsr MSR_EFER efer s;
          star = 0;
          star = star OR push_bit 32 (ucast GDT_KERNEL_CODE);
          star = star OR push_bit 48 (ucast GDT_KERNEL_DATA);
          s = wrmsr MSR_STAR star s;
          s = wrmsr MSR_LSTAR syscall_entry s;
          s = wrmsr MSR_SFMASK (SFMASK_IF OR SFMASK_TF OR SFMASK_DF) s;
          s = wrmsr MSR_GS_BASE 0 s
      in wrmsr MSR_KERNEL_GS_BASE cpu_data_addr s)"

definition syscall_set_kernel_stack :: "u64 \<Rightarrow> 'a sys_state_scheme \<Rightarrow> 'a sys_state_scheme" where
  "syscall_set_kernel_stack stack_top s = s\<lparr>cpu_data := (cpu_data s)\<lparr>kernel_stack := stack_top\<rparr>\<rparr>"

datatype 's sysret = Value u64 's | HaltLoop 's | PageFault u64 's

abbreviation SYS_EXIT :: u64 where "SYS_EXIT \<equiv> 0"
abbreviation SYS_WRITE :: u64 where "SYS_WRITE \<equiv> 1"
abbreviation SYS_READ :: u64 where "SYS_READ \<equiv> 2"
abbreviation SYS_YIELD :: u64 where "SYS_YIELD \<equiv> 3"

text \<open>The loop of \<^verbatim>\<open>SYS_WRITE\<close>: \<open>Inl\<close> is the address of the faulting access.\<close>

primrec write_loop :: "nat \<Rightarrow> u64 \<Rightarrow> u64 \<Rightarrow> 'a vmm_state_scheme \<Rightarrow> (u64 + unit) \<times> 'a vmm_state_scheme" where
  "write_loop 0 i buf s = (Inr (), s)"
| "write_loop (Suc n) i buf s =
     (case translation s (buf + i) of
        None \<Rightarrow> (Inl (buf + i), s)
      | Some pa \<Rightarrow> write_loop n (i + 1) buf (vga_putchar (mem s pa) s))"

definition syscall_handler :: "u64 \<Rightarrow> u64 \<Rightarrow> u64 \<Rightarrow> u64 \<Rightarrow> 'a vmm_state_scheme \<Rightarrow> 'a vmm_state_scheme sysret" where
  "syscall_handler syscall_num arg1 arg2 arg3 s =
     (if syscall_num = SYS_EXIT then HaltLoop (emit Hlt s)
      else if syscall_num = SYS_WRITE then
        (if arg1 = 1 then
           (case write_loop (unat arg3) 0 arg2 s of
              (Inr _, s) \<Rightarrow> Value arg3 s | (Inl va, s) \<Rightarrow> PageFault va s)
         else Value (- 1) s)
      else if syscall_num = SYS_READ then Value (- 1) s
      else if syscall_num = SYS_YIELD then Value 0 s
      else Value (- 1) s)"

section \<open>What the processor does with STAR\<close>

definition syscall_cs :: "u64 \<Rightarrow> u16" where "syscall_cs star = ucast (drop_bit 32 star) AND 0xFFFC"
definition syscall_ss :: "u64 \<Rightarrow> u16" where "syscall_ss star = ucast (drop_bit 32 star) + 8"
definition sysret_cs :: "u64 \<Rightarrow> u16" where "sysret_cs star = (ucast (drop_bit 48 star) + 16) OR 3"
definition sysret_ss :: "u64 \<Rightarrow> u16" where "sysret_ss star = (ucast (drop_bit 48 star) + 8) OR 3"

section \<open>Lemmas\<close>

lemma msr_halves: "push_bit 32 (ucast (ucast (drop_bit 32 v) :: u32)) OR ucast (ucast (v AND 0xFFFFFFFF) :: u32) = (v :: u64)"
  "push_bit 32 (ucast (ucast (drop_bit 32 v) :: u32)) OR ucast (ucast v :: u32) = (v :: u64)"
proof -
  have m: "(0xFFFFFFFF :: u64) = mask 32" by (simp add: mask_eq_exp_minus_1)
  have e: "bit (push_bit 32 (ucast (ucast (drop_bit 32 v) :: u32)) OR ucast (ucast (v AND mask 32) :: u32) :: u64) n = bit v n"
    "bit (push_bit 32 (ucast (ucast (drop_bit 32 v) :: u32)) OR ucast (ucast v :: u32) :: u64) n = bit v n"
    if "n < 64" for n
    using that by (cases "n < 32"; auto simp: bit_simps less_diff_conv2)+
  show "push_bit 32 (ucast (ucast (drop_bit 32 v) :: u32)) OR ucast (ucast (v AND 0xFFFFFFFF) :: u32) = (v :: u64)"
    "push_bit 32 (ucast (ucast (drop_bit 32 v) :: u32)) OR ucast (ucast v :: u32) = (v :: u64)"
    unfolding m using e by (auto intro: bit_word_eqI)
qed

lemma rdmsr_eq [simp]: "rdmsr msr s = msrs s msr"
  unfolding rdmsr_def Let_def by (rule msr_halves(2))

lemma wrmsr_eq [simp]: "wrmsr msr v s = emit (Wrmsr msr v) (s\<lparr>msrs := (msrs s)(msr := v)\<rparr>)"
  unfolding wrmsr_def Let_def msr_halves(1) ..

lemma translation_putchar [simp]: "translation (vga_putchar c s) = translation s"
  using vga_only_vmm(4)[OF vga_only_putchar] .

lemma mem_putchar [simp]:
  fixes s :: "'a vga_state_scheme"
  shows "mem (vga_putchar c s) = mem s"
proof -
  obtain b x y col es where "vga_putchar c s = s\<lparr>hw_trace := hw_trace s @ es, vga_buffer := b, vga_cursor_x := x,
      vga_cursor_y := y, vga_color := col\<rparr>" using vga_only_putchar[of s c] by (rule vga_onlyE)
  then show ?thesis by simp
qed

definition virt_bytes :: "'a vmm_state_scheme \<Rightarrow> u64 \<Rightarrow> nat \<Rightarrow> u8 list" where
  "virt_bytes s buf n = map (\<lambda>i. mem s (the (translation s (buf + of_nat i)))) [0..<n]"

lemma virt_bytes_Suc:
  "virt_bytes s buf (Suc n) = mem s (the (translation s buf)) # virt_bytes s (buf + 1) n"
  unfolding virt_bytes_def upt_conv_Cons[OF zero_less_Suc] map_Suc_upt[symmetric] by (simp add: ac_simps)

lemma write_loop_mapped:
  "(\<And>j. j < n \<Longrightarrow> translation s (buf + i + of_nat j) \<noteq> None) \<Longrightarrow>
   write_loop n i buf s = (Inr (), fold vga_putchar (virt_bytes s (buf + i) n) s)"
proof (induction n arbitrary: i s)
  case 0
  then show ?case by (simp add: virt_bytes_def)
next
  case (Suc n)
  obtain pa where pa: "translation s (buf + i) = Some pa" using Suc.prems[of 0] by auto
  let ?t = "vga_putchar (mem s pa) s"
  have "translation ?t (buf + (i + 1) + of_nat j) \<noteq> None" if "j < n" for j
    using Suc.prems[of "Suc j"] that by (simp add: ac_simps)
  then have "write_loop n (i + 1) buf ?t = (Inr (), fold vga_putchar (virt_bytes ?t (buf + (i + 1)) n) ?t)"
    by (rule Suc.IH)
  then show ?case by (simp add: pa virt_bytes_Suc ac_simps) (simp add: virt_bytes_def ac_simps)
qed

lemma write_loop_fault:
  "k < n \<Longrightarrow> translation s (buf + i + of_nat k) = None \<Longrightarrow>
   (\<And>j. j < k \<Longrightarrow> translation s (buf + i + of_nat j) \<noteq> None) \<Longrightarrow>
   write_loop n i buf s = (Inl (buf + i + of_nat k), fold vga_putchar (virt_bytes s (buf + i) k) s)"
proof (induction k arbitrary: n i s)
  case 0
  then show ?case by (cases n) (simp_all add: virt_bytes_def)
next
  case (Suc k)
  obtain n' where n: "n = Suc n'" using Suc.prems(1) by (cases n) auto
  obtain pa where pa: "translation s (buf + i) = Some pa" using Suc.prems(3)[of 0] by auto
  let ?t = "vga_putchar (mem s pa) s"
  have "write_loop n' (i + 1) buf ?t = (Inl (buf + (i + 1) + of_nat k), fold vga_putchar (virt_bytes ?t (buf + (i + 1)) k) ?t)"
  proof (rule Suc.IH)
    show "k < n'" using Suc.prems(1) n by simp
    show "translation ?t (buf + (i + 1) + of_nat k) = None" using Suc.prems(2) by (simp add: ac_simps)
    show "translation ?t (buf + (i + 1) + of_nat j) \<noteq> None" if "j < k" for j
      using Suc.prems(3)[of "Suc j"] that by (simp add: ac_simps)
  qed
  then show ?case by (simp add: n pa virt_bytes_Suc ac_simps) (simp add: virt_bytes_def ac_simps)
qed

section \<open>Properties\<close>

text \<open>
  C33: after \<^verbatim>\<open>idt_init\<close> the processor finds, for each of the 256 vectors, a present interrupt
  gate exactly for the 48 exceptions and IRQs; it leads to the entry stub of its own vector
  in the kernel code segment, and only the double fault switches to an interrupt stack. The
  loaded limit covers the whole table.
\<close>

theorem idt_init_correct:
  assumes "v < 256"
  shows "let t = idt_init stub idt_addr idtp_addr s in (gate_present (idt t ! v) \<longleftrightarrow> v < 48) \<and>
    (v < 48 \<longrightarrow> gate_address (idt t ! v) = stub v \<and> selector (idt t ! v) = GDT_KERNEL_CODE \<and>
       ist (idt t ! v) = (if v = 8 then 1 else 0) \<and> type_attr (idt t ! v) = IDT_TYPE_INTERRUPT) \<and>
    length (idt t) = 256 \<and> unat (ptr_limit (idtp t)) + 1 = 16 * 256 \<and> ptr_base (idtp t) = idt_addr"
proof -
  define t where "t = idt_init stub idt_addr idtp_addr s"
  have g: "idt t ! v = (if v < 48 then gate_for stub v else zero_gate)"
    unfolding t_def idt_init_table(1) using assms(1) by (simp add: nth_append)
  have "gate_present (gate_for stub v)" "\<not> gate_present zero_gate"
    by (simp_all add: gate_present_def gate_for_def zero_gate_def)
  moreover have "length (idt t) = 256" by (simp add: t_def idt_init_table(1))
  ultimately show ?thesis
    unfolding t_def[symmetric] Let_def g using gate_address_for[of stub v] by (simp add: t_def idt_init_table(2)) (simp add: gate_for_def)
qed

definition example_sys :: sys_state where
  "example_sys = desc_state.extend
     (kbd_state.extend (example_system 0)
        (desc_state.fields [] \<lparr>ptr_limit = 0, ptr_base = 0\<rparr> [] \<lparr>ptr_limit = 0, ptr_base = 0\<rparr> zero_tss))
     (sys_state.fields (\<lambda>_. 0) \<lparr>kernel_stack = 0, user_stack = 0, cpu_current_task = 0\<rparr>)"

lemma idt_init_correct_witness:
  "gate_address (idt (idt_init (\<lambda>v. 0x100000 + 16 * of_nat v) 0x5000 0x6000 example_sys) ! 33) = 0x100210 \<and>
   \<not> gate_present (idt (idt_init (\<lambda>v. 0x100000 + 16 * of_nat v) 0x5000 0x6000 example_sys) ! 48)"
  using idt_init_correct[of 33 "\<lambda>v. 0x100000 + 16 * of_nat v" "0x5000" "0x6000" example_sys]
    idt_init_correct[of 48 "\<lambda>v. 0x100000 + 16 * of_nat v" "0x5000" "0x6000" example_sys]
  unfolding Let_def by simp

text \<open>
  C34: the segment setup is consistent. After \<^verbatim>\<open>gdt_init\<close> the kernel selectors name a present
  64-bit code segment and a writable data segment of ring 0, the user selectors the same for
  ring 3, and the TSS selector an available 64-bit TSS with the address and size of the real
  one, all within the loaded limit. The selectors that SYSCALL and SYSRET derive from the STAR
  value of \<^verbatim>\<open>syscall_init\<close>, those in the frame of a new task and that of every gate of the table
  \<^verbatim>\<open>idt_init\<close> builds are exactly these. The interrupt stack that the double fault gate names is,
  after \<^verbatim>\<open>tss_init\<close>, the top of the stack given to it; the other gates name none; and the I/O
  map starts behind the limit of the TSS, so ring 3 has no ports.
\<close>

theorem segments_consistent:
  assumes "v < 48"
  shows "let s1 = gdt_init tss_addr SIZEOF_TSS gdt_addr gdtp_addr s; g = gdt s1;
        star = msrs (syscall_init entry cpu_addr s') MSR_STAR;
        gate = idt (idt_init stub idt_addr idtp_addr si) ! v;
        ts = tss (tss_init df_stack df_size st) in
    seg_present (seg_of g GDT_KERNEL_CODE) \<and> seg_code64 (seg_of g GDT_KERNEL_CODE) \<and> seg_dpl (seg_of g GDT_KERNEL_CODE) = 0 \<and>
    seg_present (seg_of g GDT_KERNEL_DATA) \<and> seg_data_writable (seg_of g GDT_KERNEL_DATA) \<and> seg_dpl (seg_of g GDT_KERNEL_DATA) = 0 \<and>
    seg_present (seg_of g GDT_USER_CODE) \<and> seg_code64 (seg_of g GDT_USER_CODE) \<and> seg_dpl (seg_of g GDT_USER_CODE) = 3 \<and>
    seg_present (seg_of g GDT_USER_DATA) \<and> seg_data_writable (seg_of g GDT_USER_DATA) \<and> seg_dpl (seg_of g GDT_USER_DATA) = 3 \<and>
    tss_type_of (seg_of g GDT_TSS) = 0x89 \<and> unat (tss_limit_of (seg_of g GDT_TSS)) + 1 = unat SIZEOF_TSS \<and>
    tss_base_of (seg_of g GDT_TSS) (seg_of g (GDT_TSS + 8)) = tss_addr \<and>
    unat GDT_TSS + 15 \<le> unat (ptr_limit (gdt_ptr s1)) \<and> ptr_base (gdt_ptr s1) = gdt_addr \<and>
    syscall_cs star = GDT_KERNEL_CODE \<and> syscall_ss star = GDT_KERNEL_DATA \<and>
    sysret_cs star = (GDT_USER_CODE OR 3) \<and> sysret_ss star = (GDT_USER_DATA OR 3) \<and>
    r_cs (initial_frame e sp) = ucast GDT_KERNEL_CODE \<and> r_ss (initial_frame e sp) = ucast GDT_KERNEL_DATA \<and>
    selector gate = GDT_KERNEL_CODE \<and> ist gate = (if v = 8 then 1 else 0) \<and>
    ist1 ts = df_stack + df_size \<and> unat (tss_limit_of (seg_of g GDT_TSS)) < unat (io_map_base ts)"
proof -
  define s1 where "s1 = gdt_init tss_addr SIZEOF_TSS gdt_addr gdtp_addr s"
  define star where "star = msrs (syscall_init entry cpu_addr s') MSR_STAR"
  have g: "seg_of (gdt s1) GDT_KERNEL_CODE = 0x00af9a000000ffff" "seg_of (gdt s1) GDT_KERNEL_DATA = 0x00af92000000ffff"
    "seg_of (gdt s1) GDT_USER_DATA = 0x00aff2000000ffff" "seg_of (gdt s1) GDT_USER_CODE = 0x00affa000000ffff"
    "seg_of (gdt s1) GDT_TSS = tss_descriptor_low tss_addr SIZEOF_TSS" "seg_of (gdt s1) (GDT_TSS + 8) = drop_bit 32 tss_addr"
    "gdt_ptr s1 = \<lparr>ptr_limit = 55, ptr_base = gdt_addr\<rparr>"
    by (simp_all add: s1_def gdt_init_def Let_def emit_def seg_of_def)
  have star: "star = 0x0010000800000000"
    by (simp add: star_def syscall_init_def Let_def emit_def)
  have gate: "idt (idt_init stub idt_addr idtp_addr si) ! v = gate_for stub v"
    unfolding idt_init_table(1) using assms by (simp add: nth_append)
  have "0 < unat SIZEOF_TSS" by simp
  note d = tss_descriptor[OF this, of tss_addr]
  show ?thesis
    unfolding s1_def[symmetric] star_def[symmetric] Let_def g star gate d
    by (simp add: seg_present_def seg_code64_def seg_dpl_def seg_data_writable_def syscall_cs_def syscall_ss_def
        sysret_cs_def sysret_ss_def initial_frame_def gate_for_def tss_init_def)
qed

lemma segments_consistent_witness:
  "tss_base_of (seg_of (gdt (gdt_init 0x123456789A SIZEOF_TSS 0x5000 0x6000 example_sys)) GDT_TSS)
     (seg_of (gdt (gdt_init 0x123456789A SIZEOF_TSS 0x5000 0x6000 example_sys)) (GDT_TSS + 8)) = 0x123456789A \<and>
   ist (idt (idt_init (\<lambda>_. 0) 0x7000 0x8000 example_sys) ! 8) = 1 \<and> ist1 (tss (tss_init 0x9000 0x2000 example_sys)) = 0xB000"
proof -
  have "(8 :: nat) < 48" by simp
  note c = segments_consistent[OF this, where tss_addr = "0x123456789A" and gdt_addr = "0x5000" and gdtp_addr = "0x6000"
    and s = example_sys and s' = example_sys and entry = 0 and cpu_addr = 0 and stub = "\<lambda>_. 0" and idt_addr = "0x7000"
    and idtp_addr = "0x8000" and si = example_sys and df_stack = "0x9000" and df_size = "0x2000" and st = example_sys
    and e = 0 and sp = 0]
  show ?thesis using c unfolding Let_def by simp
qed

text \<open>
  C35: \<^verbatim>\<open>SYS_WRITE\<close> to descriptor 1 prints exactly the bytes of the buffer and returns its
  length, whatever memory the buffer covers as long as it is mapped (it is not compared with
  the caller's rights), and faults at the first unmapped byte after printing those before
  it. Every other call number and descriptor changes nothing and returns 0 for
  \<^verbatim>\<open>SYS_YIELD\<close> and -1 otherwise; \<^verbatim>\<open>SYS_EXIT\<close> stops the machine.
\<close>

theorem syscall_handler_correct:
  "((\<forall>i < unat n. translation s (buf + of_nat i) \<noteq> None) \<longrightarrow>
      syscall_handler SYS_WRITE 1 buf n s = Value n (fold vga_putchar (virt_bytes s buf (unat n)) s)) \<and>
   (k < unat n \<and> translation s (buf + of_nat k) = None \<and> (\<forall>i < k. translation s (buf + of_nat i) \<noteq> None) \<longrightarrow>
      syscall_handler SYS_WRITE 1 buf n s = PageFault (buf + of_nat k) (fold vga_putchar (virt_bytes s buf k) s)) \<and>
   (num \<noteq> SYS_EXIT \<and> (num \<noteq> SYS_WRITE \<or> fd \<noteq> 1) \<longrightarrow>
      syscall_handler num fd buf n s = Value (if num = SYS_YIELD then 0 else - 1) s) \<and>
   syscall_handler SYS_EXIT fd buf n s = HaltLoop (emit Hlt s)"
proof -
  have "syscall_handler SYS_WRITE 1 buf n s = Value n (fold vga_putchar (virt_bytes s buf (unat n)) s)"
    if "\<forall>i < unat n. translation s (buf + of_nat i) \<noteq> None"
    using write_loop_mapped[of "unat n" s buf 0] that by (simp add: syscall_handler_def)
  moreover have "syscall_handler SYS_WRITE 1 buf n s = PageFault (buf + of_nat k) (fold vga_putchar (virt_bytes s buf k) s)"
    if "k < unat n" "translation s (buf + of_nat k) = None" "\<forall>i < k. translation s (buf + of_nat i) \<noteq> None"
    using write_loop_fault[of k "unat n" s buf 0] that by (simp add: syscall_handler_def)
  ultimately show ?thesis by (auto simp: syscall_handler_def)
qed

lemma syscall_handler_correct_witness:
  "syscall_handler SYS_WRITE 1 0x400000 5 example_heap = PageFault 0x400000 example_heap \<and>
   syscall_handler SYS_WRITE 2 0x400000 5 example_heap = Value (- 1) example_heap"
proof -
  have "translation example_heap va = None" for va
    using example_vmm_paths(3)[of va] by (simp add: translation_def example_heap_def example_vmm_def)
  then show ?thesis
    using syscall_handler_correct[of 5 example_heap "0x400000" 0 SYS_WRITE 2] by (simp add: virt_bytes_def)
qed

end
