(* ===== verification/Commands.thy ===== *)
theory Commands
  imports Syscall
begin

text \<open>
  The shell commands, \<^verbatim>\<open>src/kernel/commands.c\<close> and the files of \<^verbatim>\<open>src/kernel/commands/\<close>.
  Commands that return on every path are state functions. The others say how they end:
  they return, stop the processor in a \<^verbatim>\<open>hlt\<close> loop, raise a processor exception, or enter
  user mode. A wait for a device that never answers is \<open>None\<close>.
\<close>

section \<open>How a command ends\<close>

datatype 's cmd_result =
    CmdReturn 's
  | CmdHalt 's
  | CmdException u64 's
  | CmdUserMode u64 u64 's

fun cmd_state :: "'s cmd_result \<Rightarrow> 's" where
  "cmd_state (CmdReturn s) = s"
| "cmd_state (CmdHalt s) = s"
| "cmd_state (CmdException v s) = s"
| "cmd_state (CmdUserMode sp ip s) = s"

abbreviation EXC_DIVIDE_ERROR :: u64 where "EXC_DIVIDE_ERROR \<equiv> 0"
abbreviation EXC_INVALID_OPCODE :: u64 where "EXC_INVALID_OPCODE \<equiv> 6"
abbreviation EXC_PAGE_FAULT :: u64 where "EXC_PAGE_FAULT \<equiv> 14"

text \<open>
  Steps of a command that may leave it: \<open>Inl\<close> is the result it leaves with, \<open>Inr\<close> the
  state to go on in.
\<close>

definition and_then :: "'r + 's \<Rightarrow> ('s \<Rightarrow> 'r + 't) \<Rightarrow> 'r + 't" where
  "and_then x f = (case x of Inl r \<Rightarrow> Inl r | Inr s \<Rightarrow> f s)"

lemma and_then_simps [simp]: "and_then (Inl r) f = Inl r" "and_then (Inr s) f = f s"
  by (simp_all add: and_then_def)

primrec each :: "('x \<Rightarrow> 's \<Rightarrow> 'r + 's) \<Rightarrow> 'x list \<Rightarrow> 's \<Rightarrow> 'r + 's" where
  "each f [] s = Inr s"
| "each f (x # xs) s = and_then (f x s) (each f xs)"

fun finish :: "'s cmd_result + 's \<Rightarrow> 's cmd_result" where
  "finish (Inl r) = r"
| "finish (Inr s) = CmdReturn s"

text \<open>
  Loads and stores through the page tables. None of the accesses below crosses a page, so
  one translation serves all bytes. An address without one is a page fault. The boot loader
  leaves CR0.WP clear, so the kernel may write to every mapped page.
\<close>

definition virt_store :: "nat \<Rightarrow> 'w::len word \<Rightarrow> u64 \<Rightarrow> 'a sys_state_scheme \<Rightarrow>
    'a sys_state_scheme cmd_result + 'a sys_state_scheme" where
  "virt_store n v va s =
     (case translation s va of
        None \<Rightarrow> Inl (CmdException EXC_PAGE_FAULT s)
      | Some pa \<Rightarrow> Inr (s\<lparr>mem := store_le n v pa (mem s)\<rparr>))"

definition virt_load :: "nat \<Rightarrow> u64 \<Rightarrow> 'a sys_state_scheme \<Rightarrow> 'a sys_state_scheme cmd_result + 'w::len word" where
  "virt_load n va s =
     (case translation s va of
        None \<Rightarrow> Inl (CmdException EXC_PAGE_FAULT s)
      | Some pa \<Rightarrow> Inr (load_le n (mem s) pa))"

section \<open>The command table\<close>

datatype shell_cmd_fn =
    CMD_HELP | CMD_CLEAR | CMD_INFO | CMD_ECHO | CMD_COLOR | CMD_MEM | CMD_MMAP | CMD_MEMINFO
  | CMD_MEMTEST | CMD_TIME | CMD_UPTIME | CMD_TASKS | CMD_REBOOT | CMD_SHUTDOWN | CMD_HALT
  | CMD_NETCONF | CMD_FAULT | CMD_VMTEST | CMD_USERTEST

record shell_command_t =
  cmd_name :: "u8 list"
  cmd_func :: shell_cmd_fn
  cmd_help_text :: "u8 list"

definition command :: "string \<Rightarrow> shell_cmd_fn \<Rightarrow> string \<Rightarrow> shell_command_t" where
  "command n f h = \<lparr>cmd_name = cstr n, cmd_func = f, cmd_help_text = cstr h\<rparr>"

definition shell_commands :: "shell_command_t list" where
  "shell_commands =
    [command ''help'' CMD_HELP ''Show this help message'',
     command ''clear'' CMD_CLEAR ''Clear the screen'',
     command ''info'' CMD_INFO ''Show system information'',
     command ''echo'' CMD_ECHO ''Echo arguments to screen'',
     command ''color'' CMD_COLOR ''Change text color (usage: color <fg> <bg>)'',
     command ''mem'' CMD_MEM ''Show memory information'',
     command ''mmap'' CMD_MMAP ''Show physical memory map'',
     command ''meminfo'' CMD_MEMINFO ''Show detailed memory statistics'',
     command ''memtest'' CMD_MEMTEST ''Run comprehensive memory stress tests'',
     command ''time'' CMD_TIME ''Show current time'',
     command ''uptime'' CMD_UPTIME ''Show system uptime'',
     command ''tasks'' CMD_TASKS ''List all running tasks'',
     command ''reboot'' CMD_REBOOT ''Reboot the system'',
     command ''shutdown'' CMD_SHUTDOWN ''Shutdown the system'',
     command ''halt'' CMD_HALT ''Halt the system'',
     command ''netconf'' CMD_NETCONF ''Configure network interface'',
     command ''fault'' CMD_FAULT ''Trigger CPU exceptions for testing (usage: fault <div0|ud|pf>)'',
     command ''vmtest'' CMD_VMTEST ''Test Virtual Memory Manager'',
     command ''usertest'' CMD_USERTEST ''Test Ring 3 / User Mode transition'']"

definition shell_commands_count :: nat where
  "shell_commands_count = length shell_commands"

section \<open>Commands that print\<close>

text \<open>\<^verbatim>\<open>vga_println("")\<close> and a line of text.\<close>

abbreviation newline :: "'a vga_state_scheme \<Rightarrow> 'a vga_state_scheme" where
  "newline s \<equiv> vga_println [] s"

abbreviation line :: "string \<Rightarrow> 'a vga_state_scheme \<Rightarrow> 'a vga_state_scheme" where
  "line t s \<equiv> vga_println (cstr t) s"

abbreviation put :: "string \<Rightarrow> 'a vga_state_scheme \<Rightarrow> 'a vga_state_scheme" where
  "put t s \<equiv> vga_print (cstr t) s"

abbreviation colored :: "string \<Rightarrow> vga_color_t \<Rightarrow> 'a vga_state_scheme \<Rightarrow> 'a vga_state_scheme" where
  "colored t fg s \<equiv> vga_print_colored (cstr t) fg VGA_BLACK s"

definition cmd_clear :: "u8 list \<Rightarrow> 'a vga_state_scheme \<Rightarrow> 'a vga_state_scheme" where
  "cmd_clear args s = vga_clear s"

definition cmd_echo :: "u8 list \<Rightarrow> 'a vga_state_scheme \<Rightarrow> 'a vga_state_scheme" where
  "cmd_echo args s = vga_println args s"

definition cmd_netconf :: "u8 list \<Rightarrow> 'a vga_state_scheme \<Rightarrow> 'a vga_state_scheme" where
  "cmd_netconf args s = line ''No network interfaces configured.'' s"

text \<open>\<^verbatim>\<open>(vga_color_t)i\<close>.\<close>

definition vga_colors :: "vga_color_t list" where
  "vga_colors = [VGA_BLACK, VGA_BLUE, VGA_GREEN, VGA_CYAN, VGA_RED, VGA_MAGENTA, VGA_BROWN, VGA_LIGHT_GRAY,
     VGA_DARK_GRAY, VGA_LIGHT_BLUE, VGA_LIGHT_GREEN, VGA_LIGHT_CYAN, VGA_LIGHT_RED, VGA_LIGHT_MAGENTA,
     VGA_YELLOW, VGA_WHITE]"

definition cmd_color :: "u8 list \<Rightarrow> 'a vga_state_scheme \<Rightarrow> 'a vga_state_scheme" where
  "cmd_color args s =
     (let s = newline s;
          s = put ''  '' s;
          s = for_up 16 0 (\<lambda>i s. put ''  '' (vga_set_color VGA_BLACK (vga_colors ! i) s)) s;
          s = vga_set_color VGA_WHITE VGA_BLACK s;
          s = newline s;
          s = put ''  '' s;
          s = for_up 16 0 (\<lambda>i s. put ''##'' (vga_set_color (vga_colors ! i) VGA_BLACK s)) s;
          s = vga_set_color VGA_WHITE VGA_BLACK s;
          s = newline s
      in newline s)"

definition cmd_help :: "u8 list \<Rightarrow> 'a vga_state_scheme \<Rightarrow> 'a vga_state_scheme" where
  "cmd_help args s =
     (let s = newline s;
          s = colored ''  KiOS Shell Commands'' VGA_YELLOW s;
          s = newline s;
          s = line ''  ================================'' s;
          s = newline s;
          s = for_up shell_commands_count 0
                (\<lambda>i s. let c = shell_commands ! i;
                           s = colored ''  '' VGA_WHITE s;
                           s = vga_print_colored (cmd_name c) VGA_LIGHT_CYAN VGA_BLACK s;
                           pad = 12 - int (length (cmd_name c));
                           s = for_up (nat pad) (0 :: nat) (\<lambda>_. vga_putchar 32) s
                       in vga_println (cmd_help_text c) s) s
      in newline s)"

definition cmd_info :: "u8 list \<Rightarrow> 'a vga_state_scheme \<Rightarrow> 'a vga_state_scheme" where
  "cmd_info args s =
     (let s = newline s;
          s = colored ''  KiOS '' VGA_LIGHT_CYAN s;
          s = line ''v0.5.0'' s;
          s = newline s;
          s = put ''  Architecture: '' s;
          s = line ''x86_64 (Long Mode)'' s;
          s = put ''  Video:        '' s;
          s = line ''VGA Text Mode 80x25'' s;
          s = put ''  Kernel at:    '' s;
          s = vga_print_hex 0x100000 s;
          s = line '' (1MB)'' s;
          s = put ''  VGA Buffer:   '' s;
          s = vga_print_hex 0xB8000 s;
          s = newline s
      in newline s)"

definition cmd_mem :: "u8 list \<Rightarrow> 'a vga_state_scheme \<Rightarrow> 'a vga_state_scheme" where
  "cmd_mem args s =
     (let s = newline s;
          s = line ''  Memory Layout (approximate):'' s;
          s = newline s;
          s = line ''IVT (Real Mode)'' (put ''  0x00000000 - 0x000003FF  '' s);
          s = line ''BIOS Data Area'' (put ''  0x00000400 - 0x000004FF  '' s);
          s = line ''Bootloader Stage 1'' (put ''  0x00007C00 - 0x00007DFF  '' s);
          s = line ''Bootloader Stage 2'' (put ''  0x00007E00 - 0x0000BDFF  '' s);
          s = line ''Kernel Load Buffer'' (put ''  0x00010000 - 0x00017FFF  '' s);
          s = line ''VGA Memory'' (put ''  0x000A0000 - 0x000BFFFF  '' s);
          s = line ''VGA Text Buffer'' (put ''  0x000B8000 - 0x000B8F9F  '' s);
          s = line ''Kernel (1MB+)'' (put ''  0x00100000 - ...         '' s);
          s = line ''Stack Top'' (put ''  0x00200000               '' s)
      in newline s)"

definition cmd_mmap :: "u8 list \<Rightarrow> 'a vga_state_scheme \<Rightarrow> 'a vga_state_scheme" where
  "cmd_mmap args s =
     (let entry_count = memory_map_entry_count (mem s);
          s = line ''Detected Memory Map:'' s;
          s = for_up (unat entry_count) (0 :: u16)
                (\<lambda>i s. let entry = memory_map_entries (mem s) (ucast i);
                           s = put ''  Entry '' s;
                           s = vga_print_dec (ucast i) s;
                           s = put '': base='' s;
                           s = vga_print_hex (e_base entry) s;
                           s = put '', length='' s;
                           s = vga_print_hex (e_length entry) s;
                           s = put '', type='' s;
                           s = vga_print_dec (ucast (e_type entry)) s
                       in newline s) s
      in newline s)"

definition cmd_uptime :: "u8 list \<Rightarrow> 'a pit_state_scheme \<Rightarrow> 'a pit_state_scheme" where
  "cmd_uptime args s =
     (let total_seconds = pit_get_uptime_seconds s;
          hours = total_seconds div 3600;
          minutes = total_seconds mod 3600 div 60;
          seconds = total_seconds mod 60;
          s = put ''System uptime: '' s;
          s = vga_print_dec hours s;
          s = put ''h '' s;
          s = vga_print_dec minutes s;
          s = put ''m '' s;
          s = vga_print_dec seconds s
      in line ''s'' s)"

text \<open>
  A name that fills its field has no NUL of its own; the print then runs on into \<^verbatim>\<open>state\<close>,
  the next byte of the block, and its zero bytes.
\<close>

fun task_state_text :: "task_state_t \<Rightarrow> string" where
  "task_state_text TASK_STATE_READY = ''READY    ''"
| "task_state_text TASK_STATE_RUNNING = ''RUNNING  ''"
| "task_state_text TASK_STATE_BLOCKED = ''BLOCKED  ''"
| "task_state_text TASK_STATE_SLEEPING = ''SLEEPING ''"
| "task_state_text TASK_STATE_ZOMBIE = ''ZOMBIE   ''"

fun task_state_val :: "task_state_t \<Rightarrow> u8" where
  "task_state_val TASK_STATE_READY = 0"
| "task_state_val TASK_STATE_RUNNING = 1"
| "task_state_val TASK_STATE_BLOCKED = 2"
| "task_state_val TASK_STATE_SLEEPING = 3"
| "task_state_val TASK_STATE_ZOMBIE = 4"

definition cmd_tasks :: "u8 list \<Rightarrow> 'a task_state_scheme \<Rightarrow> 'a task_state_scheme" where
  "cmd_tasks args s =
     (let count = task_count s
      in if count = 0 then line ''No tasks running.'' s
         else let s = line ''PID  State      Name'' s;
                  s = line ''---  ---------  --------'' s
              in for_up count (0 :: nat)
                   (\<lambda>i s. let t = task_get_by_index (int i) s
                          in if t = 0 then s
                             else let s = vga_print_dec (ucast (pid (tcbs s t))) s;
                                      s = put ''    '' s;
                                      s = put (task_state_text (task_st (tcbs s t))) s;
                                      s = put '' '' s
                                  in vga_println (task_name (tcbs s t) @ [task_state_val (task_st (tcbs s t)), 0]) s) s)"

section \<open>Commands that may not return\<close>

definition cmd_meminfo :: "u8 list \<Rightarrow> 'a heap_state_scheme \<Rightarrow> 'a heap_state_scheme cmd_result" where
  "cmd_meminfo args s =
     (let s = newline s;
          s = line ''=== Memory Information ==='' s;
          s = newline s;
          s = colored ''Physical Memory Manager (PMM):'' VGA_LIGHT_CYAN s;
          s = newline s;
          total = pmm_total_pages s;
          used = pmm_used_pages s;
          free = total - used;
          s = vga_print_dec total (put ''  Total Pages:  '' s);
          s = line '' KB)'' (vga_print_dec (total * 4) (put '' ('' s));
          s = vga_print_dec used (put ''  Used Pages:   '' s);
          s = line '' KB)'' (vga_print_dec (used * 4) (put '' ('' s));
          s = vga_print_dec free (put ''  Free Pages:   '' s);
          s = line '' KB)'' (vga_print_dec (free * 4) (put '' ('' s))
      in if total = 0 then CmdException EXC_DIVIDE_ERROR s
         else
          let usage_percent = used * 100 div total;
              s = line ''%'' (vga_print_dec usage_percent (put ''  Usage:        '' s));
              s = newline s;
              s = colored ''Virtual Memory Manager (VMM):'' VGA_LIGHT_CYAN s;
              s = newline s;
              s = put ''  PML4 Address: '' s;
              s = newline (vga_print_hex (vmm_get_cr3 s) s);
              s = line ''4 KB'' (put ''  Page Size:    '' s);
              s = line ''4 (PML4 -> PDPT -> PD -> PT)'' (put ''  Levels:       '' s);
              s = newline s;
              s = colored ''Kernel Heap:'' VGA_LIGHT_CYAN s;
              s = newline s;
              heap_alloc = heap_total_allocated s;
              heap_size = heap_current_size s;
              s = newline (vga_print_hex 0xFFFF800000000000 (put ''  Base Address: '' s));
              s = line '' bytes'' (vga_print_dec heap_alloc (put ''  Allocated:    '' s));
              s = line '' bytes'' (vga_print_dec heap_size (put ''  Current Size: '' s));
              heap_pages = (heap_size + 4095) div 4096;
              s = newline (vga_print_dec heap_pages (put ''  Pages Mapped: '' s));
              s = newline s;
              s = line ''========================='' s;
              s = newline s
          in CmdReturn s)"

definition cmd_halt :: "u8 list \<Rightarrow> 'a vga_state_scheme \<Rightarrow> 'a vga_state_scheme cmd_result" where
  "cmd_halt args s =
     (let s = line ''System halted. You can turn off your computer.'' s;
          s = newline s
      in CmdHalt (emit Hlt (emit Cli s)))"

definition cmd_shutdown :: "u8 list \<Rightarrow> 'a vga_state_scheme \<Rightarrow> 'a vga_state_scheme cmd_result" where
  "cmd_shutdown args s =
     (let s = line ''Shutting down...'' s;
          s = outw 0x604 0x2000 s
      in CmdHalt (emit Hlt s))"

text \<open>\<^verbatim>\<open>lidt 0\<close> takes its operand from address 0; \<^verbatim>\<open>int $0\<close> then goes through that table.\<close>

partial_function (option) reboot_wait :: "device \<Rightarrow> 'a mach_scheme \<Rightarrow> 'a mach_scheme option" where
  "reboot_wait dev s =
     (let (good, s) = inb dev 0x64 s in if good AND 0x02 \<noteq> 0 then reboot_wait dev s else Some s)"

definition cmd_reboot :: "device \<Rightarrow> u8 list \<Rightarrow> 'a vga_state_scheme \<Rightarrow> 'a vga_state_scheme cmd_result option" where
  "cmd_reboot dev args s =
     (case reboot_wait dev (line ''Rebooting...'' s) of
        None \<Rightarrow> None
      | Some s \<Rightarrow> let s = outb 0x64 0xFE s;
                      s = emit (Lidt 0) s
                  in Some (CmdException EXC_DIVIDE_ERROR s))"

text \<open>
  The German texts contain the letter u-umlaut, two bytes of UTF-8. The store of the page
  fault test goes to an address that the boot loader does not map; where it is mapped the
  command returns.
\<close>

definition umlaut :: "string \<Rightarrow> string \<Rightarrow> u8 list" where
  "umlaut a b = cstr a @ [0xC3, 0xBC] @ cstr b"

definition cmd_fault :: "u8 list \<Rightarrow> 'a sys_state_scheme \<Rightarrow> 'a sys_state_scheme cmd_result" where
  "cmd_fault args s =
     (if args = [] then
        (let s = line ''Usage: fault <div0|ud|pf>'' s;
             s = line ''  div0  - Division durch Null (Exception 0)'' s;
             s = vga_println (umlaut ''  ud    - Ung'' ''ltiger Opcode (Exception 6)'') s;
             s = line ''  pf    - Page Fault (Exception 14, nur wenn Paging aktiv)'' s
         in CmdReturn s)
      else if strncmp_list args (cstr ''div0'') 4 = 0 then
        CmdException EXC_DIVIDE_ERROR (line ''Trigger: Division durch Null!'' s)
      else if strncmp_list args (cstr ''ud'') 2 = 0 then
        CmdException EXC_INVALID_OPCODE (emit Ud2 (vga_println (umlaut ''Trigger: Ung'' ''ltiger Opcode!'') s))
      else if strncmp_list args (cstr ''pf'') 2 = 0 then
        finish (virt_store 4 (42 :: u32) 0xDEADBEEF (line ''Trigger: Page Fault (nur mit Paging!)'' s))
      else CmdReturn (line ''Unbekannter Fault-Typ. Nutze: div0, ud, pf'' s))"

section \<open>time.c\<close>

definition cmos_read :: "device \<Rightarrow> u8 \<Rightarrow> 'a mach_scheme \<Rightarrow> u8 \<times> 'a mach_scheme" where
  "cmos_read dev reg s = inb dev 0x71 (outb 0x70 reg s)"

definition bcd_to_bin :: "u8 \<Rightarrow> u8" where
  "bcd_to_bin bcd = drop_bit 4 bcd * 10 + (bcd AND 0x0F)"

partial_function (option) cmos_wait :: "device \<Rightarrow> 'a mach_scheme \<Rightarrow> 'a mach_scheme option" where
  "cmos_wait dev s =
     (let (a, s) = cmos_read dev 0x0A s in if a AND 0x80 \<noteq> 0 then cmos_wait dev s else Some s)"

record rtc_time =
  rtc_second :: u8
  rtc_minute :: u8
  rtc_hour :: u8
  rtc_day :: u8
  rtc_month :: u8
  rtc_year :: u8

definition rtc_read :: "device \<Rightarrow> 'a mach_scheme \<Rightarrow> (rtc_time \<times> u8) \<times> 'a mach_scheme" where
  "rtc_read dev s =
     (let (second, s) = cmos_read dev 0x00 s;
          (minute, s) = cmos_read dev 0x02 s;
          (hour, s) = cmos_read dev 0x04 s;
          (day, s) = cmos_read dev 0x07 s;
          (month, s) = cmos_read dev 0x08 s;
          (year, s) = cmos_read dev 0x09 s;
          (regB, s) = cmos_read dev 0x0B s
      in ((\<lparr>rtc_second = second, rtc_minute = minute, rtc_hour = hour, rtc_day = day, rtc_month = month,
            rtc_year = year\<rparr>, regB), s))"

definition rtc_convert :: "rtc_time \<Rightarrow> u8 \<Rightarrow> rtc_time" where
  "rtc_convert t regB =
     (let t = (if regB AND 0x04 = 0 then
                 \<lparr>rtc_second = bcd_to_bin (rtc_second t), rtc_minute = bcd_to_bin (rtc_minute t),
                  rtc_hour = bcd_to_bin (rtc_hour t AND 0x7F) OR (rtc_hour t AND 0x80),
                  rtc_day = bcd_to_bin (rtc_day t), rtc_month = bcd_to_bin (rtc_month t),
                  rtc_year = bcd_to_bin (rtc_year t)\<rparr>
               else t)
      in if regB AND 0x02 = 0 \<and> rtc_hour t AND 0x80 \<noteq> 0
         then t\<lparr>rtc_hour := ((rtc_hour t AND 0x7F) + 12) mod 24\<rparr> else t)"

text \<open>\<^verbatim>\<open>if (v < 10) vga_putchar('0'); vga_print_dec(v);\<close>\<close>

definition print_padded :: "u8 \<Rightarrow> 'a vga_state_scheme \<Rightarrow> 'a vga_state_scheme" where
  "print_padded v s = vga_print_dec (ucast v) (if v < 10 then vga_putchar 48 s else s)"

definition print_time :: "rtc_time \<Rightarrow> 'a vga_state_scheme \<Rightarrow> 'a vga_state_scheme" where
  "print_time t s =
     (let s = newline s;
          s = put ''  Current time (UTC): '' s;
          s = put ''20'' s;
          s = print_padded (rtc_year t) s;
          s = vga_putchar 45 s;
          s = print_padded (rtc_month t) s;
          s = vga_putchar 45 s;
          s = print_padded (rtc_day t) s;
          s = vga_putchar 32 s;
          s = print_padded (rtc_hour t) s;
          s = vga_putchar 58 s;
          s = print_padded (rtc_minute t) s;
          s = vga_putchar 58 s;
          s = print_padded (rtc_second t) s;
          s = newline s
      in newline s)"

definition cmd_time :: "device \<Rightarrow> u8 list \<Rightarrow> 'a vga_state_scheme \<Rightarrow> 'a vga_state_scheme option" where
  "cmd_time dev args s =
     (case cmos_wait dev s of
        None \<Rightarrow> None
      | Some s \<Rightarrow> let ((t, regB), s) = rtc_read dev s in Some (print_time (rtc_convert t regB) s))"

section \<open>vmtest.c\<close>

abbreviation verdict :: "bool \<Rightarrow> string \<Rightarrow> string \<Rightarrow> 'a vga_state_scheme \<Rightarrow> 'a vga_state_scheme" where
  "verdict ok pass fail s \<equiv>
     newline (if ok then colored pass VGA_LIGHT_GREEN s else colored fail VGA_LIGHT_RED s)"

abbreviation VMTEST_ADDR :: u64 where "VMTEST_ADDR \<equiv> 0xFFFF800000001000"

definition cmd_vmtest :: "u8 list \<Rightarrow> 'a sys_state_scheme \<Rightarrow> 'a sys_state_scheme cmd_result" where
  "cmd_vmtest args s =
     (let s = newline s;
          s = line ''=== VMM Test ==='' s;
          s = newline s;
          (phys_page, s) = pmm_alloc_page s
      in if phys_page = 0 then
           CmdReturn (newline (colored ''  [FAIL] Failed to allocate physical page!'' VGA_LIGHT_RED s))
         else
          let s = put ''  Allocated physical page at: '' s;
              s = vga_print_hex phys_page s;
              s = newline s;
              virt_addr = VMTEST_ADDR;
              s = put ''  Mapping to virtual address: '' s;
              s = vga_print_hex virt_addr s;
              s = newline s;
              s = vmm_map_page virt_addr phys_page 3 s;
              s = line ''  Mapping successful!'' s;
              (resolved_phys, s) = vmm_virt_to_phys virt_addr s;
              s = put ''  Resolved physical address: '' s;
              s = vga_print_hex resolved_phys s;
              s = newline s;
              s = verdict (resolved_phys = phys_page) ''  [PASS] Virtual to physical mapping correct!''
                    ''  [FAIL] Mapping mismatch!'' s;
              s = newline s;
              s = line ''  Writing test data via virtual address...'' s
          in finish
           (and_then (virt_store 8 (0xDEADBEEFCAFEBABE :: u64) virt_addr s) (\<lambda>s.
            and_then (virt_load 8 virt_addr s) (\<lambda>read_value.
              let s = put ''  Read value: '' s;
                  s = vga_print_hex read_value s;
                  s = newline s;
                  s = verdict (read_value = 0xDEADBEEFCAFEBABE) ''  [PASS] Read/Write works correctly!''
                        ''  [FAIL] Read/Write failed!'' s;
                  s = newline s;
                  s = line ''  Unmapping page...'' s;
                  s = vmm_unmap_page virt_addr s;
                  (resolved_after_unmap, s) = vmm_virt_to_phys virt_addr s;
                  s = verdict (resolved_after_unmap = 0) ''  [PASS] Unmapping successful!''
                        ''  [FAIL] Page still mapped!'' s;
                  s = pmm_free_page phys_page s;
                  s = line ''  Freed physical page'' s;
                  s = newline s;
                  s = line ''=== VMM Test Complete ==='' s;
                  s = newline s
              in Inr s))))"

section \<open>memtest.c\<close>

abbreviation TEST_PAGES :: nat where "TEST_PAGES \<equiv> 50"
abbreviation TEST_HEAP_ALLOCS :: nat where "TEST_HEAP_ALLOCS \<equiv> 100"
abbreviation MEMTEST_BASE :: u64 where "MEMTEST_BASE \<equiv> 0xFFFF900000000000"

definition memtest_fail :: "string \<Rightarrow> nat \<Rightarrow> 'a sys_state_scheme \<Rightarrow> 'a sys_state_scheme cmd_result" where
  "memtest_fail msg i s = CmdReturn (newline (vga_print_dec (of_nat i) (colored msg VGA_LIGHT_RED s)))"

definition memtest_head :: "string \<Rightarrow> string \<Rightarrow> nat \<Rightarrow> string \<Rightarrow> 'a vga_state_scheme \<Rightarrow> 'a vga_state_scheme" where
  "memtest_head title doing n what s =
     (let s = newline (colored title VGA_YELLOW s);
          s = vga_print_dec (of_nat n) (put doing s)
      in line what s)"

definition memtest_alloc :: "nat \<Rightarrow> u64 list \<times> 'a sys_state_scheme \<Rightarrow>
    'a sys_state_scheme cmd_result + u64 list \<times> 'a sys_state_scheme" where
  "memtest_alloc i = (\<lambda>(pages, s).
     let (p, s) = pmm_alloc_page s
     in if p = 0 then Inl (memtest_fail ''  [FAIL] Failed to allocate page '' i s)
        else Inr (pages @ [p], s))"

definition memtest_addr :: "nat \<Rightarrow> u64" where
  "memtest_addr i = MEMTEST_BASE + of_nat i * 0x1000"

definition memtest_pattern :: "nat \<Rightarrow> u64" where
  "memtest_pattern i = 0xDEADBEEF00000000 OR of_nat i"

definition memtest_map :: "u64 list \<Rightarrow> nat \<Rightarrow> 'a sys_state_scheme \<Rightarrow>
    'a sys_state_scheme cmd_result + 'a sys_state_scheme" where
  "memtest_map pages i s =
     (let s = vmm_map_page (memtest_addr i) (pages ! i) 3 s;
          (resolved, s) = vmm_virt_to_phys (memtest_addr i) s
      in if resolved \<noteq> pages ! i then Inl (memtest_fail ''  [FAIL] Mapping mismatch at page '' i s) else Inr s)"

definition memtest_write :: "nat \<Rightarrow> 'a sys_state_scheme \<Rightarrow> 'a sys_state_scheme cmd_result + 'a sys_state_scheme" where
  "memtest_write i s = virt_store 8 (memtest_pattern i) (memtest_addr i) s"

definition memtest_read :: "nat \<Rightarrow> 'a sys_state_scheme \<Rightarrow> 'a sys_state_scheme cmd_result + 'a sys_state_scheme" where
  "memtest_read i s =
     and_then (virt_load 8 (memtest_addr i) s) (\<lambda>v.
       if v \<noteq> memtest_pattern i then Inl (memtest_fail ''  [FAIL] Data mismatch at page '' i s) else Inr s)"

definition memtest_unmap :: "nat \<Rightarrow> 'a sys_state_scheme \<Rightarrow> 'a sys_state_scheme cmd_result + 'a sys_state_scheme" where
  "memtest_unmap i s =
     (let s = vmm_unmap_page (memtest_addr i) s;
          (resolved, s) = vmm_virt_to_phys (memtest_addr i) s
      in if resolved \<noteq> 0 then Inl (memtest_fail ''  [FAIL] Page still mapped at '' i s) else Inr s)"

definition memtest_kmalloc :: "nat \<Rightarrow> u64 list \<times> 'a sys_state_scheme \<Rightarrow>
    'a sys_state_scheme cmd_result + u64 list \<times> 'a sys_state_scheme" where
  "memtest_kmalloc i = (\<lambda>(ptrs, s).
     let (p, s) = kmalloc 256 s
     in if p = 0 then Inl (memtest_fail ''  [FAIL] kmalloc failed at '' i s)
        else and_then (each (\<lambda>j. virt_store 1 (of_nat (i + j) :: u8) (p + of_nat j)) [0..<256] s)
               (\<lambda>s. Inr (ptrs @ [p], s)))"

definition memtest_verify :: "u64 list \<Rightarrow> nat \<Rightarrow> 'a sys_state_scheme \<Rightarrow>
    'a sys_state_scheme cmd_result + 'a sys_state_scheme" where
  "memtest_verify ptrs i =
     each (\<lambda>j s. and_then (virt_load 1 (ptrs ! i + of_nat j) s) (\<lambda>v :: u8.
       if v \<noteq> of_nat (i + j) then Inl (memtest_fail ''  [FAIL] Heap data corruption at block '' i s) else Inr s))
       [0..<256]"

definition memtest_pass :: "string \<Rightarrow> 'a vga_state_scheme \<Rightarrow> 'a vga_state_scheme" where
  "memtest_pass msg s = newline (colored msg VGA_LIGHT_GREEN s)"

definition cmd_memtest :: "u8 list \<Rightarrow> 'a sys_state_scheme \<Rightarrow> 'a sys_state_scheme cmd_result" where
  "cmd_memtest args s =
     (let s = newline s;
          s = line ''=== Memory Stress Test ==='' s;
          s = newline s;
          s = memtest_head ''Test 1: PMM Page Allocation'' ''  Allocating '' TEST_PAGES '' pages...'' s
      in finish
       (and_then (each memtest_alloc [0..<TEST_PAGES] ([], s)) (\<lambda>(pages, s).
        let s = memtest_pass ''  [PASS] All pages allocated!'' s;
            s = memtest_head ''Test 2: VMM Page Mapping'' ''  Mapping '' TEST_PAGES '' pages...'' s
        in and_then (each (memtest_map pages) [0..<TEST_PAGES] s) (\<lambda>s.
        let s = memtest_pass ''  [PASS] All pages mapped correctly!'' s;
            s = memtest_head ''Test 3: Memory Read/Write'' ''  Writing test pattern to '' TEST_PAGES '' pages...'' s
        in and_then (each memtest_write [0..<TEST_PAGES] s) (\<lambda>s.
        let s = line ''  Reading back and verifying...'' s
        in and_then (each memtest_read [0..<TEST_PAGES] s) (\<lambda>s.
        let s = memtest_pass ''  [PASS] All data verified!'' s;
            s = memtest_head ''Test 4: VMM Page Unmapping'' ''  Unmapping '' TEST_PAGES '' pages...'' s
        in and_then (each memtest_unmap [0..<TEST_PAGES] s) (\<lambda>s.
        let s = memtest_pass ''  [PASS] All pages unmapped!'' s;
            s = memtest_head ''Test 5: PMM Page Freeing'' ''  Freeing '' TEST_PAGES '' pages...'' s;
            s = fold pmm_free_page pages s;
            s = memtest_pass ''  [PASS] All pages freed!'' s;
            s = memtest_head ''Test 6: Heap Allocations'' ''  Allocating '' TEST_HEAP_ALLOCS '' heap blocks...'' s
        in and_then (each memtest_kmalloc [0..<TEST_HEAP_ALLOCS] ([], s)) (\<lambda>(ptrs, s).
        let s = line ''  Verifying heap data...'' s
        in and_then (each (memtest_verify ptrs) [0..<TEST_HEAP_ALLOCS] s) (\<lambda>s.
        let s = memtest_pass ''  [PASS] Heap test successful!'' s;
            s = newline s;
            s = memtest_pass ''=== All Tests Passed! ==='' s
        in Inr (newline s))))))))))"

section \<open>usertest.c\<close>

definition user_code :: "u8 list" where
  "user_code =
    [0x48, 0x8d, 0x35, 0x22, 0x00, 0x00, 0x00,
     0x48, 0xc7, 0xc0, 0x01, 0x00, 0x00, 0x00,
     0x48, 0xc7, 0xc7, 0x01, 0x00, 0x00, 0x00,
     0x48, 0xc7, 0xc2, 0x0e, 0x00, 0x00, 0x00,
     0x0f, 0x05,
     0x48, 0xc7, 0xc0, 0x00, 0x00, 0x00, 0x00,
     0x0f, 0x05,
     0xeb, 0xfe] @ cstr ''Hello Ring 3!'' @ [10, 0]"

abbreviation USER_CODE_VADDR :: u64 where "USER_CODE_VADDR \<equiv> 0x400000"
abbreviation USER_STACK_VADDR :: u64 where "USER_STACK_VADDR \<equiv> 0x800000"

text \<open>\<^verbatim>\<open>memcpy\<close> byte by byte through the page tables.\<close>

definition copy_to_user :: "u64 \<Rightarrow> u8 list \<Rightarrow> 'a sys_state_scheme \<Rightarrow>
    'a sys_state_scheme cmd_result + 'a sys_state_scheme" where
  "copy_to_user dest bs = each (\<lambda>i. virt_store 1 (bs ! i) (dest + of_nat i)) [0..<length bs]"

definition cmd_usertest :: "u64 \<Rightarrow> u8 list \<Rightarrow> 'a sys_state_scheme \<Rightarrow> 'a sys_state_scheme cmd_result" where
  "cmd_usertest secure_kernel_stack args s =
     (let (code_phys, s) = pmm_alloc_page s;
          (stack_phys, s) = pmm_alloc_page s
      in if code_phys = 0 \<or> stack_phys = 0 then CmdReturn (line ''ERROR: Memory allocation failed!'' s)
         else
          let s = vmm_map_page USER_CODE_VADDR code_phys 7 s;
              s = vmm_map_page USER_STACK_VADDR stack_phys 7 s
          in finish (and_then (copy_to_user USER_CODE_VADDR user_code s) (\<lambda>s.
              let user_stack_top = USER_STACK_VADDR + PAGE_SIZE - 16;
                  k_stack_top = secure_kernel_stack + 8192;
                  s = tss_set_kernel_stack k_stack_top s;
                  s = syscall_set_kernel_stack k_stack_top s;
                  s = vmm_set_cr3 (vmm_get_cr3 s) s
              in Inl (CmdUserMode user_stack_top USER_CODE_VADDR s))))"

section \<open>The call through the table\<close>

text \<open>\<open>kst\<close> is the link address of \<^verbatim>\<open>secure_kernel_stack\<close>.\<close>

fun run_command :: "device \<Rightarrow> u64 \<Rightarrow> shell_cmd_fn \<Rightarrow> u8 list \<Rightarrow> 'a sys_state_scheme \<Rightarrow>
    'a sys_state_scheme cmd_result option" where
  "run_command dev kst CMD_HELP args s = Some (CmdReturn (cmd_help args s))"
| "run_command dev kst CMD_CLEAR args s = Some (CmdReturn (cmd_clear args s))"
| "run_command dev kst CMD_INFO args s = Some (CmdReturn (cmd_info args s))"
| "run_command dev kst CMD_ECHO args s = Some (CmdReturn (cmd_echo args s))"
| "run_command dev kst CMD_COLOR args s = Some (CmdReturn (cmd_color args s))"
| "run_command dev kst CMD_MEM args s = Some (CmdReturn (cmd_mem args s))"
| "run_command dev kst CMD_MMAP args s = Some (CmdReturn (cmd_mmap args s))"
| "run_command dev kst CMD_MEMINFO args s = Some (cmd_meminfo args s)"
| "run_command dev kst CMD_MEMTEST args s = Some (cmd_memtest args s)"
| "run_command dev kst CMD_TIME args s = map_option CmdReturn (cmd_time dev args s)"
| "run_command dev kst CMD_UPTIME args s = Some (CmdReturn (cmd_uptime args s))"
| "run_command dev kst CMD_TASKS args s = Some (CmdReturn (cmd_tasks args s))"
| "run_command dev kst CMD_REBOOT args s = cmd_reboot dev args s"
| "run_command dev kst CMD_SHUTDOWN args s = Some (cmd_shutdown args s)"
| "run_command dev kst CMD_HALT args s = Some (cmd_halt args s)"
| "run_command dev kst CMD_NETCONF args s = Some (CmdReturn (cmd_netconf args s))"
| "run_command dev kst CMD_FAULT args s = Some (cmd_fault args s)"
| "run_command dev kst CMD_VMTEST args s = Some (cmd_vmtest args s)"
| "run_command dev kst CMD_USERTEST args s = Some (cmd_usertest kst args s)"

end
