(* ===== verification/Shell.thy ===== *)
theory Shell
  imports Commands KeyboardProps
begin

text \<open>
  The interactive shell, \<^verbatim>\<open>src/kernel/shell.c\<close>. Buffers are arrays of bytes of fixed size; a
  write outside the array would show as a changed length. A C string in an array is what
  precedes its first NUL. \<^verbatim>\<open>keyboard.h\<close> defines its variables \<^verbatim>\<open>static\<close>, so the shell has its own
  copy of the modifier flags, \<open>shell_kb\<close>. The counters are C \<^verbatim>\<open>int\<close>s; the history counter would
  overflow only after 2 to the 31 lines.
\<close>

section \<open>State\<close>

abbreviation SHELL_BUFFER_SIZE :: nat where "SHELL_BUFFER_SIZE \<equiv> 256"
abbreviation SHELL_HISTORY_SIZE :: nat where "SHELL_HISTORY_SIZE \<equiv> 10"

record shell_state = sys_state +
  shell_history :: "u8 list list"
  shell_history_count :: int
  shell_history_index :: int
  shell_buffer :: "u8 list"
  shell_buffer_pos :: int
  shell_kb :: kb_mods

definition c_string :: "u8 list \<Rightarrow> u8 list" where
  "c_string arr = takeWhile (\<lambda>c. c \<noteq> 0) arr"

definition strcpy_array :: "u8 list \<Rightarrow> u8 list \<Rightarrow> u8 list" where
  "strcpy_array dest src = src @ 0 # drop (Suc (length src)) dest"

section \<open>shell.c\<close>

definition shell_print_prompt :: "'a vga_state_scheme \<Rightarrow> 'a vga_state_scheme" where
  "shell_print_prompt s =
     (let s = colored ''kiba'' VGA_LIGHT_GREEN s;
          s = colored ''@'' VGA_WHITE s;
          s = colored ''KiOS'' VGA_LIGHT_CYAN s
      in colored ''> '' VGA_WHITE s)"

definition shell_add_to_history :: "u8 list \<Rightarrow> 'a shell_state_scheme \<Rightarrow> 'a shell_state_scheme" where
  "shell_add_to_history cmd s =
     (if length cmd = 0 then s
      else if shell_history_count s > 0 \<and>
        strcmp_list cmd (c_string (shell_history s !
          nat ((shell_history_count s - 1) mod int SHELL_HISTORY_SIZE))) = 0 then s
      else let i = nat (shell_history_count s mod int SHELL_HISTORY_SIZE);
               s = s\<lparr>shell_history := (shell_history s)[i := strcpy_array (shell_history s ! i) cmd]\<rparr>;
               s = s\<lparr>shell_history_count := shell_history_count s + 1\<rparr>
           in s\<lparr>shell_history_index := shell_history_count s\<rparr>)"

definition shell_clear_line :: "'a shell_state_scheme \<Rightarrow> 'a shell_state_scheme" where
  "shell_clear_line s =
     (let s = for_up (nat (shell_buffer_pos s)) (0 :: nat)
                (\<lambda>_ s. let s = vga_putchar 8 s in s\<lparr>shell_buffer_pos := shell_buffer_pos s - 1\<rparr>) s
      in s\<lparr>shell_buffer := (shell_buffer s)[0 := 0]\<rparr>)"

text \<open>The body of the input loop for every character but Enter.\<close>

definition shell_key :: "u8 \<Rightarrow> 'a shell_state_scheme \<Rightarrow> 'a shell_state_scheme" where
  "shell_key c s =
     (if c = 8 then
        (if shell_buffer_pos s > 0 then
           let s = s\<lparr>shell_buffer_pos := shell_buffer_pos s - 1\<rparr>;
               s = s\<lparr>shell_buffer := (shell_buffer s)[nat (shell_buffer_pos s) := 0]\<rparr>
           in vga_putchar 8 s
         else s)
      else if c = 27 then shell_clear_line s
      else if sint c \<ge> 32 \<and> shell_buffer_pos s < int SHELL_BUFFER_SIZE - 1 then
        (let s = s\<lparr>shell_buffer := (shell_buffer s)[nat (shell_buffer_pos s) := c]\<rparr>;
             s = s\<lparr>shell_buffer_pos := shell_buffer_pos s + 1\<rparr>;
             s = s\<lparr>shell_buffer := (shell_buffer s)[nat (shell_buffer_pos s) := 0]\<rparr>
         in vga_putchar c s)
      else s)"

definition shell_getchar :: "device \<Rightarrow> 'a shell_state_scheme \<Rightarrow> (u8 \<times> 'a shell_state_scheme) option" where
  "shell_getchar dev s =
     map_option (\<lambda>(c, k, s). (c, s\<lparr>shell_kb := k\<rparr>)) (kb_getchar dev (shell_kb s) s)"

text \<open>
  \<^verbatim>\<open>while (1) { c = getc(); if (c == '\n') break; step(c); }\<close>
\<close>

partial_function (option) read_until ::
  "('s \<Rightarrow> (u8 \<times> 's) option) \<Rightarrow> (u8 \<Rightarrow> 's \<Rightarrow> 's) \<Rightarrow> 's \<Rightarrow> 's option" where
  "read_until getc step s =
     (case getc s of
        None \<Rightarrow> None
      | Some (c, s) \<Rightarrow> if c = 10 then Some s else read_until getc step (step c s))"

definition shell_readline :: "device \<Rightarrow> 'a shell_state_scheme \<Rightarrow> (u8 list \<times> 'a shell_state_scheme) option" where
  "shell_readline dev s =
     (let s = s\<lparr>shell_buffer_pos := 0\<rparr>;
          s = s\<lparr>shell_buffer := (shell_buffer s)[0 := 0]\<rparr>;
          s = s\<lparr>shell_history_index := shell_history_count s\<rparr>
      in case read_until (shell_getchar dev) shell_key s of
           None \<Rightarrow> None
         | Some s \<Rightarrow>
             let s = vga_putchar 10 s;
                 s = s\<lparr>shell_buffer := (shell_buffer s)[nat (shell_buffer_pos s) := 0]\<rparr>;
                 s = shell_add_to_history (c_string (shell_buffer s)) s
             in Some (c_string (shell_buffer s), s))"

definition shell_execute :: "device \<Rightarrow> u64 \<Rightarrow> u8 list \<Rightarrow> 'a sys_state_scheme \<Rightarrow>
    'a sys_state_scheme cmd_result option" where
  "shell_execute dev kst cmd s =
     (let cmd = dropWhile (\<lambda>c. c = 32) cmd
      in if cmd = [] then Some (CmdReturn s)
         else
          let args = dropWhile (\<lambda>c. c \<noteq> 32) cmd;
              cmd_len = length cmd - length args;
              args = dropWhile (\<lambda>c. c = 32) args
          in case find (\<lambda>c. strncmp_list cmd (cmd_name c) cmd_len = 0 \<and> length (cmd_name c) = cmd_len)
                    shell_commands of
               Some c \<Rightarrow> run_command dev kst (cmd_func c) args s
             | None \<Rightarrow>
                 let s = colored ''Unknown command: '' VGA_LIGHT_RED s;
                     s = fold vga_putchar (take cmd_len cmd) s;
                     s = newline s
                 in Some (CmdReturn (line (''Type '' @ [CHR 0x27] @ ''help'' @ [CHR 0x27] @ '' for available commands.'') s)))"

text \<open>One round of \<^verbatim>\<open>shell_run\<close>, and \<open>n\<close> rounds; the loop of the code has no end.\<close>

definition shell_round :: "device \<Rightarrow> u64 \<Rightarrow> 'a shell_state_scheme \<Rightarrow> 'a shell_state_scheme cmd_result option" where
  "shell_round dev kst s =
     (case shell_readline dev (shell_print_prompt s) of
        None \<Rightarrow> None
      | Some (cmd, s) \<Rightarrow> shell_execute dev kst cmd s)"

primrec shell_run :: "nat \<Rightarrow> device \<Rightarrow> u64 \<Rightarrow> 'a shell_state_scheme \<Rightarrow> 'a shell_state_scheme cmd_result option" where
  "shell_run 0 dev kst s = Some (CmdReturn s)"
| "shell_run (Suc n) dev kst s =
     (case shell_round dev kst s of
        None \<Rightarrow> None
      | Some (CmdReturn s) \<Rightarrow> shell_run n dev kst s
      | Some r \<Rightarrow> Some r)"

end
