(* ===== verification/ShellInput.thy ===== *)
theory ShellInput
  imports Shell
begin

text \<open>
  Characters from the polled keyboard: a controller that delivers scan codes, in any
  timing, is a source of the characters they translate to, whatever the program prints in
  between. The line editor reads from such a source.
\<close>

section \<open>A keyboard that delivers\<close>

fun data_read :: "hw_event \<Rightarrow> bool" where
  "data_read (InB p v) \<longleftrightarrow> p = KB_DATA_PORT"
| "data_read _ \<longleftrightarrow> False"

fun status_read :: "hw_event \<Rightarrow> bool" where
  "status_read (InB p v) \<longleftrightarrow> p = KB_STATUS_PORT"
| "status_read _ \<longleftrightarrow> False"

text \<open>How many bytes were fetched, and how often the status was polled since the last one.\<close>

definition data_reads :: "hw_event list \<Rightarrow> nat" where
  "data_reads es = length (filter data_read es)"

definition waited :: "hw_event list \<Rightarrow> nat" where
  "waited es = length (filter status_read (takeWhile (\<lambda>e. \<not> data_read e) (rev es)))"

lemma reads_snoc [simp]:
  "data_reads [] = 0" "waited [] = 0"
  "data_reads (es @ [e]) = (if data_read e then Suc (data_reads es) else data_reads es)"
  "waited (es @ [e]) = (if data_read e then 0 else if status_read e then Suc (waited es) else waited es)"
  by (simp_all add: data_reads_def waited_def)

lemma reads_vga:
  "list_all vga_event es \<Longrightarrow> data_reads (tr @ es) = data_reads tr \<and> waited (tr @ es) = waited tr"
proof (induction es rule: rev_induct)
  case Nil
  then show ?case by simp
next
  case (snoc e es)
  then have "\<not> data_read e" "\<not> status_read e" by (cases e; simp)+
  then show ?case using snoc by (simp flip: append_assoc)
qed

lemma reads_polls:
  "list_all status_read es \<Longrightarrow> data_reads (tr @ es) = data_reads tr \<and> waited (tr @ es) = waited tr + length es"
proof (induction es rule: rev_induct)
  case Nil
  then show ?case by simp
next
  case (snoc e es)
  then have "\<not> data_read e" by (cases e) auto
  then show ?case using snoc by (simp flip: append_assoc)
qed

text \<open>
  The controller holds the scan codes \<open>scs\<close>, from the byte number \<open>base\<close> on; after at most
  \<open>wait\<close> polls it reports the next one.
\<close>

definition kb_delivers :: "device \<Rightarrow> nat \<Rightarrow> nat \<Rightarrow> u8 list \<Rightarrow> bool" where
  "kb_delivers dev wait base scs \<longleftrightarrow>
     (\<forall>es n. data_reads es = base + n \<longrightarrow> n < length scs \<longrightarrow>
        ucast (dev es KB_DATA_PORT) = scs ! n \<and>
        (wait \<le> waited es \<longrightarrow> ucast (dev es KB_STATUS_PORT) AND KB_STATUS_OUTPUT_FULL \<noteq> 0))"

definition kb_pending :: "nat \<Rightarrow> u8 list \<Rightarrow> hw_event list \<Rightarrow> u8 list" where
  "kb_pending base scs es = drop (data_reads es - base) scs"

definition kb_chars :: "u8 list \<Rightarrow> kb_mods \<Rightarrow> u8 list" where
  "kb_chars scs k = filter (\<lambda>c. c \<noteq> 0) (fst (kb_feed scs k))"

lemma kb_chars_simps [simp]:
  "kb_chars [] k = []"
  "kb_chars (sc # scs) k =
     (let (c, k) = kb_scancode_to_ascii sc k in if c = 0 then kb_chars scs k else c # kb_chars scs k)"
  by (simp_all add: kb_chars_def Let_def split_beta)

lemma scancode_0: "kb_scancode_to_ascii 0 k = (0, k)"
proof -
  have "scancode_to_ascii_lower ! unat (0 :: u8) = 0" "scancode_to_ascii_upper ! unat (0 :: u8) = 0"
    by code_simp+
  then show ?thesis by (simp add: kb_scancode_to_ascii_def Let_def)
qed

section \<open>The polling reader\<close>

lemma kb_wait_loop_spec:
  obtains es r where "kb_wait_loop n dev s = (r, s\<lparr>hw_trace := hw_trace s @ es\<rparr>)"
    and "list_all status_read es" and "r \<or> length es = n"
proof -
  have "\<exists>es r. kb_wait_loop n dev s = (r, s\<lparr>hw_trace := hw_trace s @ es\<rparr>) \<and> list_all status_read es \<and>
      (r \<or> length es = n)"
  proof (induction n arbitrary: s)
    case 0
    then show ?case by (intro exI[of _ "[]"] exI[of _ False]) simp
  next
    case (Suc n)
    let ?v = "ucast (dev (hw_trace s) KB_STATUS_PORT) :: u8"
    let ?e = "InB KB_STATUS_PORT ?v"
    have i: "inb dev KB_STATUS_PORT s = (?v, s\<lparr>hw_trace := hw_trace s @ [?e]\<rparr>)"
      by (simp add: inb_def emit_def Let_def)
    show ?case
    proof (cases "?v AND KB_STATUS_OUTPUT_FULL \<noteq> 0")
      case True
      then show ?thesis using i by (intro exI[of _ "[?e]"] exI[of _ True]) simp
    next
      case False
      obtain es r where "kb_wait_loop n dev (s\<lparr>hw_trace := hw_trace s @ [?e]\<rparr>)
          = (r, s\<lparr>hw_trace := (hw_trace s @ [?e]) @ es\<rparr>)" "list_all status_read es" "r \<or> length es = n"
        using Suc.IH[of "s\<lparr>hw_trace := hw_trace s @ [?e]\<rparr>"] by auto
      then show ?thesis using False i by (intro exI[of _ "?e # es"] exI[of _ r]) simp
    qed
  qed
  then show thesis using that by blast
qed

lemma kb_wait_ready:
  assumes "ucast (dev (hw_trace s) KB_STATUS_PORT) AND KB_STATUS_OUTPUT_FULL \<noteq> (0 :: u8)"
  shows "fst (kb_wait_loop (Suc n) dev s)"
  using assms by (simp add: inb_def Let_def)

lemma kb_read_scancode_spec:
  obtains (byte) es where "list_all status_read es"
      and "kb_read_scancode dev s = (ucast (dev (hw_trace s @ es) KB_DATA_PORT),
        s\<lparr>hw_trace := hw_trace s @ es @ [InB KB_DATA_PORT (ucast (dev (hw_trace s @ es) KB_DATA_PORT))]\<rparr>)"
    | (timeout) es where "list_all status_read es" and "length es = 100000"
      and "kb_read_scancode dev s = (0, s\<lparr>hw_trace := hw_trace s @ es\<rparr>)"
      and "ucast (dev (hw_trace s) KB_STATUS_PORT) AND KB_STATUS_OUTPUT_FULL = (0 :: u8)"
proof -
  obtain es r where r: "kb_wait_loop 100000 dev s = (r, s\<lparr>hw_trace := hw_trace s @ es\<rparr>)"
    "list_all status_read es" "r \<or> length es = 100000"
    using kb_wait_loop_spec[of 100000 dev s] by blast
  show thesis
  proof (cases r)
    case True
    then show thesis
      using r by (intro byte[of es]) (simp_all add: kb_read_scancode_def kb_wait_output_def inb_def emit_def Let_def)
  next
    case False
    then have "ucast (dev (hw_trace s) KB_STATUS_PORT) AND KB_STATUS_OUTPUT_FULL = (0 :: u8)"
      using kb_wait_ready[of dev s 99999] r(1) by (cases "ucast (dev (hw_trace s) KB_STATUS_PORT) AND KB_STATUS_OUTPUT_FULL = (0 :: u8)") simp_all
    then show thesis
      using r False by (intro timeout[of es]) (simp_all add: kb_read_scancode_def kb_wait_output_def)
  qed
qed

text \<open>One character, whatever the timing: by the bytes left and the polls left.\<close>

lemma kb_getchar_delivers:
  assumes dev: "kb_delivers dev wait base scs"
    and n: "data_reads (hw_trace s) = base + n" "n \<le> length scs"
    and cs: "kb_chars (drop n scs) k = c # cs"
  obtains k' es n' where "kb_getchar dev k s = Some (c, k', s\<lparr>hw_trace := hw_trace s @ es\<rparr>)"
    and "data_reads (hw_trace s @ es) = base + n'" and "n' \<le> length scs" and "kb_chars (drop n' scs) k' = cs"
proof -
  have "\<exists>k' es n'. kb_getchar dev k s = Some (c, k', s\<lparr>hw_trace := hw_trace s @ es\<rparr>) \<and>
      data_reads (hw_trace s @ es) = base + n' \<and> n' \<le> length scs \<and> kb_chars (drop n' scs) k' = cs"
    using n cs
  proof (induction "(length scs - n, wait - waited (hw_trace s))" arbitrary: n k s
      rule: wf_induct_rule[OF wf_lex_prod[OF wf_less_than wf_less_than]])
    case (1 n s k)
    have n: "n < length scs" using "1.prems"(2,3) by (cases "n = length scs") auto
    note d = dev[unfolded kb_delivers_def, rule_format]
    show ?case
    proof (cases rule: kb_read_scancode_spec[of dev s])
      case (byte es)
      let ?sc = "scs ! n"
      let ?es = "es @ [InB KB_DATA_PORT ?sc]"
      let ?s = "s\<lparr>hw_trace := hw_trace s @ ?es\<rparr>"
      have tr: "data_reads (hw_trace s @ es) = base + n" using reads_polls[OF byte(1)] "1.prems"(1) by simp
      have v: "ucast (dev (hw_trace s @ es) KB_DATA_PORT) = ?sc" using d[OF tr n] by simp
      have r: "kb_read_scancode dev s = (?sc, ?s)" using byte(2) v by simp
      have tr': "data_reads (hw_trace ?s) = base + Suc n" using tr by (simp flip: append_assoc)
      obtain x k1 where x: "kb_scancode_to_ascii ?sc k = (x, k1)" by force
      have dr: "drop n scs = ?sc # drop (Suc n) scs" using n by (simp add: Cons_nth_drop_Suc)
      show ?thesis
      proof (cases "x = 0")
        case False
        then have "c = x" "cs = kb_chars (drop (Suc n) scs) k1" using "1.prems"(3) by (simp_all add: dr x)
        then show ?thesis
          using False r x tr' n
          by (intro exI[of _ k1] exI[of _ ?es] exI[of _ "Suc n"]) (subst kb_getchar.simps, simp)
      next
        case True
        then have p: "kb_chars (drop (Suc n) scs) k1 = c # cs" using "1.prems"(3) by (simp add: dr x)
        have "((length scs - Suc n, wait - waited (hw_trace ?s)), (length scs - n, wait - waited (hw_trace s)))
            \<in> less_than <*lex*> less_than" using diff_less_mono2[OF lessI n] by simp
        from "1.hyps"[OF this tr' _ p] n obtain k' es' n' where
          "kb_getchar dev k1 ?s = Some (c, k', ?s\<lparr>hw_trace := hw_trace ?s @ es'\<rparr>)"
          "data_reads (hw_trace ?s @ es') = base + n'" "n' \<le> length scs" "kb_chars (drop n' scs) k' = cs"
          by auto
        then show ?thesis
          using True r x
          by (intro exI[of _ k'] exI[of _ "?es @ es'"] exI[of _ n']) (subst kb_getchar.simps, simp)
      qed
    next
      case (timeout es)
      let ?s = "s\<lparr>hw_trace := hw_trace s @ es\<rparr>"
      have tr: "data_reads (hw_trace ?s) = base + n" "waited (hw_trace ?s) = waited (hw_trace s) + 100000"
        using reads_polls[OF timeout(1)] "1.prems"(1) timeout(2) by simp_all
      have "waited (hw_trace s) < wait"
      proof (rule ccontr)
        assume "\<not> waited (hw_trace s) < wait"
        then have "ucast (dev (hw_trace s) KB_STATUS_PORT) AND KB_STATUS_OUTPUT_FULL \<noteq> (0 :: u8)"
          using d[OF "1.prems"(1) n] by simp
        then show False using timeout(4) by simp
      qed
      then have "((length scs - n, wait - waited (hw_trace ?s)), (length scs - n, wait - waited (hw_trace s)))
          \<in> less_than <*lex*> less_than" using tr(2) by simp
      from "1.hyps"[OF this tr(1) "1.prems"(2,3)] obtain k' es' n' where
        "kb_getchar dev k ?s = Some (c, k', ?s\<lparr>hw_trace := hw_trace ?s @ es'\<rparr>)"
        "data_reads (hw_trace ?s @ es') = base + n'" "n' \<le> length scs" "kb_chars (drop n' scs) k' = cs"
        by auto
      then show ?thesis
        using timeout(3) by (intro exI[of _ k'] exI[of _ "es @ es'"] exI[of _ n'])
          (subst kb_getchar.simps, simp add: scancode_0)
    qed
  qed
  then show thesis using that by blast
qed

end
