(* ===== verification/ShellProps.thy ===== *)
theory ShellProps
  imports ShellInput VgaSpec
begin

text \<open>
  The line editor of the shell: an interface for programs that read characters up to
  Enter, its interpretation on the polled keyboard and the shell buffer, and what the
  command line holds, shows and remembers.
\<close>

section \<open>Sources of characters and their clients\<close>

text \<open>
  \<open>typed s cs\<close> says that the characters \<open>cs\<close> are waiting; fetching one is \<open>quiet\<close>, the
  client sees no other change.
\<close>

locale char_source =
  fixes getc :: "'s \<Rightarrow> (u8 \<times> 's) option"
    and typed :: "'s \<Rightarrow> u8 list \<Rightarrow> bool"
    and quiet :: "'s \<Rightarrow> 's \<Rightarrow> bool"
  assumes getc_typed: "typed s (c # cs) \<Longrightarrow> \<exists>s'. getc s = Some (c, s') \<and> typed s' cs \<and> quiet s s'"

text \<open>
  The state of the loop after \<open>n\<close> characters, when it is about to fetch the next one.
\<close>

primrec after_keys :: "('s \<Rightarrow> (u8 \<times> 's) option) \<Rightarrow> (u8 \<Rightarrow> 's \<Rightarrow> 's) \<Rightarrow> nat \<Rightarrow> 's \<Rightarrow> 's option" where
  "after_keys getc step 0 s = Some s"
| "after_keys getc step (Suc n) s =
     (case getc s of
        None \<Rightarrow> None
      | Some (c, s) \<Rightarrow> if c = 10 then None else after_keys getc step n (step c s))"

lemma read_until_after:
  "after_keys getc step n s = Some u \<Longrightarrow> read_until getc step s = read_until getc step u"
proof (induction n arbitrary: s)
  case (Suc n)
  then show ?case by (subst read_until.simps) (auto split: option.splits if_splits)
qed simp

text \<open>
  A client that handles one character after the other implements \<open>spec\<close>, and its output does
  not disturb the input.
\<close>

locale line_reader = char_source getc typed quiet
  for getc :: "'s \<Rightarrow> (u8 \<times> 's) option" and typed :: "'s \<Rightarrow> u8 list \<Rightarrow> bool" and quiet :: "'s \<Rightarrow> 's \<Rightarrow> bool" +
  fixes step :: "u8 \<Rightarrow> 's \<Rightarrow> 's" and rel :: "'s \<Rightarrow> 'l \<Rightarrow> bool" and spec :: "u8 \<Rightarrow> 'l \<Rightarrow> 'l"
  assumes rel_quiet: "rel s l \<Longrightarrow> quiet s s' \<Longrightarrow> rel s' l"
    and step_typed: "typed s cs \<Longrightarrow> rel s l \<Longrightarrow> typed (step c s) cs"
    and step_rel: "rel s l \<Longrightarrow> c \<noteq> 10 \<Longrightarrow> rel (step c s) (spec c l)"
begin

lemma after_keys_line:
  assumes "typed s (cs @ rest)" and "10 \<notin> set cs" and "rel s l" and "k \<le> length cs"
  shows "\<exists>u. after_keys getc step k s = Some u \<and> typed u (drop k cs @ rest) \<and> rel u (fold spec (take k cs) l)"
  using assms
proof (induction k arbitrary: s l cs)
  case 0
  then show ?case by simp
next
  case (Suc k)
  then obtain c cs' where cs: "cs = c # cs'" by (cases cs) auto
  obtain s' where s': "getc s = Some (c, s')" "typed s' (cs' @ rest)" "quiet s s'"
    using getc_typed[of s c "cs' @ rest"] Suc.prems(1) cs by auto
  have c: "c \<noteq> 10" "10 \<notin> set cs'" "k \<le> length cs'" using Suc.prems(2,4) cs by auto
  have r: "rel s' l" using rel_quiet Suc.prems(3) s'(3) .
  show ?case
    using Suc.IH[OF step_typed[OF s'(2) r] c(2) step_rel[OF r c(1)] c(3)] s'(1) c(1) by (simp add: cs)
qed

lemma read_until_line:
  assumes "typed s (cs @ 10 # rest)" and "10 \<notin> set cs" and "rel s l"
  shows "\<exists>s'. read_until getc step s = Some s' \<and> typed s' rest \<and> rel s' (fold spec cs l)"
  using assms
proof (induction cs arbitrary: s l)
  case Nil
  then obtain s' where s': "getc s = Some (10, s')" "typed s' rest" "quiet s s'"
    using getc_typed[of s 10 rest] by auto
  moreover have "rel s' l" using rel_quiet Nil.prems(3) s'(3) .
  ultimately show ?case by (subst read_until.simps) simp
next
  case (Cons c cs)
  then obtain s' where s': "getc s = Some (c, s')" "typed s' (cs @ 10 # rest)" "quiet s s'"
    using getc_typed[of s c "cs @ 10 # rest"] by auto
  have c: "c \<noteq> 10" "10 \<notin> set cs" using Cons.prems(2) by auto
  have r: "rel s' l" using rel_quiet Cons.prems(3) s'(3) .
  obtain t where "read_until getc step (step c s') = Some t" "typed t rest" "rel t (fold spec cs (spec c l))"
    using Cons.IH[OF step_typed[OF s'(2) r] c(2) step_rel[OF r c(1)]] by blast
  then show ?case using s'(1) c by (subst read_until.simps) simp
qed

end

section \<open>The polled keyboard is a source\<close>

definition shell_typed :: "device \<Rightarrow> 'a shell_state_scheme \<Rightarrow> u8 list \<Rightarrow> bool" where
  "shell_typed dev s cs \<longleftrightarrow> (\<exists>wait base scs n. kb_delivers dev wait base scs \<and>
     data_reads (hw_trace s) = base + n \<and> n \<le> length scs \<and> kb_chars (drop n scs) (shell_kb s) = cs)"

definition shell_quiet :: "'a shell_state_scheme \<Rightarrow> 'a shell_state_scheme \<Rightarrow> bool" where
  "shell_quiet s t \<longleftrightarrow> (\<exists>es k. t = s\<lparr>hw_trace := es, shell_kb := k\<rparr>)"

lemma shell_getchar_typed:
  assumes "shell_typed dev s (c # cs)"
  shows "\<exists>s'. shell_getchar dev s = Some (c, s') \<and> shell_typed dev s' cs \<and> shell_quiet s s'"
proof -
  obtain wait base scs n where d: "kb_delivers dev wait base scs"
    and n: "data_reads (hw_trace s) = base + n" "n \<le> length scs" "kb_chars (drop n scs) (shell_kb s) = c # cs"
    using assms unfolding shell_typed_def by blast
  obtain k' es n' where k: "kb_getchar dev (shell_kb s) s = Some (c, k', s\<lparr>hw_trace := hw_trace s @ es\<rparr>)"
    and n': "data_reads (hw_trace s @ es) = base + n'" "n' \<le> length scs" "kb_chars (drop n' scs) k' = cs"
    by (rule kb_getchar_delivers[OF d n])
  let ?s = "s\<lparr>hw_trace := hw_trace s @ es, shell_kb := k'\<rparr>"
  have "shell_typed dev ?s cs" unfolding shell_typed_def using d n' by (intro exI conjI) auto
  moreover have "shell_quiet s ?s" unfolding shell_quiet_def by blast
  ultimately show ?thesis using k by (simp add: shell_getchar_def)
qed

interpretation kb_source: char_source "shell_getchar dev" "shell_typed dev" shell_quiet for dev
  by unfold_locales (rule shell_getchar_typed)

section \<open>The command line\<close>

text \<open>What a character does to the line.\<close>

definition edit_key :: "u8 \<Rightarrow> u8 list \<Rightarrow> u8 list" where
  "edit_key c l =
     (if c = 8 then butlast l
      else if c = 27 then []
      else if 32 \<le> c \<and> c < 128 \<and> length l < 255 then l @ [c] else l)"

definition edit_line :: "u8 list \<Rightarrow> u8 list" where
  "edit_line cs = fold edit_key cs []"

text \<open>
  Reading a line changes the screen, the hardware trace, the modifier flags and the line
  buffer, nothing else of the machine.
\<close>

definition console_only :: "'a shell_state_scheme \<Rightarrow> 'a shell_state_scheme \<Rightarrow> bool" where
  "console_only s t \<longleftrightarrow>
     t = s\<lparr>hw_trace := hw_trace t, vga_buffer := vga_buffer t, vga_cursor_x := vga_cursor_x t,
           vga_cursor_y := vga_cursor_y t, shell_kb := shell_kb t, shell_buffer := shell_buffer t,
           shell_buffer_pos := shell_buffer_pos t\<rparr>"

lemma console_only_refl: "console_only s s"
  by (simp add: console_only_def)

lemma console_only_trans: "console_only s t \<Longrightarrow> console_only t u \<Longrightarrow> console_only s u"
proof -
  assume st: "console_only s t" and tu: "console_only t u"
  show "console_only s u"
    unfolding console_only_def by (subst tu[unfolded console_only_def], subst st[unfolded console_only_def]) simp
qed

lemma putcharE:
  fixes s :: "'a vga_state_scheme"
  obtains b x y es where "list_all vga_event es"
    and "vga_putchar c s = s\<lparr>hw_trace := hw_trace s @ es, vga_buffer := b, vga_cursor_x := x, vga_cursor_y := y\<rparr>"
proof -
  obtain b x y col es where p: "list_all vga_event es" "vga_putchar c s = s\<lparr>hw_trace := hw_trace s @ es,
      vga_buffer := b, vga_cursor_x := x, vga_cursor_y := y, vga_color := col\<rparr>"
    using vga_only_putchar[of s c] by (rule vga_onlyE)
  have "col = vga_color (vga_putchar c s)" by (subst p(2)) simp
  then have "col = vga_color s" by simp
  then show thesis using that p by (cases s) simp
qed

lemma putchar_shell [simp]:
  fixes s :: "'a shell_state_scheme"
  shows "shell_buffer (vga_putchar c s) = shell_buffer s" "shell_buffer_pos (vga_putchar c s) = shell_buffer_pos s"
    "shell_history (vga_putchar c s) = shell_history s" "shell_kb (vga_putchar c s) = shell_kb s"
    "shell_history_count (vga_putchar c s) = shell_history_count s"
proof -
  obtain b x y es where p: "vga_putchar c s
      = s\<lparr>hw_trace := hw_trace s @ es, vga_buffer := b, vga_cursor_x := x, vga_cursor_y := y\<rparr>" using putcharE .
  show "shell_buffer (vga_putchar c s) = shell_buffer s" "shell_buffer_pos (vga_putchar c s) = shell_buffer_pos s"
    "shell_history (vga_putchar c s) = shell_history s" "shell_kb (vga_putchar c s) = shell_kb s"
    "shell_history_count (vga_putchar c s) = shell_history_count s"
    unfolding p by simp_all
qed

lemma console_only_putchar: "console_only s (vga_putchar c s)"
proof -
  obtain b x y es where p: "vga_putchar c s
      = s\<lparr>hw_trace := hw_trace s @ es, vga_buffer := b, vga_cursor_x := x, vga_cursor_y := y\<rparr>" using putcharE .
  show ?thesis unfolding console_only_def p by simp
qed

lemma console_only_update:
  "console_only s (s\<lparr>shell_buffer := b\<rparr>)" "console_only s (s\<lparr>shell_buffer_pos := p\<rparr>)"
  by (simp_all add: console_only_def)

lemma shell_typed_same:
  assumes "shell_typed dev s cs" and "shell_kb t = shell_kb s"
    and "\<exists>es. list_all vga_event es \<and> hw_trace t = hw_trace s @ es"
  shows "shell_typed dev t cs"
proof -
  obtain es where es: "list_all vga_event es" "hw_trace t = hw_trace s @ es" using assms(3) by blast
  have "data_reads (hw_trace t) = data_reads (hw_trace s)" unfolding es(2) using reads_vga[OF es(1)] by blast
  then show ?thesis using assms(1,2) unfolding shell_typed_def by simp
qed

lemma shell_typed_putchar: "shell_typed dev s cs \<Longrightarrow> shell_typed dev (vga_putchar c s) cs"
proof (rule shell_typed_same)
  obtain b x y es where es: "list_all vga_event es" and p: "vga_putchar c s
      = s\<lparr>hw_trace := hw_trace s @ es, vga_buffer := b, vga_cursor_x := x, vga_cursor_y := y\<rparr>" using putcharE .
  have "hw_trace (vga_putchar c s) = hw_trace s @ es" unfolding p by simp
  then show "\<exists>es. list_all vga_event es \<and> hw_trace (vga_putchar c s) = hw_trace s @ es" using es by blast
qed simp_all

lemma shell_typed_update [simp]:
  "shell_typed dev (s\<lparr>shell_buffer := b\<rparr>) cs = shell_typed dev s cs"
  "shell_typed dev (s\<lparr>shell_buffer_pos := p\<rparr>) cs = shell_typed dev s cs"
  "shell_typed dev (s\<lparr>shell_history_index := i\<rparr>) cs = shell_typed dev s cs"
  by (simp_all add: shell_typed_def)

text \<open>The buffer holds the line and its NUL.\<close>

definition line_state :: "'a shell_state_scheme \<Rightarrow> u8 list \<Rightarrow> bool" where
  "line_state s l \<longleftrightarrow> shell_buffer_pos s = int (length l) \<and> length l \<le> 255 \<and> 0 \<notin> set l \<and>
     length (shell_buffer s) = 256 \<and> take (Suc (length l)) (shell_buffer s) = l @ [0]"

lemma line_stateD:
  assumes "line_state s l"
  shows "shell_buffer_pos s = int (length l)" "length l \<le> 255" "0 \<notin> set l" "length (shell_buffer s) = 256"
    "take (length l) (shell_buffer s) = l" "shell_buffer s ! length l = 0"
proof -
  show "shell_buffer_pos s = int (length l)" "length l \<le> 255" "0 \<notin> set l" "length (shell_buffer s) = 256"
    using assms by (simp_all add: line_state_def)
  have t: "take (Suc (length l)) (shell_buffer s) = l @ [0]" using assms by (simp add: line_state_def)
  have "take (length l) (shell_buffer s) = take (length l) (take (Suc (length l)) (shell_buffer s))"
    by (simp add: take_take min_def)
  then show "take (length l) (shell_buffer s) = l" by (simp add: t)
  have "shell_buffer s ! length l = take (Suc (length l)) (shell_buffer s) ! length l" by simp
  then show "shell_buffer s ! length l = 0" by (simp add: t)
qed

lemma line_stateI:
  assumes "shell_buffer_pos s = int (length l)" "length l \<le> 255" "0 \<notin> set l" "length (shell_buffer s) = 256"
    "take (length l) (shell_buffer s) = l" "shell_buffer s ! length l = 0"
  shows "line_state s l"
  using assms by (simp add: line_state_def take_Suc_conv_app_nth)

lemma line_state_c_string: "line_state s l \<Longrightarrow> c_string (shell_buffer s) = l"
proof -
  assume l: "line_state s l"
  have "shell_buffer s = l @ 0 # drop (Suc (length l)) (shell_buffer s)"
    using append_take_drop_id[of "Suc (length l)" "shell_buffer s", symmetric] l
    unfolding line_state_def by (metis append_Cons append_Nil append_assoc)
  moreover have "takeWhile (\<lambda>c. c \<noteq> 0) (l @ 0 # xs) = l" for xs
    using line_stateD(3)[OF l] by (subst takeWhile_append2) auto
  ultimately show ?thesis unfolding c_string_def by metis
qed

lemma line_state_same: "shell_buffer t = shell_buffer s \<Longrightarrow> shell_buffer_pos t = shell_buffer_pos s \<Longrightarrow>
    line_state t l = line_state s l"
  by (simp add: line_state_def)

lemma line_state_putchar [simp]: "line_state (vga_putchar c s) l = line_state s l"
  by (rule line_state_same) simp_all

section \<open>Each key implements the editor\<close>

lemma shell_clear_line_spec:
  assumes "line_state s l"
  shows "line_state (shell_clear_line s) []" "console_only s (shell_clear_line s)"
    "shell_typed dev s cs \<Longrightarrow> shell_typed dev (shell_clear_line s) cs"
    "screen_shows s t \<Longrightarrow> screen_shows (shell_clear_line s)
       (fold (tr_put (vga_color s)) (replicate (length l) 8) t)"
proof -
  let ?body = "\<lambda>(_ :: nat) s. let s = vga_putchar 8 s in s\<lparr>shell_buffer_pos := shell_buffer_pos s - 1\<rparr>"
  define I where "I k u \<longleftrightarrow> shell_buffer_pos u = int (length l) - int k \<and> shell_buffer u = shell_buffer s \<and>
      console_only s u \<and> vga_color u = vga_color s \<and>
      (\<forall>dev cs. shell_typed dev s cs \<longrightarrow> shell_typed dev u cs) \<and>
      (\<forall>t. screen_shows s t \<longrightarrow> screen_shows u (fold (tr_put (vga_color s)) (replicate k 8) t))" for k u
  have "I (length l) (for_up (length l) 0 ?body s)"
  proof (rule for_up_invariant[where I = I])
    show "I 0 s" using line_stateD(1)[OF assms] by (simp add: I_def console_only_refl)
    fix k u assume k: "I k u"
    let ?u = "vga_putchar 8 u"
    have r: "fold f (replicate (Suc k) (8 :: u8)) x = f 8 (fold f (replicate k 8) x)" for f and x :: transcript
      by (simp only: replicate_append_same[symmetric] replicate_Suc fold_append) simp
    have "screen_shows ?u (fold (tr_put (vga_color s)) (replicate (Suc k) 8) t)" if "screen_shows s t" for t
      using k that vga_putchar_transcript[of u _ 8] by (simp only: r I_def)
    then have "screen_shows (?u\<lparr>shell_buffer_pos := p\<rparr>) (fold (tr_put (vga_color s)) (replicate (Suc k) 8) t)"
      if "screen_shows s t" for t p using that by (simp add: screen_shows_def)
    moreover have "console_only s (?u\<lparr>shell_buffer_pos := p\<rparr>)" for p
      using k console_only_trans console_only_putchar console_only_update(2) unfolding I_def by metis
    ultimately show "I (Suc k) (?body (0 + of_nat k) u)"
      using k by (simp add: I_def Let_def shell_typed_putchar del: replicate.simps)
  qed
  moreover define u where "u = for_up (length l) (0 :: nat) ?body s"
  ultimately have u: "shell_buffer_pos u = 0" "shell_buffer u = shell_buffer s" "console_only s u"
      "shell_typed dev s cs \<Longrightarrow> shell_typed dev u cs"
      "screen_shows s t \<Longrightarrow> screen_shows u (fold (tr_put (vga_color s)) (replicate (length l) 8) t)"
    by (simp_all add: I_def)
  have c: "shell_clear_line s = u\<lparr>shell_buffer := (shell_buffer s)[0 := 0]\<rparr>"
    using line_stateD(1)[OF assms] u(2) by (simp add: shell_clear_line_def u_def Let_def)
  show "line_state (shell_clear_line s) []" using u(1) line_stateD(4)[OF assms] by (intro line_stateI) (simp_all add: c)
  show "console_only s (shell_clear_line s)" unfolding c by (rule console_only_trans[OF u(3) console_only_update(1)])
  show "shell_typed dev s cs \<Longrightarrow> shell_typed dev (shell_clear_line s) cs" using u(4) by (simp add: c)
  show "screen_shows s t \<Longrightarrow> screen_shows (shell_clear_line s) (fold (tr_put (vga_color s)) (replicate (length l) 8) t)"
    using u(5) by (simp add: c screen_shows_def)
qed

section \<open>What the row shows\<close>

text \<open>
  What a cell looks like: the character, its colour unless it is a blank, the background.
  Blanks look the same whatever their foreground colour; \<^verbatim>\<open>vga_clear\<close> writes them in black.
\<close>

definition look :: "u16 \<Rightarrow> u8 \<times> u16 \<times> u16" where
  "look e = (ucast e, if ucast e = (32 :: u8) then 0 else drop_bit 8 e AND 15, drop_bit 12 e)"

definition same_look :: "transcript \<Rightarrow> transcript \<Rightarrow> bool" where
  "same_look t u \<longleftrightarrow> col t = col u \<and> row t = row u \<and> map look (cells t) = map look (cells u)"

lemma same_look_refl [simp]: "same_look t t"
  by (simp add: same_look_def)

lemma same_look_trans: "same_look t u \<Longrightarrow> same_look u v \<Longrightarrow> same_look t v"
  by (simp add: same_look_def)

lemma same_look_put: "same_look t u \<Longrightarrow> same_look (tr_put color c t) (tr_put color c u)"
  using map_eq_imp_length_eq[of look "cells t" look "cells u"]
  by (simp add: same_look_def tr_put_def tr_newline_def tr_write_def map_update)

lemma same_look_fold: "same_look t u \<Longrightarrow> same_look (fold (tr_put color) cs t) (fold (tr_put color) cs u)"
  by (induction cs arbitrary: t u) (simp_all add: same_look_put)

text \<open>The line \<open>l\<close> written behind the cursor of \<open>t\<close>, on a row that looks blank from there on.\<close>

definition show_line :: "u8 \<Rightarrow> transcript \<Rightarrow> u8 list \<Rightarrow> transcript" where
  "show_line color t l =
     (let p = row t * 80 + col t
      in t\<lparr>col := col t + length l,
           cells := take p (cells t) @ map (\<lambda>c. vga_make_entry c color) l @ drop (p + length l) (cells t)\<rparr>)"

definition blank_row :: "u8 \<Rightarrow> transcript \<Rightarrow> bool" where
  "blank_row color t \<longleftrightarrow> (row t + 1) * 80 \<le> length (cells t) \<and>
     (\<forall>i < 80. col t \<le> i \<longrightarrow> look (cells t ! (row t * 80 + i)) = look (vga_make_entry 32 color))"

lemma show_line_Nil [simp]: "show_line color t [] = t"
  by (simp add: show_line_def Let_def)

lemma show_line_put:
  assumes "(row t + 1) * 80 \<le> length (cells t)" and "col t + Suc (length l) < 80" and "32 \<le> c" "c < 128"
  shows "tr_put color c (show_line color t l) = show_line color t (l @ [c])"
proof -
  let ?p = "row t * 80 + col t"
  have len: "?p + length l < length (cells t)" using assms(1,2) by simp
  have np: "c \<noteq> 10" "c \<noteq> 13" "c \<noteq> 9" "c \<noteq> 8" using assms(3) by auto
  have "(take ?p (cells t) @ map (\<lambda>c. vga_make_entry c color) l @ drop (?p + length l) (cells t))
      [?p + length l := v] = take ?p (cells t) @ map (\<lambda>c. vga_make_entry c color) l @
        (v # drop (Suc (?p + length l)) (cells t))" for v
    using len Cons_nth_drop_Suc[OF len, symmetric] by (simp add: list_update_append min_def)
  then show ?thesis
    using assms(2-4) np by (simp add: tr_put_def show_line_def tr_write_def Let_def add.assoc)
qed

lemma show_line_fold:
  assumes "(row t + 1) * 80 \<le> length (cells t)" and "\<forall>c \<in> set l. 32 \<le> c \<and> c < 128" and "col t + length l < 80"
  shows "fold (tr_put color) l t = show_line color t l"
  using assms(2,3)
proof (induction l rule: rev_induct)
  case (snoc c l)
  then show ?case using show_line_put[OF assms(1), of l c color] by simp
qed simp

lemma show_line_back:
  assumes "blank_row color t" and "col t + length l < 80" and "l \<noteq> []"
  shows "same_look (tr_put color 8 (show_line color t l)) (show_line color t (butlast l))"
proof -
  let ?p = "row t * 80 + col t"
  obtain k c where l: "l = k @ [c]" using assms(3) rev_exhaust by blast
  have len: "?p + length k < length (cells t)" using assms(1,2) by (simp add: blank_row_def l)
  have "look (cells t ! (row t * 80 + (col t + length k))) = look (vga_make_entry 32 color)"
    using assms(1,2) unfolding blank_row_def l by simp
  then have "map look (drop (?p + length k) (cells t))
      = look (vga_make_entry 32 color) # map look (drop (Suc (?p + length k)) (cells t))"
    using len by (simp add: Cons_nth_drop_Suc[symmetric] add.assoc)
  then show ?thesis
    using len by (simp add: same_look_def tr_put_def show_line_def tr_write_def Let_def l list_update_append min_def add.assoc)
qed

lemma show_line_clear:
  assumes "blank_row color t" and "col t + length l < 80"
  shows "same_look (fold (tr_put color) (replicate (length l) 8) (show_line color t l)) t"
  using assms(2)
proof (induction l rule: rev_induct)
  case Nil
  then show ?case by simp
next
  case (snoc c l)
  have "same_look (tr_put color 8 (show_line color t (l @ [c]))) (show_line color t l)"
    using show_line_back[OF assms(1) snoc.prems] by simp
  moreover have "same_look (fold (tr_put color) (replicate (length l) 8) (show_line color t l)) t" using snoc by simp
  ultimately have "same_look (fold (tr_put color) (replicate (length l) 8) (tr_put color 8 (show_line color t (l @ [c])))) t"
    using same_look_fold same_look_trans by blast
  then show ?case by simp
qed

section \<open>The editor is a client of the keyboard\<close>

text \<open>
  The abstract state is the line and whether it has fitted on its row so far, where the
  prompt ends in column \<open>n\<close>.
\<close>

fun edit_fits :: "nat \<Rightarrow> u8 \<Rightarrow> u8 list \<times> bool \<Rightarrow> u8 list \<times> bool" where
  "edit_fits n c (l, fits) = (edit_key c l, fits \<and> n + length (edit_key c l) < 80)"

lemma fold_edit_fits: "fst (fold (edit_fits n) cs (l, fits)) = fold edit_key cs l"
  by (induction cs arbitrary: l fits) simp_all

fun edits :: "'a shell_state_scheme \<Rightarrow> transcript \<Rightarrow> 'a shell_state_scheme \<Rightarrow> u8 list \<times> bool \<Rightarrow> bool" where
  "edits s0 t0 s (l, fits) \<longleftrightarrow> line_state s l \<and> console_only s0 s \<and>
     (fits \<longrightarrow> blank_row (vga_color s0) t0 \<and> col t0 + length l < 80 \<and>
        (\<exists>t. screen_shows s t \<and> same_look t (show_line (vga_color s0) t0 l)))"

lemma console_only_color: "console_only s t \<Longrightarrow> vga_color t = vga_color s"
proof -
  assume "console_only s t"
  then obtain tr b x y k bf p where "t = s\<lparr>hw_trace := tr, vga_buffer := b, vga_cursor_x := x, vga_cursor_y := y,
      shell_kb := k, shell_buffer := bf, shell_buffer_pos := p\<rparr>" unfolding console_only_def by blast
  then show "vga_color t = vga_color s" by simp
qed

lemma screen_shows_shell [simp]:
  "screen_shows (s\<lparr>shell_buffer := b\<rparr>) t = screen_shows s t"
  "screen_shows (s\<lparr>shell_buffer_pos := p\<rparr>) t = screen_shows s t"
  "screen_shows (s\<lparr>shell_history_index := i\<rparr>) t = screen_shows s t"
  by (simp_all add: screen_shows_def)

lemma shell_key_edits:
  assumes e: "edits s0 t0 s lf"
  shows "edits s0 t0 (shell_key c s) (edit_fits (col t0) c lf) \<and>
    (shell_typed dev s cs \<longrightarrow> shell_typed dev (shell_key c s) cs)"
proof -
  obtain l fits where lf: "lf = (l, fits)" by force
  have st: "line_state s l" and co: "console_only s0 s"
    and sh: "fits \<Longrightarrow> blank_row (vga_color s0) t0 \<and> col t0 + length l < 80 \<and>
      (\<exists>t. screen_shows s t \<and> same_look t (show_line (vga_color s0) t0 l))"
    using e by (auto simp: lf)
  note d = line_stateD[OF st] and col = console_only_color[OF co]
  have put: "console_only s0 (vga_putchar x (s\<lparr>shell_buffer_pos := p, shell_buffer := b\<rparr>))" for x p b
    using co console_only_update console_only_putchar console_only_trans by metis
  have echo: "\<exists>t. screen_shows (vga_putchar x (s\<lparr>shell_buffer_pos := p, shell_buffer := b\<rparr>)) t \<and>
      same_look t (tr_put (vga_color s0) x (show_line (vga_color s0) t0 l))" if f: fits for x p b
  proof -
    obtain t where t: "screen_shows s t" "same_look t (show_line (vga_color s0) t0 l)" using sh[OF f] by blast
    have "screen_shows (vga_putchar x (s\<lparr>shell_buffer_pos := p, shell_buffer := b\<rparr>)) (tr_put (vga_color s0) x t)"
      using vga_putchar_transcript[of "s\<lparr>shell_buffer_pos := p, shell_buffer := b\<rparr>" t x] t(1) col by simp
    then show ?thesis using same_look_put[OF t(2)] by blast
  qed
  have result: "edits s0 t0 (vga_putchar x u) (l', fits \<and> col t0 + length l' < 80) \<and>
      (shell_typed dev s cs \<longrightarrow> shell_typed dev (vga_putchar x u) cs)"
    if u: "u = s\<lparr>shell_buffer_pos := p, shell_buffer := b\<rparr>" and l': "line_state u l'"
      and scr: "fits \<Longrightarrow> col t0 + length l' < 80 \<Longrightarrow>
        \<exists>t. screen_shows (vga_putchar x u) t \<and> same_look t (show_line (vga_color s0) t0 l')" for x u p b l'
  proof -
    have "console_only s0 (vga_putchar x u)" unfolding u by (rule put)
    moreover have "shell_typed dev (vga_putchar x u) cs" if "shell_typed dev s cs"
      using that by (intro shell_typed_putchar) (simp add: u)
    ultimately show ?thesis using l' scr sh unfolding edits.simps line_state_putchar by blast
  qed
  consider (erase) "c = 8" | (clear) "c = 27" | (char) "c \<noteq> 8" "c \<noteq> 27" "32 \<le> c" "c < 128"
    | (other) "c \<noteq> 8" "c \<noteq> 27" "\<not> (32 \<le> c \<and> c < 128)" by blast
  then show ?thesis
  proof cases
    case erase
    show ?thesis
    proof (cases "l = []")
      case True
      then show ?thesis using erase e d(1) by (simp add: lf shell_key_def edit_key_def)
    next
      case False
      then obtain k x where l: "l = k @ [x]" using rev_exhaust by blast
      let ?u = "s\<lparr>shell_buffer_pos := int (length k), shell_buffer := (shell_buffer s)[length k := 0]\<rparr>"
      have pos: "shell_buffer_pos s = int (length k) + 1" using d(1) by (simp add: l)
      have key: "shell_key c s = vga_putchar 8 ?u"
        unfolding shell_key_def Let_def using erase by (simp add: pos)
      have "take (length k) (shell_buffer s) = take (length k) (take (length l) (shell_buffer s))"
        by (simp add: l take_take)
      then have "take (length k) (shell_buffer s) = k" by (simp only: d(5)) (simp add: l)
      then have ls: "line_state ?u k" using d(2-4) by (intro line_stateI) (simp_all add: l)
      have scr: "\<exists>t. screen_shows (vga_putchar 8 ?u) t \<and> same_look t (show_line (vga_color s0) t0 k)"
        if "fits" "col t0 + length k < 80"
        using echo[of 8 "(shell_buffer s)[length k := 0]" "int (length k)"] show_line_back[of "vga_color s0" t0 l]
          sh[OF that(1)] that(1) same_look_trans by (simp add: l) blast
      have ek: "edit_key c l = k" using erase by (simp add: edit_key_def l)
      show ?thesis unfolding lf key edit_fits.simps ek by (rule result[OF refl ls scr])
    qed
  next
    case clear
    note c = shell_clear_line_spec[OF st]
    have scr: "\<exists>t. screen_shows (shell_clear_line s) t \<and> same_look t t0" if f: fits
    proof -
      obtain t where t: "screen_shows s t" "same_look t (show_line (vga_color s0) t0 l)" using sh[OF f] by blast
      have "same_look (fold (tr_put (vga_color s0)) (replicate (length l) 8) t) t0"
        using same_look_trans[OF same_look_fold[OF t(2)] show_line_clear] sh[OF f] by blast
      then show ?thesis using c(4)[OF t(1)] unfolding col by blast
    qed
    have key: "shell_key c s = shell_clear_line s" "edit_key c l = []" using clear by (simp_all add: shell_key_def edit_key_def)
    show ?thesis
      unfolding lf key edit_fits.simps edits.simps
      using c(1,3) scr sh console_only_trans[OF co c(2)] by simp
  next
    case char
    show ?thesis
    proof (cases "length l < 255")
      case False
      then show ?thesis using char e d(1,2) by (auto simp: lf shell_key_def edit_key_def)
    next
      case True
      let ?l = "l @ [c]"
      let ?b = "(shell_buffer s)[length l := c, Suc (length l) := 0]"
      let ?u = "s\<lparr>shell_buffer_pos := int (length l) + 1, shell_buffer := ?b\<rparr>"
      have nat: "nat (int (length l) + 1) = Suc (length l)" by simp
      have key: "shell_key c s = vga_putchar c ?u"
        unfolding shell_key_def Let_def using char True printable_signed[of c] by (simp add: d(1) nat)
      have "take (length l) (shell_buffer s) = l" "c \<noteq> 0" using d(5) char by auto
      then have ls: "line_state ?u ?l"
        using d(2-4) True by (intro line_stateI) (simp_all add: take_Suc_conv_app_nth)
      have scr: "\<exists>t. screen_shows (vga_putchar c ?u) t \<and> same_look t (show_line (vga_color s0) t0 ?l)"
        if "fits" "col t0 + length ?l < 80"
        using echo[of c ?b "int (length l) + 1", OF that(1)] sh[OF that(1)] that(2)
          show_line_put[of t0 l c "vga_color s0"] char by (simp add: blank_row_def)
      have ek: "edit_key c l = ?l" using char True by (simp add: edit_key_def)
      show ?thesis unfolding lf key edit_fits.simps ek by (rule result[OF refl ls scr])
    qed
  next
    case other
    then have "shell_key c s = s" using printable_signed[of c] by (auto simp: shell_key_def)
    then show ?thesis using other e by (auto simp: lf edit_key_def)
  qed
qed

interpretation shell_editor: line_reader "shell_getchar dev" "shell_typed dev" shell_quiet
  shell_key "edits s0 t0" "edit_fits (col t0)" for dev s0 t0
proof
  fix s s' lf c cs
  show "edits s0 t0 s' lf" if r: "edits s0 t0 s lf" and q: "shell_quiet s s'"
  proof -
    obtain l fits where lf: "lf = (l, fits)" by force
    obtain es k where s': "s' = s\<lparr>hw_trace := es, shell_kb := k\<rparr>" using q unfolding shell_quiet_def by blast
    have "console_only s s'" by (simp add: console_only_def s')
    then have "console_only s0 s'" using r console_only_trans by (auto simp: lf)
    moreover have "line_state s' l" using r by (simp add: lf s' line_state_def)
    moreover have "screen_shows s' t = screen_shows s t" for t by (simp add: s' screen_shows_def)
    ultimately show ?thesis using r by (simp add: lf)
  qed
  show "shell_typed dev (shell_key c s) cs" if "shell_typed dev s cs" "edits s0 t0 s lf"
    using shell_key_edits[OF that(2)] that(1) by blast
  show "edits s0 t0 (shell_key c s) (edit_fits (col t0) c lf)" if "edits s0 t0 s lf"
    using shell_key_edits[OF that] by blast
qed

section \<open>The history\<close>

text \<open>All remembered lines; the ring holds the last ten.\<close>

definition hist_add :: "u8 list \<Rightarrow> u8 list list \<Rightarrow> u8 list list" where
  "hist_add cmd log = (if cmd = [] \<or> log \<noteq> [] \<and> last log = cmd then log else log @ [cmd])"

definition history_holds :: "'a shell_state_scheme \<Rightarrow> u8 list list \<Rightarrow> bool" where
  "history_holds s log \<longleftrightarrow> shell_history_count s = int (length log) \<and> length (shell_history s) = 10 \<and>
     (\<forall>r \<in> set (shell_history s). length r = 256) \<and>
     (\<forall>i < length log. length log \<le> i + 10 \<longrightarrow> c_string (shell_history s ! (i mod 10)) = log ! i)"

lemma c_string_no_nul: "0 \<notin> set (c_string xs)"
  by (auto simp: c_string_def dest: set_takeWhileD)

lemma c_string_strcpy: "0 \<notin> set cmd \<Longrightarrow> c_string (strcpy_array dest cmd) = cmd"
  unfolding c_string_def strcpy_array_def by (subst takeWhile_append2) auto

lemma length_strcpy: "length cmd < length dest \<Longrightarrow> length (strcpy_array dest cmd) = length dest"
  by (simp add: strcpy_array_def)

lemma shell_add_to_history_holds:
  assumes h: "history_holds s log" and cmd: "0 \<notin> set cmd" "length cmd \<le> 255"
  shows "history_holds (shell_add_to_history cmd s) (hist_add cmd log)"
proof -
  have cnt: "shell_history_count s = int (length log)" and len: "length (shell_history s) = 10"
    and rows: "\<And>i. i < 10 \<Longrightarrow> length (shell_history s ! i) = 256"
    and last: "\<And>i. i < length log \<Longrightarrow> length log \<le> i + 10 \<Longrightarrow> c_string (shell_history s ! (i mod 10)) = log ! i"
    using h by (simp_all add: history_holds_def)
  have eq: "strcmp_list cmd (c_string (shell_history s ! nat ((shell_history_count s - 1) mod int SHELL_HISTORY_SIZE))) = 0
      \<longleftrightarrow> last log = cmd" if "log \<noteq> []"
  proof -
    have "nat ((shell_history_count s - 1) mod int SHELL_HISTORY_SIZE) = (length log - 1) mod 10"
      using that by (cases log) (simp_all add: cnt nat_mod_distrib)
    moreover have "c_string (shell_history s ! ((length log - 1) mod 10)) = log ! (length log - 1)"
      using that by (intro last) (cases log; simp)+
    ultimately show ?thesis using strcmp_list_order[OF cmd(1) c_string_no_nul, of "shell_history s ! ((length log - 1) mod 10)"] that
      by (metis last_conv_nth)
  qed
  show ?thesis
  proof (cases "cmd = [] \<or> log \<noteq> [] \<and> List.last log = cmd")
    case True
    then have "shell_add_to_history cmd s = s" using eq cnt by (auto simp: shell_add_to_history_def)
    then show ?thesis using True h by (simp add: hist_add_def)
  next
    case False
    let ?i = "length log mod 10"
    let ?h = "(shell_history s)[?i := strcpy_array (shell_history s ! ?i) cmd]"
    have i: "nat (shell_history_count s mod int SHELL_HISTORY_SIZE) = ?i" by (simp add: cnt nat_mod_distrib)
    have a: "shell_add_to_history cmd s = s\<lparr>shell_history := ?h, shell_history_count := shell_history_count s + 1,
        shell_history_index := shell_history_count s + 1\<rparr>"
      using False eq cnt i by (auto simp: shell_add_to_history_def Let_def)
    have lr: "\<forall>r \<in> set ?h. length r = 256"
      using rows cmd(2) len by (auto simp: length_strcpy in_set_conv_nth nth_list_update)
    have "c_string (?h ! (j mod 10)) = (log @ [cmd]) ! j"
      if "j < Suc (length log)" "Suc (length log) \<le> j + 10" for j
    proof (cases "j = length log")
      case True
      then show ?thesis using len by (simp add: c_string_strcpy[OF cmd(1)])
    next
      case False
      then have j: "j < length log" using that by simp
      have "j mod 10 \<noteq> ?i"
      proof
        assume m: "j mod 10 = ?i"
        have "10 dvd length log - j" using m j mod_eq_dvd_iff_nat[of j "length log" 10] by simp
        then show False using j that(2) by (auto dest: dvd_imp_le)
      qed
      then show ?thesis using j last[of j] that by (simp add: nth_append)
    qed
    then show ?thesis using False cnt len lr unfolding history_holds_def a hist_add_def by simp
  qed
qed

section \<open>Reading a line\<close>

definition start_line :: "'a shell_state_scheme \<Rightarrow> 'a shell_state_scheme" where
  "start_line s = s\<lparr>shell_buffer_pos := 0, shell_buffer := (shell_buffer s)[0 := 0],
     shell_history_index := shell_history_count s\<rparr>"

lemma start_line_edits:
  assumes "length (shell_buffer s) = 256"
  shows "edits (start_line s) t (start_line s)
    ([], screen_shows s t \<and> blank_row (vga_color s) t)"
proof -
  have "line_state (start_line s) []" using assms by (intro line_stateI) (simp_all add: start_line_def)
  moreover have "screen_shows (start_line s) t = screen_shows s t" by (simp add: start_line_def)
  moreover have "vga_color (start_line s) = vga_color s" by (simp add: start_line_def)
  moreover have "col t < 80" if "screen_shows s t" using that by (auto simp: screen_shows_def)
  ultimately show ?thesis by (auto simp: console_only_refl)
qed

text \<open>
  The rest of the machine: two states with equal \<open>machine_part\<close> differ at most in the hardware
  trace, the screen and the variables of the shell.
\<close>

definition machine_part :: "'a shell_state_scheme \<Rightarrow> 'a shell_state_scheme" where
  "machine_part s = s\<lparr>hw_trace := [], vga_buffer := [], vga_cursor_x := 0, vga_cursor_y := 0,
     shell_history := [], shell_history_count := 0, shell_history_index := 0, shell_buffer := [],
     shell_buffer_pos := 0, shell_kb := kb_mods_initial\<rparr>"

lemma machine_part_steps:
  shows "console_only s t \<Longrightarrow> machine_part t = machine_part s"
    "machine_part (vga_putchar c s) = machine_part s"
    "machine_part (shell_add_to_history cmd s) = machine_part s"
    "machine_part (start_line s) = machine_part s"
proof -
  show c: "machine_part t = machine_part s" if co: "console_only s t" for s t :: "'a shell_state_scheme"
  proof -
    obtain tr b x y k bf p where "t = s\<lparr>hw_trace := tr, vga_buffer := b, vga_cursor_x := x, vga_cursor_y := y,
        shell_kb := k, shell_buffer := bf, shell_buffer_pos := p\<rparr>" using co unfolding console_only_def by blast
    then show ?thesis by (simp add: machine_part_def)
  qed
  show "machine_part (vga_putchar c s) = machine_part s" by (rule c[OF console_only_putchar])
  show "machine_part (shell_add_to_history cmd s) = machine_part s"
    by (simp add: machine_part_def shell_add_to_history_def Let_def)
  show "machine_part (start_line s) = machine_part s" by (simp add: machine_part_def start_line_def)
qed

lemma shell_add_to_history_frame [simp]:
  "shell_buffer (shell_add_to_history cmd s) = shell_buffer s"
  "hw_trace (shell_add_to_history cmd s) = hw_trace s"
  "shell_kb (shell_add_to_history cmd s) = shell_kb s"
  "screen_shows (shell_add_to_history cmd s) t = screen_shows s t"
  by (simp_all add: shell_add_to_history_def Let_def screen_shows_def)

lemma history_holds_same:
  "shell_history t = shell_history s \<Longrightarrow> shell_history_count t = shell_history_count s \<Longrightarrow>
   history_holds t log = history_holds s log"
  by (simp add: history_holds_def)

text \<open>What \<^verbatim>\<open>shell_readline\<close> does on Enter.\<close>

definition finish_line :: "'a shell_state_scheme \<Rightarrow> u8 list \<times> 'a shell_state_scheme" where
  "finish_line s =
     (let s = vga_putchar 10 s;
          s = s\<lparr>shell_buffer := (shell_buffer s)[nat (shell_buffer_pos s) := 0]\<rparr>;
          s = shell_add_to_history (c_string (shell_buffer s)) s
      in (c_string (shell_buffer s), s))"

lemma shell_readline_loop:
  "shell_readline dev s = map_option finish_line (read_until (shell_getchar dev) shell_key (start_line s))"
  by (simp add: shell_readline_def finish_line_def start_line_def Let_def split: option.split)

lemma shell_readline_spec:
  assumes typed: "shell_typed dev s (cs @ 10 # rest)" and nl: "10 \<notin> set cs" and buf: "length (shell_buffer s) = 256"
  obtains u where "edits (start_line s) t u (fold (edit_fits (col t)) cs ([], screen_shows s t \<and> blank_row (vga_color s) t))"
    and "shell_typed dev u rest"
    and "shell_readline dev s = Some (edit_line cs, shell_add_to_history (edit_line cs) (vga_putchar 10 u))"
proof -
  let ?s = "start_line s"
  have ty: "shell_typed dev ?s (cs @ 10 # rest)" using typed by (simp add: start_line_def)
  note ed = start_line_edits[OF buf, of t]
  obtain u where u: "read_until (shell_getchar dev) shell_key ?s = Some u" "shell_typed dev u rest"
    "edits ?s t u (fold (edit_fits (col t)) cs ([], screen_shows s t \<and> blank_row (vga_color s) t))"
    using shell_editor.read_until_line[OF ty nl ed] by blast
  have "fst (fold (edit_fits (col t)) cs ([], b)) = edit_line cs" for b
    by (simp add: fold_edit_fits edit_line_def)
  then have st: "line_state u (edit_line cs)" using u(3) by (metis edits.simps prod.collapse)
  note d = line_stateD[OF st]
  have b: "(shell_buffer u)[nat (shell_buffer_pos u) := 0] = shell_buffer u"
    using d(1,6) by (metis list_update_id nat_int)
  have v: "(vga_putchar 10 u)\<lparr>shell_buffer := shell_buffer u\<rparr> = vga_putchar 10 u"
    using putchar_shell(1)[of 10 u] by simp
  have "shell_readline dev s = Some (edit_line cs, shell_add_to_history (edit_line cs) (vga_putchar 10 u))"
    using u(1) line_state_c_string[OF st] by (simp add: shell_readline_def start_line_def Let_def b v)
  then show thesis using that u by blast
qed

end
