(* ===== verification/ShellSession.thy ===== *)
theory ShellSession
  imports ShellProps
begin

text \<open>
  The shell as its user sees it: what was typed is what is read, shown and remembered, and
  a round of the shell runs the command whose name was typed, with the rest of the line.
\<close>

section \<open>The command table\<close>

abbreviation command_table :: "(u8 list \<times> shell_cmd_fn) list" where
  "command_table \<equiv> map (\<lambda>c. (cmd_name c, cmd_func c)) shell_commands"

lemma command_names:
  "distinct (map cmd_name shell_commands)" "\<forall>c \<in> set shell_commands. 0 \<notin> set (cmd_name c)"
  by code_simp+

lemma command_funcs: "\<exists>c \<in> set shell_commands. cmd_func c = f"
proof -
  have "map cmd_func shell_commands = [CMD_HELP, CMD_CLEAR, CMD_INFO, CMD_ECHO, CMD_COLOR, CMD_MEM, CMD_MMAP, CMD_MEMINFO,
      CMD_MEMTEST, CMD_TIME, CMD_UPTIME, CMD_TASKS, CMD_REBOOT, CMD_SHUTDOWN, CMD_HALT, CMD_NETCONF, CMD_FAULT,
      CMD_VMTEST, CMD_USERTEST]" by code_simp
  then have "f \<in> set (map cmd_func shell_commands)" by (cases f) simp_all
  then show ?thesis by auto
qed

lemma find_map_of: "map_option g (find (\<lambda>c. f c = n) xs) = map_of (map (\<lambda>c. (f c, g c)) xs) n"
  by (induction xs) auto

lemma find_cong_set: "(\<And>x. x \<in> set xs \<Longrightarrow> P x = Q x) \<Longrightarrow> find P xs = find Q xs"
  by (induction xs) auto

text \<open>What the screen gets when no command has the name.\<close>

definition unknown_command :: "u8 list \<Rightarrow> 'a vga_state_scheme \<Rightarrow> 'a vga_state_scheme" where
  "unknown_command name s =
     line (''Type '' @ [CHR 0x27] @ ''help'' @ [CHR 0x27] @ '' for available commands.'')
       (newline (vga_print name (colored ''Unknown command: '' VGA_LIGHT_RED s)))"

definition run_name :: "device \<Rightarrow> u64 \<Rightarrow> u8 list \<Rightarrow> u8 list \<Rightarrow> 'a sys_state_scheme \<Rightarrow>
    'a sys_state_scheme cmd_result option" where
  "run_name dev kst name args s =
     (case map_of command_table name of
        Some f \<Rightarrow> run_command dev kst f args s
      | None \<Rightarrow> Some (CmdReturn (unknown_command name s)))"

text \<open>A line of blanks, a name, blanks, arguments.\<close>

definition command_line :: "nat \<Rightarrow> u8 list \<Rightarrow> nat \<Rightarrow> u8 list \<Rightarrow> u8 list" where
  "command_line a name b args = replicate a 32 @ name @ replicate b 32 @ args"

definition well_split :: "u8 list \<Rightarrow> nat \<Rightarrow> u8 list \<Rightarrow> bool" where
  "well_split name b args \<longleftrightarrow> name \<noteq> [] \<and> 0 \<notin> set name \<and> 32 \<notin> set name \<and>
     (args = [] \<or> 0 < b \<and> hd args \<noteq> 32)"

lemma drop_blanks: "xs = [] \<or> hd xs \<noteq> 32 \<Longrightarrow> dropWhile (\<lambda>c. c = 32) (replicate n 32 @ xs) = (xs :: u8 list)"
  by (induction n) (cases xs; simp)+

lemma shell_execute_line:
  assumes "well_split name b args"
  shows "shell_execute dev kst (command_line a name b args) s = run_name dev kst name args s"
proof -
  have name: "name \<noteq> []" "0 \<notin> set name" "32 \<notin> set name" and ba: "args = [] \<or> 0 < b \<and> hd args \<noteq> 32"
    using assms by (simp_all add: well_split_def)
  let ?rest = "replicate b 32 @ args"
  let ?cmd = "name @ ?rest"
  have cmd: "dropWhile (\<lambda>c. c = 32) (command_line a name b args) = ?cmd"
    unfolding command_line_def using name by (intro drop_blanks) (cases name; auto)
  have "dropWhile (\<lambda>c. c \<noteq> 32) ?rest = ?rest" using ba by (cases b) auto
  then have args1: "dropWhile (\<lambda>c. c \<noteq> 32) ?cmd = ?rest" using name(3) by (subst dropWhile_append2) auto
  have args2: "dropWhile (\<lambda>c. c = 32) ?rest = args" using ba by (intro drop_blanks) blast
  have len: "length ?cmd - length ?rest = length name" by simp
  have "(strncmp_list ?cmd (cmd_name c) (length name) = 0 \<and> length (cmd_name c) = length name) = (cmd_name c = name)"
    if "c \<in> set shell_commands" for c
    using strcmp_list_order[OF name(2), of "cmd_name c"] command_names(2) that by (auto simp: strncmp_list_def)
  then have f: "find (\<lambda>c. strncmp_list ?cmd (cmd_name c) (length name) = 0 \<and> length (cmd_name c) = length name)
      shell_commands = find (\<lambda>c. cmd_name c = name) shell_commands" by (rule find_cong_set)
  have p: "vga_print name u = fold vga_putchar name u" for u :: "'b vga_state_scheme"
    using name(2) by (simp add: vga_print_fold takeWhile_no_nul)
  have m: "map_of command_table name = map_option cmd_func (find (\<lambda>c. cmd_name c = name) shell_commands)"
    by (simp add: find_map_of)
  show ?thesis
    unfolding shell_execute_def cmd Let_def args1 len f args2 run_name_def m unknown_command_def p
    using name(1) by (simp split: option.split)
qed

lemma shell_execute_blank: "shell_execute dev kst (replicate a 32) s = Some (CmdReturn s)"
  using drop_blanks[of "[]" a] by (simp add: shell_execute_def)

section \<open>The prompt\<close>

lemma vga_only_shell:
  fixes s t :: "'a shell_state_scheme"
  assumes "vga_only s t" and "vga_color t = vga_color s"
  shows "console_only s t" "shell_buffer t = shell_buffer s" "history_holds t log = history_holds s log"
    "shell_typed dev s cs \<Longrightarrow> shell_typed dev t cs"
proof -
  obtain b x y c es where es: "list_all vga_event es" and t: "t = s\<lparr>hw_trace := hw_trace s @ es, vga_buffer := b,
      vga_cursor_x := x, vga_cursor_y := y, vga_color := c\<rparr>" using assms(1) by (rule vga_onlyE)
  have "c = vga_color s" using assms(2) unfolding t by simp
  then have t: "t = s\<lparr>hw_trace := hw_trace s @ es, vga_buffer := b, vga_cursor_x := x, vga_cursor_y := y\<rparr>"
    unfolding t by simp
  show "console_only s t" by (simp add: t console_only_def)
  show "shell_buffer t = shell_buffer s" "history_holds t log = history_holds s log"
    by (simp_all add: t history_holds_def)
  show "shell_typed dev s cs \<Longrightarrow> shell_typed dev t cs"
    using es by (rule_tac shell_typed_same[of dev s cs]) (auto simp: t)
qed

lemma vga_print_colored_color [simp]: "vga_color (vga_print_colored cs fg bg s) = vga_color s"
  by (simp add: vga_print_colored_def Let_def)

lemma prompt_only: "vga_only s (shell_print_prompt s)" "vga_color (shell_print_prompt s) = vga_color s"
  unfolding shell_print_prompt_def Let_def
  by (blast intro: vga_only_trans vga_only_print_colored) simp

text \<open>What it adds to the row: eleven characters in three colours on black.\<close>

definition prompt_line :: "transcript \<Rightarrow> transcript" where
  "prompt_line t =
     show_line (vga_make_color VGA_WHITE VGA_BLACK)
      (show_line (vga_make_color VGA_LIGHT_CYAN VGA_BLACK)
        (show_line (vga_make_color VGA_WHITE VGA_BLACK)
          (show_line (vga_make_color VGA_LIGHT_GREEN VGA_BLACK) t (cstr ''kiba'')) (cstr ''@'')) (cstr ''KiOS'')) (cstr ''> '')"

lemma show_line_size:
  assumes "(row t + 1) * 80 \<le> length (cells t)" and "col t + length l < 80"
  shows "length (cells (show_line color t l)) = length (cells t)" "row (show_line color t l) = row t"
    "col (show_line color t l) = col t + length l"
  using assms by (simp_all add: show_line_def Let_def)

lemma show_line_blank_row:
  assumes "blank_row color t" and "col t + length l < 80"
  shows "blank_row color (show_line c t l)"
proof -
  let ?p = "row t * 80 + col t"
  have len: "(row t + 1) * 80 \<le> length (cells t)" using assms(1) by (simp add: blank_row_def)
  note z = show_line_size[OF len assms(2), of c]
  have "cells (show_line c t l) ! (row t * 80 + i) = cells t ! (row t * 80 + i)" if "i < 80" "col t + length l \<le> i" for i
  proof -
    have m: "min (length (cells t)) ?p = ?p" using len assms(2) by simp
    have "\<not> i - col t < length l" using that(2) by linarith
    then show ?thesis using that len by (simp add: show_line_def Let_def nth_append m)
  qed
  then show ?thesis using assms(1) z by (simp add: blank_row_def)
qed

lemma print_colored_line:
  assumes "screen_shows s t" and "\<forall>c \<in> set cs. 32 \<le> c \<and> c < 128" and "col t + length cs < 80"
  shows "screen_shows (vga_print_colored cs fg bg s) (show_line (vga_make_color fg bg) t cs)"
proof -
  let ?s = "s\<lparr>vga_color := vga_make_color fg bg\<rparr>"
  have len: "(row t + 1) * 80 \<le> length (cells t)" using assms(1) by (auto simp: screen_shows_def)
  have nz: "takeWhile (\<lambda>c. c \<noteq> 0) cs = cs" using assms(2) by (auto simp: takeWhile_eq_all_conv)
  have "screen_shows ?s t" using assms(1) by (simp add: screen_shows_def)
  from fold_putchar_transcript[OF this, of cs]
  have "screen_shows (vga_print cs ?s) (show_line (vga_make_color fg bg) t cs)"
    by (simp add: vga_print_fold nz show_line_fold[OF len assms(2,3)])
  then show ?thesis by (simp add: vga_print_colored_def Let_def screen_shows_def)
qed

lemma prompt_shows:
  assumes "screen_shows s t" and "blank_row (vga_color s) t" and "col t = 0"
  shows "screen_shows (shell_print_prompt s) (prompt_line t)" "blank_row (vga_color s) (prompt_line t)"
    "col (prompt_line t) = 11" "row (prompt_line t) = row t"
proof -
  have len: "(row t + 1) * 80 \<le> length (cells t)" using assms(2) by (simp add: blank_row_def)
  have cs: "\<forall>c \<in> set (cstr ''kiba''). 32 \<le> c \<and> c < 128" "\<forall>c \<in> set (cstr ''@''). 32 \<le> c \<and> c < 128"
    "\<forall>c \<in> set (cstr ''KiOS''). 32 \<le> c \<and> c < 128" "\<forall>c \<in> set (cstr ''> ''). 32 \<le> c \<and> c < 128"
    by (simp_all add: cstr_def)
  have n: "length (cstr ''kiba'') = 4" "length (cstr ''@'') = 1" "length (cstr ''KiOS'') = 4" "length (cstr ''> '') = 2"
    by (simp_all add: cstr_def)
  show "col (prompt_line t) = 11" "row (prompt_line t) = row t"
    using len assms(3) by (simp_all add: prompt_line_def show_line_size n)
  show "blank_row (vga_color s) (prompt_line t)"
    using len assms(2,3) by (simp add: prompt_line_def show_line_blank_row show_line_size n)
  show "screen_shows (shell_print_prompt s) (prompt_line t)"
    unfolding shell_print_prompt_def prompt_line_def Let_def
    using len assms(3) by (intro print_colored_line assms(1) cs) (simp_all add: show_line_size n)
qed

section \<open>Reading, remembering, running\<close>

lemma edit_line_text:
  assumes "\<forall>c \<in> set cs. 32 \<le> c \<and> c < 128" and "length cs \<le> 255"
  shows "edit_line cs = cs"
  using assms
proof (induction cs rule: rev_induct)
  case Nil
  then show ?case by (simp add: edit_line_def)
next
  case (snoc c cs)
  then have "c \<noteq> 8" "c \<noteq> 27" by auto
  then show ?case using snoc by (simp add: edit_line_def edit_key_def)
qed

lemma shell_readline_total:
  assumes typed: "shell_typed dev s (cs @ 10 # rest)" and nl: "10 \<notin> set cs" and buf: "length (shell_buffer s) = 256"
  obtains t where "shell_readline dev s = Some (edit_line cs, t)" and "length (edit_line cs) \<le> 255"
    and "0 \<notin> set (edit_line cs)" and "c_string (shell_buffer t) = edit_line cs" and "length (shell_buffer t) = 256"
    and "shell_typed dev t rest" and "machine_part t = machine_part s"
    and "\<And>log. history_holds s log \<Longrightarrow> history_holds t (hist_add (edit_line cs) log)"
proof -
  fix tr
  obtain u where u: "edits (start_line s) tr u (fold (edit_fits (col tr)) cs ([], screen_shows s tr \<and> blank_row (vga_color s) tr))"
    "shell_typed dev u rest"
    "shell_readline dev s = Some (edit_line cs, shell_add_to_history (edit_line cs) (vga_putchar 10 u))"
    using shell_readline_spec[OF assms] .
  have "fst (fold (edit_fits (col tr)) cs ([], b)) = edit_line cs" for b
    by (simp add: fold_edit_fits edit_line_def)
  then have st: "line_state u (edit_line cs)" and co: "console_only (start_line s) u"
    using u(1) by (metis edits.simps prod.collapse)+
  let ?t = "shell_add_to_history (edit_line cs) (vga_putchar 10 u)"
  have h: "history_holds ?t (hist_add (edit_line cs) log)" if "history_holds s log" for log
  proof -
    obtain a b x y k bf p where "u = (start_line s)\<lparr>hw_trace := a, vga_buffer := b, vga_cursor_x := x, vga_cursor_y := y,
        shell_kb := k, shell_buffer := bf, shell_buffer_pos := p\<rparr>" using co unfolding console_only_def by blast
    then have "history_holds (vga_putchar 10 u) log" using that by (simp add: history_holds_def start_line_def)
    then show ?thesis using line_stateD[OF st] by (intro shell_add_to_history_holds) simp_all
  qed
  have "shell_typed dev ?t rest"
    using shell_typed_putchar[OF u(2), of 10] by (simp add: shell_typed_def)
  moreover have "machine_part ?t = machine_part s" by (simp add: machine_part_steps(2-4) machine_part_steps(1)[OF co])
  ultimately show thesis
    using that[OF u(3)] h line_stateD[OF st] line_state_c_string[OF st] by simp
qed

lemma fold_edit_fits_all:
  "snd (fold (edit_fits n) cs (l, True)) \<longleftrightarrow> (\<forall>k < length cs. n + length (fold edit_key (take (Suc k) cs) l) < 80)"
proof (induction cs rule: rev_induct)
  case Nil
  then show ?case by simp
next
  case (snoc c cs)
  obtain l' fits where f: "fold (edit_fits n) cs (l, True) = (l', fits)" by force
  then have "l' = fold edit_key cs l" using fold_edit_fits[of n cs l True] by simp
  then show ?case using snoc f by (auto simp: less_Suc_eq)
qed

section \<open>A concrete keyboard\<close>

definition ready_keyboard :: "u8 list \<Rightarrow> device" where
  "ready_keyboard scs es port = (if port = KB_STATUS_PORT then 1 else ucast (scs ! data_reads es))"

lemma ready_keyboard_delivers: "kb_delivers (ready_keyboard scs) 0 0 scs"
  by (simp add: kb_delivers_def ready_keyboard_def)

definition example_shell :: "vga_color_t \<Rightarrow> shell_state" where
  "example_shell bg = vga_clear (vga_set_color VGA_WHITE bg ((sys_state.extend example_sys
     (shell_state.fields (replicate 10 (replicate 256 0)) 0 0 (replicate 256 0) 0 kb_mods_initial))
       \<lparr>vga_buffer := replicate 2000 0, hw_trace := []\<rparr>))"

lemma example_shell_typed:
  assumes "set cs \<subseteq> set typeable"
  shows "shell_typed (ready_keyboard (concat (map keys_for cs))) (example_shell bg) cs"
    and "length (shell_buffer (example_shell bg)) = 256" and "history_holds (example_shell bg) []"
proof -
  let ?s0 = "(sys_state.extend example_sys
     (shell_state.fields (replicate 10 (replicate 256 0)) 0 0 (replicate 256 0) 0 kb_mods_initial))
       \<lparr>vga_buffer := replicate 2000 0, hw_trace := []\<rparr>"
  have v: "vga_only ?s0 (example_shell bg)"
    unfolding example_shell_def by (rule vga_only_trans[OF vga_only_set_color vga_only_clear])
  obtain b x y c es where es: "list_all vga_event es" and t: "example_shell bg = ?s0\<lparr>hw_trace := hw_trace ?s0 @ es,
      vga_buffer := b, vga_cursor_x := x, vga_cursor_y := y, vga_color := c\<rparr>" using v by (rule vga_onlyE)
  have f: "shell_buffer (sys_state.extend u (shell_state.fields h n i b p k)) = b"
    "shell_history (sys_state.extend u (shell_state.fields h n i b p k)) = h"
    "shell_history_count (sys_state.extend u (shell_state.fields h n i b p k)) = n"
    "shell_kb (sys_state.extend u (shell_state.fields h n i b p k)) = k" for u h n i b p k
    by (simp_all add: shell_state.defs sys_state.defs)
  show "length (shell_buffer (example_shell bg)) = 256" "history_holds (example_shell bg) []"
    unfolding t by (simp_all add: history_holds_def f)
  have "data_reads (hw_trace (example_shell bg)) = 0" using reads_vga[OF es, of "[]"] by (simp add: t)
  moreover have "shell_kb (example_shell bg) = kb_mods_initial" by (simp add: t f)
  ultimately show "shell_typed (ready_keyboard (concat (map keys_for cs))) (example_shell bg) cs"
    using kb_feed_keys[OF assms] ready_keyboard_delivers unfolding shell_typed_def
    by (intro exI[of _ 0] exI[of _ "concat (map keys_for cs)"] conjI) (auto simp: kb_chars_def)
qed

section \<open>Properties\<close>

text \<open>
  C36: the line editor terminates and is right. Whatever the timing of the keyboard, if Enter
  is among the characters that arrive, \<^verbatim>\<open>shell_readline\<close> returns; the result is the line the
  editing keys produce (backspace deletes, Escape clears, other control characters are
  ignored, at most 255 characters), a NUL-terminated string inside the 256 bytes of the
  buffer. The history has it too, unless it is empty or repeats the last line: its ring holds
  the last ten lines. What was typed behind Enter is still to be read, and the rest of the
  machine is unchanged.
\<close>

theorem shell_readline_correct:
  assumes "shell_typed dev s (cs @ 10 # rest)" and "10 \<notin> set cs" and "length (shell_buffer s) = 256"
    and "history_holds s log"
  shows "\<exists>t. shell_readline dev s = Some (edit_line cs, t) \<and> length (edit_line cs) \<le> 255 \<and>
    c_string (shell_buffer t) = edit_line cs \<and> length (shell_buffer t) = 256 \<and>
    history_holds t (hist_add (edit_line cs) log) \<and> shell_typed dev t rest \<and> machine_part t = machine_part s"
  using shell_readline_total[OF assms(1-3)] assms(4) by metis

lemma shell_readline_correct_witness:
  "\<exists>t. shell_readline (ready_keyboard (concat (map keys_for (cstr ''memx'' @ [8, 10])))) (example_shell VGA_BLACK)
       = Some (cstr ''mem'', t) \<and> history_holds t [cstr ''mem'']"
proof -
  have "set ((cstr ''memx'' @ [8]) @ 10 # []) \<subseteq> set typeable" by code_simp
  note t = example_shell_typed[OF this, where bg = VGA_BLACK]
  have "edit_line (cstr ''memx'' @ [8]) = cstr ''mem''" "hist_add (cstr ''mem'') [] = [cstr ''mem'']"
    "10 \<notin> set (cstr ''memx'' @ [8])" by code_simp+
  then show ?thesis using shell_readline_correct[OF t(1) _ t(2,3)] by fastforce
qed

text \<open>
  C37: what the user sees while typing. The prompt is printed on a blank row, and as long as
  the edited line fits behind it, the screen shows, whenever the shell waits for the next key,
  that row with the prompt, behind it the line as edited so far, and blanks behind the line;
  after Enter the row is still there and the cursor is on a new row below it.
\<close>

theorem shell_echo:
  assumes "shell_typed dev s (cs @ 10 # rest)" and "10 \<notin> set cs" and "length (shell_buffer s) = 256"
    and "screen_shows s t" and "col t = 0" and "blank_row (vga_color s) t"
    and "\<forall>k \<le> length cs. 11 + length (edit_line (take k cs)) < 80"
  shows "let p = shell_print_prompt s; row_with = show_line (vga_color s) (prompt_line t) in
    (\<forall>k \<le> length cs. \<exists>u t'. after_keys (shell_getchar dev) shell_key k (start_line p) = Some u \<and>
       shell_readline dev p = map_option finish_line (read_until (shell_getchar dev) shell_key u) \<and>
       screen_shows u t' \<and> same_look t' (row_with (edit_line (take k cs)))) \<and>
    (\<exists>u t'. shell_readline dev p = Some (edit_line cs, u) \<and> screen_shows u t' \<and>
       same_look t' (tr_newline (vga_color s) (row_with (edit_line cs))))"
proof -
  let ?p = "shell_print_prompt s" and ?t = "prompt_line t" and ?color = "vga_color s"
  note pr = prompt_shows[OF assms(4,6,5)]
  note po = vga_only_shell[OF prompt_only[of s]]
  have ty: "shell_typed dev ?p (cs @ 10 # rest)" by (rule po(4)[OF assms(1)])
  have buf: "length (shell_buffer ?p) = 256" using po(2) assms(3) by simp
  have c: "vga_color ?p = ?color" "vga_color (start_line ?p) = ?color"
    using prompt_only(2)[of s] by (simp_all add: start_line_def)
  have st: "edits (start_line ?p) ?t (start_line ?p) ([], True)"
    using start_line_edits[OF buf, of ?t] pr(1,2) by (simp add: c)
  have fits: "fold (edit_fits (col ?t)) (take k cs) ([], True) = (edit_line (take k cs), True)" if "k \<le> length cs" for k
  proof -
    have "snd (fold (edit_fits (col ?t)) (take k cs) ([], True))"
      unfolding fold_edit_fits_all using assms(7) that by (simp add: pr(3) edit_line_def Suc_le_eq min_def)
    moreover have "fst (fold (edit_fits (col ?t)) (take k cs) ([], True)) = edit_line (take k cs)"
      by (simp add: fold_edit_fits edit_line_def)
    ultimately show ?thesis by (metis prod.collapse)
  qed
  have ty': "shell_typed dev (start_line ?p) (cs @ 10 # rest)" using ty by (simp add: start_line_def)
  have shown: "\<exists>u t'. after_keys (shell_getchar dev) shell_key k (start_line ?p) = Some u \<and>
       shell_readline dev ?p = map_option finish_line (read_until (shell_getchar dev) shell_key u) \<and>
       screen_shows u t' \<and> same_look t' (show_line ?color ?t (edit_line (take k cs)))" if k: "k \<le> length cs" for k
  proof -
    obtain u where u: "after_keys (shell_getchar dev) shell_key k (start_line ?p) = Some u"
      "edits (start_line ?p) ?t u (edit_line (take k cs), True)"
      using shell_editor.after_keys_line[OF ty' assms(2) st k] unfolding fits[OF k] by blast
    then show ?thesis using read_until_after[OF u(1)] by (auto simp: shell_readline_loop c)
  qed
  obtain u where "edits (start_line ?p) ?t u
      (fold (edit_fits (col ?t)) cs ([], screen_shows ?p ?t \<and> blank_row (vga_color ?p) ?t))"
    and u2: "shell_readline dev ?p = Some (edit_line cs, shell_add_to_history (edit_line cs) (vga_putchar 10 u))"
    using shell_readline_spec[OF ty assms(2) buf] by metis
  then have u: "edits (start_line ?p) ?t u (edit_line cs, True)"
    using pr(1,2) fits[of "length cs"] by (simp only: c take_all order_refl simp_thms)
  obtain t1 where t1: "screen_shows u t1" "same_look t1 (show_line ?color ?t (edit_line cs))"
    using u by (auto simp: c)
  have "vga_color u = ?color" using u console_only_color[of "start_line ?p" u] by (simp add: c)
  then have "screen_shows (vga_putchar 10 u) (tr_put ?color 10 t1)"
    using vga_putchar_transcript[OF t1(1), of 10] by simp
  moreover have "tr_put ?color 10 x = tr_newline ?color x" for x by (simp add: tr_put_def)
  ultimately have "\<exists>u t'. shell_readline dev ?p = Some (edit_line cs, u) \<and> screen_shows u t' \<and>
      same_look t' (tr_newline ?color (show_line ?color ?t (edit_line cs)))"
    using u2 same_look_put[OF t1(2), of ?color 10] by auto
  then show ?thesis using shown unfolding Let_def by blast
qed

lemma example_shell_screen:
  "screen_shows (example_shell VGA_BLACK) \<lparr>cells = replicate 2000 32, col = 0, row = 0\<rparr>"
  "vga_color (example_shell VGA_BLACK) = 15"
proof -
  have "vga_make_color VGA_WHITE VGA_BLACK = 15" by code_simp
  then show "screen_shows (example_shell VGA_BLACK) \<lparr>cells = replicate 2000 32, col = 0, row = 0\<rparr>"
    "vga_color (example_shell VGA_BLACK) = 15"
    unfolding example_shell_def
    by (simp_all add: vga_clear_eq vga_set_color_def screen_shows_update_cursor) (simp add: screen_shows_def)
qed

lemma shell_echo_witness:
  "\<exists>u t'. after_keys (shell_getchar (ready_keyboard (concat (map keys_for (cstr ''memx'' @ [8, 10]))))) shell_key 4
       (start_line (shell_print_prompt (example_shell VGA_BLACK))) = Some u \<and> screen_shows u t' \<and>
     map (fst \<circ> look) (take 17 (cells t')) = cstr ''kiba@KiOS> memx  ''"
proof -
  let ?t = "\<lparr>cells = replicate 2000 32, col = 0, row = 0\<rparr>"
  let ?cs = "cstr ''memx'' @ [8]"
  have "set (?cs @ 10 # []) \<subseteq> set typeable" by code_simp
  note t = example_shell_typed[OF this, where bg = VGA_BLACK]
  have "look 32 = look (vga_make_entry 32 15)" by code_simp
  then have br: "blank_row (vga_color (example_shell VGA_BLACK)) ?t"
    by (simp add: blank_row_def example_shell_screen(2))
  have e: "10 \<notin> set ?cs" "list_all (\<lambda>k. 11 + length (edit_line (take k ?cs)) < 80) [0..<6]"
    "edit_line (take 4 ?cs) = cstr ''memx''" "length ?cs = 5" by code_simp+
  have f: "\<forall>k \<le> length ?cs. 11 + length (edit_line (take k ?cs)) < 80"
    using e(2) unfolding e(4) by (simp add: list_all_iff)
  have "(4 :: nat) \<le> length ?cs" unfolding e(4) by simp
  then obtain u t' where u: "after_keys (shell_getchar (ready_keyboard (concat (map keys_for (?cs @ 10 # []))))) shell_key 4
      (start_line (shell_print_prompt (example_shell VGA_BLACK))) = Some u" "screen_shows u t'"
      "same_look t' (show_line 15 (prompt_line ?t) (cstr ''memx''))"
    using shell_echo[OF t(1) e(1) t(2) example_shell_screen(1) _ br f] unfolding example_shell_screen(2) Let_def
    by (metis e(3) transcript.select_convs(2))
  have "map (fst \<circ> look) (take 17 (cells t')) = take 17 (map fst (map look (cells (show_line 15 (prompt_line ?t) (cstr ''memx'')))))"
    using u(3) unfolding same_look_def by (simp flip: take_map map_map)
  also have "\<dots> = cstr ''kiba@KiOS> memx  ''" by code_simp
  finally show ?thesis using u(1,2) by auto
qed

text \<open>
  C38: a round of the shell runs the right command. Whatever blanks are around it, the first
  word of the typed line is looked up as a whole word (no prefix of a name matches); its
  command gets the rest of the line, in a state that differs from the one before the prompt
  only in the screen and the variables of the shell, with the line in the history and the
  rest of the input unread. A word that is no name is reported, a blank line does nothing.
  The table has each of the nineteen commands under one name.
\<close>

theorem shell_round_correct:
  assumes "shell_typed dev s (cs @ 10 # rest)" and "10 \<notin> set cs" and "length (shell_buffer s) = 256"
    and "history_holds s log"
  shows "(\<exists>t. (\<forall>a name b args. edit_line cs = command_line a name b args \<longrightarrow> well_split name b args \<longrightarrow>
        shell_round dev kst s = run_name dev kst name args t) \<and>
      (\<forall>a. edit_line cs = replicate a 32 \<longrightarrow> shell_round dev kst s = Some (CmdReturn t)) \<and>
      machine_part t = machine_part s \<and> shell_typed dev t rest \<and>
      history_holds t (hist_add (edit_line cs) log)) \<and>
    distinct (map fst command_table) \<and> (\<forall>f. \<exists>n. map_of command_table n = Some f)"
proof -
  let ?p = "shell_print_prompt s"
  note p = vga_only_shell[OF prompt_only[of s]]
  have ty: "shell_typed dev ?p (cs @ 10 # rest)" by (rule p(4)[OF assms(1)])
  have buf: "length (shell_buffer ?p) = 256" and h: "history_holds ?p log" using p assms(3,4) by simp_all
  obtain t where t: "shell_readline dev ?p = Some (edit_line cs, t)" "shell_typed dev t rest"
    "machine_part t = machine_part ?p" "history_holds t (hist_add (edit_line cs) log)"
    using shell_readline_total[OF ty assms(2) buf] h by metis
  have r: "shell_round dev kst s = shell_execute dev kst (edit_line cs) t" by (simp add: shell_round_def t(1))
  have "map_of command_table (cmd_name c) = Some (cmd_func c)" if "c \<in> set shell_commands" for c
    using command_names(1) that by (intro map_of_is_SomeI) (auto simp: comp_def)
  then have "\<forall>f. \<exists>n. map_of command_table n = Some f" using command_funcs by metis
  moreover have "distinct (map fst command_table)" using command_names(1) by (simp add: comp_def)
  moreover have "machine_part t = machine_part s" using t(3) machine_part_steps(1)[OF p(1)] by simp
  moreover have "shell_round dev kst s = run_name dev kst name args t"
    if "edit_line cs = command_line a name b args" "well_split name b args" for a name b args
    unfolding r that(1) by (rule shell_execute_line[OF that(2)])
  moreover have "shell_round dev kst s = Some (CmdReturn t)" if "edit_line cs = replicate a 32" for a
    unfolding r that by (rule shell_execute_blank)
  ultimately show ?thesis using t(2,4) by blast
qed

lemma shell_round_correct_witness:
  "\<exists>t. shell_round (ready_keyboard (concat (map keys_for (cstr ''  echo  hi'' @ [10])))) 0 (example_shell VGA_BLACK)
       = Some (CmdReturn (cmd_echo (cstr ''hi'') t)) \<and> history_holds t [cstr ''  echo  hi'']"
proof -
  let ?cs = "cstr ''  echo  hi''"
  have "set (?cs @ 10 # []) \<subseteq> set typeable" by code_simp
  note t = example_shell_typed[OF this, where bg = VGA_BLACK]
  have e: "10 \<notin> set ?cs" "edit_line ?cs = command_line 2 (cstr ''echo'') 2 (cstr ''hi'')" "edit_line ?cs = ?cs"
    "hist_add ?cs [] = [?cs]" by code_simp+
  have w: "well_split (cstr ''echo'') 2 (cstr ''hi'')" "map_of command_table (cstr ''echo'') = Some CMD_ECHO" by code_simp+
  obtain u where u: "\<forall>a name b args. edit_line ?cs = command_line a name b args \<longrightarrow> well_split name b args \<longrightarrow>
      shell_round (ready_keyboard (concat (map keys_for (?cs @ 10 # [])))) 0 (example_shell VGA_BLACK) =
        run_name (ready_keyboard (concat (map keys_for (?cs @ 10 # [])))) 0 name args u"
    "history_holds u (hist_add (edit_line ?cs) [])"
    using shell_round_correct[OF t(1) e(1) t(2,3), of 0] by blast
  have "shell_round (ready_keyboard (concat (map keys_for (?cs @ 10 # [])))) 0 (example_shell VGA_BLACK)
      = run_name (ready_keyboard (concat (map keys_for (?cs @ 10 # [])))) 0 (cstr ''echo'') (cstr ''hi'') u"
    using u(1) e(2) w(1) by blast
  then show ?thesis using u(2) unfolding e(3,4) run_name_def w(2) by auto
qed

text \<open>
  A line that wraps cannot be edited on the screen: with the cursor in column 0, backspace
  removes a character from the buffer and leaves the screen as it is.
\<close>

lemma shell_backspace_wrapped:
  assumes "line_state s (l @ [c])" and "screen_shows s t" and "col t = 0"
  shows "screen_shows (shell_key 8 s) t \<and> c_string (shell_buffer (shell_key 8 s)) = l"
proof -
  have e: "edits s t s (l @ [c], False)" using assms(1) by (simp add: console_only_refl)
  have "line_state (shell_key 8 s) l" using shell_key_edits[OF e, of 8] by (simp add: edit_key_def)
  moreover have "shell_buffer_pos s > 0" using line_stateD(1)[OF assms(1)] by simp
  then have "screen_shows (shell_key 8 s) (tr_put (vga_color s) 8 t)"
    using vga_putchar_transcript[of "s\<lparr>shell_buffer_pos := p, shell_buffer := b\<rparr>" t 8 for p b] assms(2)
    by (simp add: shell_key_def Let_def)
  ultimately show ?thesis using assms(3) line_state_c_string by (auto simp: tr_put_def)
qed

end
