(* ===== verification/ShellIrq.thy ===== *)
theory ShellIrq
  imports ShellSession
begin

text \<open>
  The polled and the interrupt-driven keyboard together. \<^verbatim>\<open>kernel_main\<close> unmasks the keyboard's
  interrupt, whose handler fetches the byte from the controller; the shell polls the same
  controller.
\<close>

section \<open>A controller that has no more bytes\<close>

definition kb_silent :: "device \<Rightarrow> nat \<Rightarrow> bool" where
  "kb_silent dev n \<longleftrightarrow>
     (\<forall>es. data_reads es = n \<longrightarrow> ucast (dev es KB_STATUS_PORT) AND KB_STATUS_OUTPUT_FULL = (0 :: u8))"

lemma kb_wait_loop_silent:
  "kb_silent dev n \<Longrightarrow> data_reads (hw_trace s) = n \<Longrightarrow> \<not> fst (kb_wait_loop k dev s)"
proof (induction k arbitrary: s)
  case 0
  then show ?case by simp
next
  case (Suc k)
  let ?v = "ucast (dev (hw_trace s) KB_STATUS_PORT) :: u8"
  have v: "?v AND KB_STATUS_OUTPUT_FULL = 0" using Suc.prems by (simp add: kb_silent_def)
  have i: "inb dev KB_STATUS_PORT s = (?v, s\<lparr>hw_trace := hw_trace s @ [InB KB_STATUS_PORT ?v]\<rparr>)"
    by (simp add: inb_def emit_def Let_def)
  show ?case using Suc.IH[of "s\<lparr>hw_trace := hw_trace s @ [InB KB_STATUS_PORT ?v]\<rparr>"] Suc.prems v by (simp add: i)
qed

lemma kb_read_scancode_silent:
  assumes "kb_silent dev n" and "data_reads (hw_trace s) = n"
  obtains t where "kb_read_scancode dev s = (0, t)" and "data_reads (hw_trace t) = n"
proof -
  obtain es r where r: "kb_wait_loop 100000 dev s = (r, s\<lparr>hw_trace := hw_trace s @ es\<rparr>)" "list_all status_read es"
    using kb_wait_loop_spec[of 100000 dev s] by blast
  moreover have "\<not> r" using kb_wait_loop_silent[OF assms, of 100000] r(1) by simp
  ultimately show thesis
    using that[of "s\<lparr>hw_trace := hw_trace s @ es\<rparr>"] reads_polls[OF r(2), of "hw_trace s"] assms(2)
    by (simp add: kb_read_scancode_def kb_wait_output_def)
qed

text \<open>The blocking reader does not return.\<close>

lemma kb_getchar_silent:
  assumes "kb_silent dev n" and "data_reads (hw_trace s) = n"
  shows "kb_getchar dev k s = None"
proof (rule ccontr)
  assume "kb_getchar dev k s \<noteq> None"
  then obtain r where r: "kb_getchar dev k s = Some r" by blast
  have "\<not> (kb_silent dev n \<and> data_reads (hw_trace s) = n)"
  proof (rule kb_getchar.raw_induct[OF _ r, where P = "\<lambda>dev k s r. \<not> (kb_silent dev n \<and> data_reads (hw_trace s) = n)"])
    fix rec dev k s y
    assume IH: "\<And>dev k s y. rec dev k s = Some y \<Longrightarrow> \<not> (kb_silent dev n \<and> data_reads (hw_trace s) = n)"
      and body: "(let (scancode, s) = kb_read_scancode dev s; (c, k) = kb_scancode_to_ascii scancode k
        in if c \<noteq> 0 then Some (c, k, s) else rec dev k s) = Some y"
    show "\<not> (kb_silent dev n \<and> data_reads (hw_trace s) = n)"
    proof
      assume a: "kb_silent dev n \<and> data_reads (hw_trace s) = n"
      then obtain t where "kb_read_scancode dev s = (0, t)" "data_reads (hw_trace t) = n"
        by (auto elim: kb_read_scancode_silent)
      then show False using IH[of dev k t y] body a by (simp add: scancode_0)
    qed
  qed
  then show False using assms by blast
qed

lemma shell_readline_silent:
  assumes "kb_silent dev n" and "data_reads (hw_trace s) = n"
  shows "shell_readline dev s = None"
proof -
  define u where "u = s\<lparr>shell_buffer_pos := 0, shell_buffer := (shell_buffer s)[0 := 0],
    shell_history_index := shell_history_count s\<rparr>"
  have "data_reads (hw_trace u) = n" using assms(2) by (simp add: u_def)
  then have "shell_getchar dev u = None" using kb_getchar_silent[OF assms(1), of u] by (simp add: shell_getchar_def)
  then have "read_until (shell_getchar dev) shell_key u = None" by (subst read_until.simps) simp
  then show ?thesis by (simp add: shell_readline_def Let_def u_def)
qed

section \<open>The keyboard interrupt\<close>

lemma take_keyboard_irq:
  fixes s :: "'a kbd_state_scheme"
  assumes set: "irq_setup s" and inv: "kb_inv s" and f: "unat (r_int_no f) = 33" and room: "length (kb_contents s) < 255"
  shows "irq_setup (take_irq dev regs f s)" "kb_inv (take_irq dev regs f s)"
    "kb_contents (take_irq dev regs f s) = kb_contents s @ [ucast (dev (hw_trace s) KB_DATA_PORT)]"
    "data_reads (hw_trace (take_irq dev regs f s)) = Suc (data_reads (hw_trace s))"
proof -
  define p where "p = s\<lparr>frames := (frames s)(regs := f), new_task_regs := 0\<rparr>"
  have h: "irq_handlers s ! 1 = KEYBOARD_IRQ_HANDLER" using irq_setup_handler[OF set, of 1] by simp
  define u where "u = keyboard_irq_handler dev regs p"
  have t: "take_irq dev regs f s = u\<lparr>hw_trace := hw_trace u @ [OutB PIC1_COMMAND PIC_EOI]\<rparr>"
    using take_irq_eq[of f 1 dev regs s] f h by (simp add: call_handler_def u_def p_def eoi_bytes_def Let_def)
  show "irq_setup (take_irq dev regs f s)" using take_irq_other(2)[OF set, of f 1] f by simp
  have c: "kb_contents (w\<lparr>hw_trace := x\<rparr>) = kb_contents w" "kb_inv (w\<lparr>hw_trace := x\<rparr>) = kb_inv w" for w :: "'a kbd_state_scheme" and x
    by (simp_all add: kb_contents_def kb_inv_def)
  have p: "kb_contents p = kb_contents s" "kb_inv p" "hw_trace p = hw_trace s"
    using inv by (simp_all add: p_def kb_contents_def kb_inv_def)
  show "kb_inv (take_irq dev regs f s)" unfolding t c u_def by (rule kb_inv_ops(1)[OF p(2)])
  show "kb_contents (take_irq dev regs f s) = kb_contents s @ [ucast (dev (hw_trace s) KB_DATA_PORT)]"
    unfolding t c u_def using keyboard_irq_handler_contents[OF p(2), of dev regs] room p
    by (simp add: kb_offer_def flip: length_kb_contents)
  have "hw_trace u = hw_trace s @ [InB KB_DATA_PORT (ucast (dev (hw_trace s) KB_DATA_PORT))]"
    by (simp add: u_def p(3) keyboard_irq_handler_def inb_def emit_def Let_def)
  then show "data_reads (hw_trace (take_irq dev regs f s)) = Suc (data_reads (hw_trace s))"
    by (simp add: t data_reads_def)
qed

lemma keyboard_irqs:
  fixes s :: "'a kbd_state_scheme"
  assumes "irq_setup s" and "kb_inv s" and "unat (r_int_no f) = 33" and "kb_delivers dev wait base scs"
    and "data_reads (hw_trace s) = base + n" and "n + m \<le> length scs" and "length (kb_contents s) + m \<le> 255"
  shows "kb_contents ((take_irq dev regs f ^^ m) s) = kb_contents s @ take m (drop n scs) \<and>
    data_reads (hw_trace ((take_irq dev regs f ^^ m) s)) = base + n + m"
  using assms(1,2,5,6,7)
proof (induction m arbitrary: s n)
  case 0
  then show ?case by simp
next
  case (Suc m)
  have n: "n < length scs" and room: "length (kb_contents s) < 255" using Suc.prems(4,5) by simp_all
  note k = take_keyboard_irq[OF Suc.prems(1,2) assms(3) room, of dev regs]
  have v: "ucast (dev (hw_trace s) KB_DATA_PORT) = scs ! n"
    using assms(4) Suc.prems(3) n unfolding kb_delivers_def by blast
  have ih: "kb_contents ((take_irq dev regs f ^^ m) (take_irq dev regs f s)) =
      kb_contents (take_irq dev regs f s) @ take m (drop (Suc n) scs) \<and>
    data_reads (hw_trace ((take_irq dev regs f ^^ m) (take_irq dev regs f s))) = base + Suc n + m"
    using Suc.prems k by (intro Suc.IH) simp_all
  have "drop n scs = scs ! n # drop (Suc n) scs" using n by (simp add: Cons_nth_drop_Suc)
  then show ?case using ih k(3) v by (simp add: funpow_swap1)
qed

section \<open>Properties\<close>

text \<open>
  C40: the interrupt handler starves the shell. If the keyboard's interrupt is served for every
  byte that arrives, as the kernel's set-up makes the processor do, the bytes end up in the
  ring buffer, in order, and the shell, which polls the controller, waits forever: the
  reading of the line does not return, although Enter was pressed.
\<close>

theorem shell_starved_by_interrupts:
  fixes s :: "'a shell_state_scheme"
  assumes "irq_setup s" and "kb_inv s" and "unat (r_int_no f) = 33"
    and "kb_delivers dev wait base scs" and "kb_silent dev (base + length scs)"
    and "data_reads (hw_trace s) = base" and "length (kb_contents s) + length scs \<le> 255"
  shows "let t = (take_irq dev regs f ^^ length scs) s in
    kb_contents t = kb_contents s @ scs \<and> shell_readline dev t = None \<and> shell_round dev kst t = None"
proof -
  define t where "t = (take_irq dev regs f ^^ length scs) s"
  have t: "kb_contents t = kb_contents s @ scs" "data_reads (hw_trace t) = base + length scs"
    using keyboard_irqs[OF assms(1-4), of 0 "length scs" regs] assms(6,7) by (simp_all add: t_def)
  have "vga_only t (shell_print_prompt t)" by (rule prompt_only)
  then obtain b x y c es where "list_all vga_event es" "shell_print_prompt t = t\<lparr>hw_trace := hw_trace t @ es,
      vga_buffer := b, vga_cursor_x := x, vga_cursor_y := y, vga_color := c\<rparr>" by (rule vga_onlyE)
  then have "data_reads (hw_trace (shell_print_prompt t)) = base + length scs"
    using reads_vga[of es "hw_trace t"] t(2) by simp
  then have "shell_round dev kst t = None"
    unfolding shell_round_def by (simp only: shell_readline_silent[OF assms(5)] option.case)
  then show ?thesis
    unfolding t_def[symmetric] Let_def using t(1) shell_readline_silent[OF assms(5) t(2)] by blast
qed

definition typing_keyboard :: "u8 list \<Rightarrow> device" where
  "typing_keyboard scs es port =
     (if port = KB_STATUS_PORT then (if data_reads es < length scs then 1 else 0)
      else if data_reads es < length scs then ucast (scs ! data_reads es) else 0)"

lemma example_shell_irq:
  "irq_setup (example_shell bg)" "kb_inv (example_shell bg)" "kb_contents (example_shell bg) = []"
  "data_reads (hw_trace (example_shell bg)) = 0"
proof -
  let ?s0 = "(sys_state.extend example_sys
     (shell_state.fields (replicate 10 (replicate 256 0)) 0 0 (replicate 256 0) 0 kb_mods_initial))
       \<lparr>vga_buffer := replicate 2000 0, hw_trace := []\<rparr>"
  have v: "vga_only ?s0 (example_shell bg)"
    unfolding example_shell_def by (rule vga_only_trans[OF vga_only_set_color vga_only_clear])
  obtain b x y c es where es: "list_all vga_event es" and t: "example_shell bg = ?s0\<lparr>hw_trace := hw_trace ?s0 @ es,
      vga_buffer := b, vga_cursor_x := x, vga_cursor_y := y, vga_color := c\<rparr>" using v by (rule vga_onlyE)
  have f: "irq_handlers (sys_state.extend u z) = irq_handlers u" "scheduler_enabled (sys_state.extend u z) = scheduler_enabled u"
    "kb_buffer (sys_state.extend u z) = kb_buffer u" "kb_buffer_read (sys_state.extend u z) = kb_buffer_read u"
    "kb_buffer_write (sys_state.extend u z) = kb_buffer_write u" for u and z :: 'z
    by (simp_all add: sys_state.defs)
  have g: "irq_handlers example_sys = irq_handlers (example_system 0)"
    "scheduler_enabled example_sys = scheduler_enabled (example_system 0)" "kb_buffer example_sys = replicate 256 0"
    "kb_buffer_read example_sys = 0" "kb_buffer_write example_sys = 0"
    by (simp_all add: example_sys_def example_system_def kbd_state.defs desc_state.defs sys_state.defs irq_state.defs)
  show "irq_setup (example_shell bg)" "kb_inv (example_shell bg)" "kb_contents (example_shell bg) = []"
    using example_system_facts(1)[of 0] by (simp_all add: t irq_setup_def kb_inv_def kb_contents_def f g)
  show "data_reads (hw_trace (example_shell bg)) = 0" using reads_vga[OF es, of "[]"] by (simp add: t)
qed

text \<open>The keys m, e, m and Enter: read by polling alone, and after their interrupts.\<close>

lemma shell_starved_by_interrupts_witness:
  "let dev = typing_keyboard (concat (map keys_for (cstr ''mem'' @ [10]))) in
   kb_contents ((take_irq dev 0x7000 (interrupt_frame 33) ^^ 8) (example_shell VGA_BLACK)) =
     concat (map keys_for (cstr ''mem'' @ [10])) \<and>
   shell_readline dev ((take_irq dev 0x7000 (interrupt_frame 33) ^^ 8) (example_shell VGA_BLACK)) = None"
proof -
  define scs where "scs = concat (map keys_for (cstr ''mem'' @ [10]))"
  define s where "s = example_shell VGA_BLACK"
  have len: "length scs = 8" unfolding scs_def by code_simp
  have d: "kb_delivers (typing_keyboard scs) 0 0 scs" "kb_silent (typing_keyboard scs) (0 + length scs)"
    by (simp_all add: kb_delivers_def kb_silent_def typing_keyboard_def)
  have f: "irq_setup s" "kb_inv s" "kb_contents s = []" "data_reads (hw_trace s) = 0"
    unfolding s_def by (rule example_shell_irq)+
  have "length (kb_contents s) + length scs \<le> 255" by (simp add: f len)
  from shell_starved_by_interrupts[OF f(1,2) _ d f(4) this, of "interrupt_frame 33" "0x7000"]
  show ?thesis unfolding Let_def scs_def[symmetric] s_def[symmetric] by (simp add: len f(3))
qed

end
