(* ===== verification/Boot.thy ===== *)
theory Boot
  imports Syscall
begin

text \<open>
  The start of the kernel, \<^verbatim>\<open>kernel_main\<close> of \<^verbatim>\<open>src/kernel/main.c\<close>, over all components, and
  what initialisation leaves alone. The addresses the linker assigns are the fields of a
  record, a parameter.
\<close>

section \<open>main.c\<close>

record layout =
  l_kernel_start :: u64
  l_kernel_end :: u64
  l_df_stack :: u64
  l_tss :: u64
  l_gdt :: u64
  l_gdt_ptr :: u64
  l_idt :: u64
  l_idtp :: u64
  l_stub :: "nat \<Rightarrow> u64"
  l_syscall_entry :: u64
  l_cpu_data :: u64
  l_shell_task :: u64

abbreviation paint :: "string \<Rightarrow> vga_color_t \<Rightarrow> 'a vga_state_scheme \<Rightarrow> 'a vga_state_scheme" where
  "paint t fg s \<equiv> vga_print_colored (cstr t) fg VGA_BLACK s"

text \<open>The logo, with \<^verbatim>\<open>#\<close> for a backslash and \<^verbatim>\<open>~\<close> for an apostrophe.\<close>

definition logo_text :: "string \<Rightarrow> string" where
  "logo_text = map (\<lambda>c. if c = CHR ''#'' then CHR 0x5C else if c = CHR ''~'' then CHR 0x27 else c)"

definition logo :: "string list" where
  "logo = map logo_text
    [''    _  ___  ___  ____   '',
     ''   | |/ (_)/ _ #/ ___|  '',
     ''   | ~ /| | | | #___ #  '',
     ''   | . #| | |_| |___) | '',
     ''   |_|#_#_|#___/|____/  '']"

definition print_banner :: "'a vga_state_scheme \<Rightarrow> 'a vga_state_scheme" where
  "print_banner s =
     (let s = vga_println [] s;
          s = fold (\<lambda>t s. vga_println [] (paint t VGA_LIGHT_CYAN s)) logo s;
          s = vga_println [] s;
          s = paint ''  Welcome to KiOS v0.5.0'' VGA_YELLOW s;
          s = vga_println (cstr '' - A simple 64-bit operating system'') s;
          s = vga_println [] s;
          s = vga_print (cstr ''  Running in '') s;
          s = paint ''x86_64 Long Mode'' VGA_LIGHT_GREEN s;
          s = vga_println [] s;
          s = vga_print (cstr ''  Type '') s;
          s = paint ''help'' VGA_LIGHT_CYAN s;
          s = vga_println (cstr '' for available commands.'') s
      in vga_println [] s)"

text \<open>
  \<^verbatim>\<open>kernel_main\<close> up to its idle loop \<^verbatim>\<open>for (;;) hlt\<close>, in which all that happens is interrupts.
\<close>

definition kernel_main :: "device \<Rightarrow> layout \<Rightarrow> 'a sys_state_scheme \<Rightarrow> 'a sys_state_scheme" where
  "kernel_main dev L s =
     (let s = vga_set_color VGA_WHITE VGA_BLACK s;
          s = vga_clear s;
          s = pic_remap dev 32 40 s;
          s = for_up 16 0 (pic_set_mask dev) s;
          s = tss_init (l_df_stack L) 8192 s;
          s = gdt_init (l_tss L) SIZEOF_TSS (l_gdt L) (l_gdt_ptr L) s;
          s = idt_init (l_stub L) (l_idt L) (l_idtp L) s;
          s = pmm_init (l_kernel_start L) (l_kernel_end L) s;
          s = vmm_init s;
          s = heap_init s;
          s = syscall_init (l_syscall_entry L) (l_cpu_data L) s;
          s = print_banner s;
          s = task_init s;
          (_, s) = task_create (cstr ''shell'') (l_shell_task L) 16384 s;
          s = pit_init s;
          s = keyboard_irq_init dev s;
          s = pit_enable_scheduler s;
          s = emit Sti s
      in pic_clear_mask dev 0 s)"

section \<open>What the memory, task and console code leaves alone\<close>

text \<open>
  \<open>os_only s t\<close>: nothing beyond the fields of memory, console and tasks changed, and the
  processor did what the memory managers and the console do.
\<close>

definition os_only :: "'a task_state_scheme \<Rightarrow> 'a task_state_scheme \<Rightarrow> bool" where
  "os_only s t \<longleftrightarrow> (\<exists>es. list_all mm_event es \<and> hw_trace t = hw_trace s @ es) \<and> cr3 t = cr3 s \<and>
     pit_ticks t = pit_ticks s \<and> scheduler_enabled t = scheduler_enabled s \<and> task_state.more t = task_state.more s"

lemma os_onlyI:
  "list_all mm_event es \<Longrightarrow> hw_trace t = hw_trace s @ es \<Longrightarrow> cr3 t = cr3 s \<Longrightarrow> pit_ticks t = pit_ticks s \<Longrightarrow>
   scheduler_enabled t = scheduler_enabled s \<Longrightarrow> task_state.more t = task_state.more s \<Longrightarrow> os_only s t"
  unfolding os_only_def by blast

lemma os_only_same:
  "hw_trace t = hw_trace s \<Longrightarrow> cr3 t = cr3 s \<Longrightarrow> pit_ticks t = pit_ticks s \<Longrightarrow>
   scheduler_enabled t = scheduler_enabled s \<Longrightarrow> task_state.more t = task_state.more s \<Longrightarrow> os_only s t"
  by (rule os_onlyI[where es = "[]"]) simp_all

lemma os_only_refl [simp, intro]: "os_only s s"
  by (rule os_only_same) simp_all

lemma os_only_trans [trans]:
  assumes "os_only s t" and "os_only t u"
  shows "os_only s u"
proof -
  obtain es es' where e: "list_all mm_event es" "hw_trace t = hw_trace s @ es"
    "list_all mm_event es'" "hw_trace u = hw_trace t @ es'"
    using assms unfolding os_only_def by blast
  show ?thesis
    by (rule os_onlyI[where es = "es @ es'"]) (use assms e in \<open>simp_all add: os_only_def\<close>)
qed

lemma mm_only_os: "mm_only s t \<Longrightarrow> os_only s t"
  by (erule mm_onlyE) (simp add: os_only_def)

lemma vga_only_os: "vga_only s t \<Longrightarrow> os_only s t"
  by (rule mm_only_os) (rule vga_only_mm)

lemma os_only_kmalloc: "os_only s (snd (kmalloc n s))"
proof (cases "n = 0 \<or> heap_current_ptr s + round16 n \<ge> HEAP_START + HEAP_SIZE")
  case True
  then show ?thesis by (auto simp: kmalloc_def Let_def)
next
  case False
  obtain ok t where h: "heap_map_pages (kmalloc_pages (heap_current_ptr s) (round16 n))
      (heap_current_ptr s AND NOT 0xFFF) s = (ok, t)" by force
  have "mm_only s t" using mm_only_heap_map_pages[of s] h by (metis snd_conv)
  then have "os_only s t" by (rule mm_only_os)
  then show ?thesis using False kmalloc_cases[of n s] h by (simp add: Let_def os_only_def)
qed

lemma os_only_task_init: "os_only s (task_init s)"
proof -
  define s0 where "s0 = s\<lparr>task_list := replicate MAX_TASKS 0, task_count_val := 0, current_task := 0, next_pid := 1\<rparr>"
  obtain k s1 where k: "kmalloc SIZEOF_TASK s0 = (k, s1)" by force
  have "os_only s s0" by (rule os_only_same) (simp_all add: s0_def)
  also have "os_only s0 s1" using os_only_kmalloc[of s0 SIZEOF_TASK] k by simp
  also have "os_only s1 (task_init s)"
    unfolding task_init_def Let_def s0_def[symmetric] k prod.case by (auto intro!: os_only_same)
  finally show ?thesis .
qed

lemma os_only_task_create: "os_only s (snd (task_create name entry ssize s))"
proof -
  obtain task s1 stack s2 where k: "kmalloc SIZEOF_TASK s = (task, s1)" "kmalloc ssize s1 = (stack, s2)" by (metis surj_pair)
  have p: "os_only u (vga_println cs u)" for cs and u :: "'a task_state_scheme" by (rule vga_only_os) simp
  have 1: "os_only s s1" using os_only_kmalloc[of s SIZEOF_TASK] k by simp
  have 2: "os_only s s2" using os_only_trans[OF 1 os_only_kmalloc[of s1 ssize]] k by simp
  show ?thesis
    using 1 2 os_only_trans[OF 1 p] os_only_trans[OF 2 p] p
    by (auto simp: task_create_def k Let_def kfree_def intro!: os_only_trans[OF 2] os_only_same)
qed

lemma os_only_pmm_init:
  fixes s :: "'a task_state_scheme"
  shows "os_only s (pmm_init ks ke s)"
proof -
  have loop: "os_only u (for_up n i f u)" if "\<And>i u. os_only u (f i u)"
    for n and i :: u64 and f and u :: "'a task_state_scheme"
    by (rule for_up_relation[of os_only]) (use that in \<open>auto intro: os_only_trans\<close>)
  have "os_only u (pmm_release i u)" "os_only u (pmm_reserve i u)" for i and u :: "'a task_state_scheme"
    by (simp_all add: pmm_release_def pmm_reserve_def bm_clear_def bm_set_def os_only_same)
  note step = this
  have f: "os_only u (pmm_fill_bitmap n u)" for n and u :: "'a task_state_scheme"
    unfolding pmm_fill_bitmap_def by (rule loop) (rule os_only_same; simp)
  have u: "os_only u (pmm_free_usable c u)" for c and u :: "'a task_state_scheme"
    unfolding pmm_free_usable_def by (rule loop) (auto simp: Let_def intro: loop step(1))
  have lo: "os_only u (pmm_reserve_low u)" "os_only u (pmm_reserve_kernel k n u)" for k n and u :: "'a task_state_scheme"
    unfolding pmm_reserve_low_def pmm_reserve_kernel_def Let_def by (rule loop, rule step)+
  define s1 where "s1 = s\<lparr>total_pages := pmm_max_addr (memory_map_entry_count (mem s)) (mem s) div PAGE_SIZE,
    bitmap := (ke + PAGE_SIZE - 1) AND NOT (PAGE_SIZE - 1)\<rparr>"
  define n where "n = (total_pages s1 + 7) div 8"
  define c where "c = memory_map_entry_count (mem s)"
  define s2 where "s2 = pmm_fill_bitmap n s1"
  define s3 where "s3 = s2\<lparr>used_pages := total_pages s2\<rparr>"
  have "os_only s s1" by (rule os_only_same) (simp_all add: s1_def)
  also have "os_only s1 s2" unfolding s2_def by (rule f)
  also have "os_only s2 s3" by (rule os_only_same) (simp_all add: s3_def)
  also have "os_only s3 (pmm_free_usable c s3)" by (rule u)
  also have "os_only \<dots> (pmm_reserve_low (pmm_free_usable c s3))" by (rule lo)
  also have "os_only \<dots> (pmm_reserve_kernel ks n (pmm_reserve_low (pmm_free_usable c s3)))" by (rule lo)
  also have "\<dots> = pmm_init ks ke s"
    by (simp add: pmm_init_def Let_def s1_def n_def c_def s2_def s3_def)
  finally show ?thesis .
qed

lemma vga_only_banner: "vga_only s (print_banner s)"
proof -
  have f: "vga_only u (fold (\<lambda>t s. vga_println [] (paint t VGA_LIGHT_CYAN s)) ts u)" for ts and u :: "'a vga_state_scheme"
  proof (induction ts arbitrary: u)
    case (Cons a ts)
    show ?case
      using vga_only_trans[OF vga_only_trans[OF vga_only_print_colored vga_only_println] Cons.IH] by simp
  qed simp
  show ?thesis
    unfolding print_banner_def Let_def
    by (blast intro: f vga_only_trans[OF _ vga_only_println] vga_only_trans[OF _ vga_only_print]
        vga_only_trans[OF _ vga_only_print_colored] vga_only_trans[OF _ f] vga_only_println)
qed

lemma os_only_fields:
  fixes s t :: "'a sys_state_scheme"
  assumes "os_only s t"
  shows "irq_handlers t = irq_handlers s" "new_task_regs t = new_task_regs s" "idt t = idt s" "idtp t = idtp s"
    "gdt t = gdt s" "tss t = tss s" "msrs t = msrs s" "cpu_data t = cpu_data s"
    "scheduler_enabled t = scheduler_enabled s" "pit_ticks t = pit_ticks s"
proof -
  have e: "task_state.more t = task_state.more s" "scheduler_enabled t = scheduler_enabled s" "pit_ticks t = pit_ticks s"
    using assms by (simp_all add: os_only_def)
  then show "irq_handlers t = irq_handlers s" "new_task_regs t = new_task_regs s" "idt t = idt s" "idtp t = idtp s"
    "gdt t = gdt s" "tss t = tss s" "msrs t = msrs s" "cpu_data t = cpu_data s"
    "scheduler_enabled t = scheduler_enabled s" "pit_ticks t = pit_ticks s"
    by (cases s; cases t; simp)+
qed

section \<open>Events the interrupt controllers do not see\<close>

definition pic_quiet :: "hw_event \<Rightarrow> bool" where
  "pic_quiet e \<longleftrightarrow> (case e of
     OutB p v \<Rightarrow> p \<notin> {PIC1_COMMAND, PIC1_DATA, PIC2_COMMAND, PIC2_DATA}
   | Sti \<Rightarrow> False | Lidt a \<Rightarrow> False | _ \<Rightarrow> True)"

lemma mm_event_quiet: "mm_event e \<Longrightarrow> pic_quiet e"
  by (cases e) (auto simp: pic_quiet_def)

lemma quiet_chips:
  assumes "list_all pic_quiet es"
  shows "master_after es c = c" "slave_after es c = c"
proof -
  have "chip_event PIC1_COMMAND PIC1_DATA e c = c \<and> chip_event PIC2_COMMAND PIC2_DATA e c = c" if "pic_quiet e" for e c
    using that by (cases e) (auto simp: pic_quiet_def)
  then show "master_after es c = c" "slave_after es c = c"
    using assms by (induction es arbitrary: c) (simp_all add: chip_after_def)
qed

lemma quiet_lines:
  assumes "list_all pic_quiet es"
  shows "irq_masked m sl (tr @ es) j = irq_masked m sl tr j" "irq_vector m sl (tr @ es) j = irq_vector m sl tr j"
    "pics_idle m sl (tr @ es) = pics_idle m sl tr"
  by (simp_all add: irq_masked_def irq_vector_def pics_idle_def quiet_chips[OF assms])

lemma quiet_no_sti: "list_all pic_quiet es \<Longrightarrow> Sti \<notin> set es \<and> Lidt a \<notin> set es"
  by (auto simp: list_all_iff pic_quiet_def)

lemma os_only_quiet:
  assumes "os_only s t"
  obtains es where "hw_trace t = hw_trace s @ es" and "list_all pic_quiet es"
proof -
  obtain es where "list_all mm_event es" "hw_trace t = hw_trace s @ es"
    using assms unfolding os_only_def by blast
  then show thesis using that[of es] by (auto simp: list_all_iff intro: mm_event_quiet)
qed

end
