(* ===== verification/BootTrace.thy ===== *)
theory BootTrace
  imports Boot
begin

text \<open>
  What the hardware sees of \<^verbatim>\<open>kernel_main\<close>: the order in which it programs the interrupt
  controllers, loads the descriptor tables and enables interrupts.
\<close>

section \<open>Steps that only talk to ports\<close>

fun port_event :: "hw_event \<Rightarrow> bool" where
  "port_event (OutB p v) \<longleftrightarrow> True"
| "port_event (InB p v) \<longleftrightarrow> True"
| "port_event _ \<longleftrightarrow> False"

definition port_only :: "'a mach_scheme \<Rightarrow> 'a mach_scheme \<Rightarrow> bool" where
  "port_only s t \<longleftrightarrow> (\<exists>es. list_all port_event es \<and> t = s\<lparr>hw_trace := hw_trace s @ es\<rparr>)"

lemma port_onlyI: "list_all port_event es \<Longrightarrow> t = s\<lparr>hw_trace := hw_trace s @ es\<rparr> \<Longrightarrow> port_only s t"
  unfolding port_only_def by blast

lemma port_only_refl: "port_only s s"
  by (rule port_onlyI[where es = "[]"]) simp_all

lemma port_only_trans [trans]: "port_only s t \<Longrightarrow> port_only t u \<Longrightarrow> port_only s u"
  unfolding port_only_def by (elim exE conjE) (rule_tac x = "es @ esa" in exI, simp)

lemma port_only_io: "port_only s (outb p v s)" "port_only s (io_wait s)" "port_only s (snd (inb dev p s))"
proof -
  show "port_only s (outb p v s)" by (rule port_onlyI[where es = "[OutB p v]"]) (simp_all add: port_defs)
  show "port_only s (io_wait s)" by (rule port_onlyI[where es = "[OutB 0x80 0]"]) (simp_all add: port_defs)
  show "port_only s (snd (inb dev p s))"
    by (rule port_onlyI[where es = "[InB p (fst (inb dev p s))]"]) (simp_all add: port_defs Let_def)
qed

lemma port_only_mask: "port_only s (pic_set_mask dev i s)" "port_only s (pic_clear_mask dev i s)"
  unfolding pic_set_mask_def pic_clear_mask_def Let_def split_beta
  by (rule port_only_trans[OF port_only_io(3) port_only_io(1)])+

lemma port_only_remap: "port_only s (pic_remap dev a b s)"
proof -
  have w: "port_only u (io_wait (outb p v u))" for p v and u :: "'a mach_scheme"
    by (rule port_only_trans[OF port_only_io(1,2)])
  show ?thesis
    unfolding pic_remap_def Let_def split_beta
    by (intro port_only_trans[OF _ port_only_io(1)] port_only_trans[OF _ w] port_only_trans[OF _ port_only_io(3)]
        port_only_refl)
qed

lemma port_event_other: "list_all port_event es \<Longrightarrow> Sti \<notin> set es \<and> Lidt a \<notin> set es"
  by (auto simp: list_all_iff)

lemma vga_event_port: "vga_event e \<Longrightarrow> port_event e"
  by (cases e) auto

section \<open>Masking every line\<close>

lemma mask_all:
  fixes s :: "'a mach_scheme"
  assumes dev: "reads_masks dev m sl" and idle: "pics_idle m sl (hw_trace s)"
  defines "t \<equiv> for_up 16 0 (pic_set_mask dev) s"
  shows "pics_idle m sl (hw_trace t)" "j < 16 \<Longrightarrow> irq_masked m sl (hw_trace t) j"
    "j < 16 \<Longrightarrow> irq_vector m sl (hw_trace t) j = irq_vector m sl (hw_trace s) j"
proof -
  let ?I = "\<lambda>k t. pics_idle m sl (hw_trace t) \<and> (\<forall>j < k. irq_masked m sl (hw_trace t) j) \<and>
    (\<forall>j < 16. irq_vector m sl (hw_trace t) j = irq_vector m sl (hw_trace s) j)"
  have "?I 16 t"
    unfolding t_def
  proof (rule for_up_invariant[where I = ?I])
    fix k :: nat and u :: "'a mach_scheme"
    assume k: "k < 16" and I: "?I k u"
    have uk: "unat (0 + of_nat k :: u8) = k" using k by (simp add: unat_of_nat take_bit_nat_eq_self)
    then have "(0 + of_nat k :: u8) < 16" using k by (simp add: word_less_nat_alt)
    note c = pic_set_clear[OF dev conjunct1[OF I] this, unfolded uk]
    show "?I (Suc k) (pic_set_mask dev (0 + of_nat k) u)" using c(1,3,5) I k by (auto simp: less_Suc_eq)
  qed (use idle in simp)
  then show "pics_idle m sl (hw_trace t)" "j < 16 \<Longrightarrow> irq_masked m sl (hw_trace t) j"
    "j < 16 \<Longrightarrow> irq_vector m sl (hw_trace t) j = irq_vector m sl (hw_trace s) j" by simp_all
qed

section \<open>The phases of the start\<close>

lemma idt_init_frame:
  "hw_trace (idt_init stub a p s) = hw_trace s @ [Lidt p]" "irq_handlers (idt_init stub a p s) = irq_handlers s"
proof -
  have f: "hw_trace (fold (\<lambda>v. if v = 8 then idt_set_gate_ist 8 (stub 8) 0x08 IDT_TYPE_INTERRUPT 1
      else idt_set_gate (of_nat v) (stub v) 0x08 IDT_TYPE_INTERRUPT) vs u) = hw_trace u"
    "irq_handlers (fold (\<lambda>v. if v = 8 then idt_set_gate_ist 8 (stub 8) 0x08 IDT_TYPE_INTERRUPT 1
      else idt_set_gate (of_nat v) (stub v) 0x08 IDT_TYPE_INTERRUPT) vs u) = irq_handlers u"
    for vs :: "nat list" and u :: "'b desc_state_scheme"
    by (induction vs arbitrary: u) (simp_all add: idt_set_gate_def idt_set_gate_ist_def)
  show "hw_trace (idt_init stub a p s) = hw_trace s @ [Lidt p]" "irq_handlers (idt_init stub a p s) = irq_handlers s"
    by (simp_all add: idt_init_def Let_def emit_def f)
qed

lemma gdt_init_frame:
  "hw_trace (gdt_init t n a p s) = hw_trace s @ [Lgdt p, ReloadSegments, Ltr GDT_TSS]"
  "irq_handlers (gdt_init t n a p s) = irq_handlers s"
  by (simp_all add: gdt_init_def Let_def emit_def)

lemma syscall_init_frame:
  "\<exists>es. list_all pic_quiet es \<and> hw_trace (syscall_init e c s) = hw_trace s @ es"
  "irq_handlers (syscall_init e c s) = irq_handlers s" "idt (syscall_init e c s) = idt s"
proof -
  have w: "hw_trace (wrmsr m v u) = hw_trace u @ [Wrmsr m v]" "irq_handlers (wrmsr m v u) = irq_handlers u"
    "idt (wrmsr m v u) = idt u" for m v and u :: "'b sys_state_scheme"
    by (simp_all add: wrmsr_eq emit_def)
  have step: "\<exists>es. list_all pic_quiet es \<and> hw_trace (wrmsr m v u) = hw_trace s @ es"
    if u: "\<exists>es. list_all pic_quiet es \<and> hw_trace u = hw_trace s @ es" for m v and u :: "'a sys_state_scheme"
  proof -
    obtain es where "list_all pic_quiet es" "hw_trace u = hw_trace s @ es" using u by blast
    then show ?thesis unfolding w by (intro exI[of _ "es @ [Wrmsr m v]"]) (simp add: pic_quiet_def)
  qed
  show "\<exists>es. list_all pic_quiet es \<and> hw_trace (syscall_init e c s) = hw_trace s @ es"
    unfolding syscall_init_def Let_def by (intro step) (rule exI[of _ "[]"], simp)
  show "irq_handlers (syscall_init e c s) = irq_handlers s" "idt (syscall_init e c s) = idt s"
    unfolding syscall_init_def Let_def w by simp_all
qed

lemma pit_init_frame:
  "\<exists>es. list_all pic_quiet es \<and> hw_trace (pit_init s) = hw_trace s @ es"
  "irq_handlers (pit_init s) = (irq_handlers s)[0 := PIT_IRQ_HANDLER]"
  "idt (pit_init s) = idt s"
  by (simp_all add: pit_init_def irq_install_handler_def port_defs Let_def pic_quiet_def)

text \<open>The kernel before the descriptor tables are loaded, and up to the start of the timer.\<close>

definition boot_pics :: "device \<Rightarrow> layout \<Rightarrow> 'a sys_state_scheme \<Rightarrow> 'a sys_state_scheme" where
  "boot_pics dev L s =
     gdt_init (l_tss L) SIZEOF_TSS (l_gdt L) (l_gdt_ptr L) (tss_init (l_df_stack L) 8192
       (for_up 16 0 (pic_set_mask dev) (pic_remap dev 32 40 (vga_clear (vga_set_color VGA_WHITE VGA_BLACK s)))))"

definition boot_memory :: "layout \<Rightarrow> 'a sys_state_scheme \<Rightarrow> 'a sys_state_scheme" where
  "boot_memory L s = heap_init (vmm_init (pmm_init (l_kernel_start L) (l_kernel_end L) s))"

definition boot_tasking :: "layout \<Rightarrow> 'a sys_state_scheme \<Rightarrow> 'a sys_state_scheme" where
  "boot_tasking L s = snd (task_create (cstr ''shell'') (l_shell_task L) 16384 (task_init (print_banner s)))"

definition boot_devices :: "device \<Rightarrow> 'a sys_state_scheme \<Rightarrow> 'a sys_state_scheme" where
  "boot_devices dev s = pic_clear_mask dev 0 (emit Sti (pit_enable_scheduler (keyboard_irq_init dev (pit_init s))))"

lemma kernel_main_phases:
  "kernel_main dev L s = boot_devices dev (boot_tasking L (syscall_init (l_syscall_entry L) (l_cpu_data L)
     (boot_memory L (idt_init (l_stub L) (l_idt L) (l_idtp L) (boot_pics dev L s)))))"
  by (simp add: kernel_main_def boot_pics_def boot_memory_def boot_tasking_def boot_devices_def Let_def split_beta)

lemma boot_pics_trace:
  assumes "reads_masks dev m sl"
  obtains a where "hw_trace (boot_pics dev L s) = hw_trace s @ a" and "Sti \<notin> set a" and "\<And>x. Lidt x \<notin> set a"
    and "pics_idle m sl (hw_trace (boot_pics dev L s))"
    and "\<And>j. j < 16 \<Longrightarrow> irq_masked m sl (hw_trace (boot_pics dev L s)) j"
    and "\<And>j. j < 16 \<Longrightarrow> irq_vector m sl (hw_trace (boot_pics dev L s)) j = 32 + j"
    and "irq_handlers (boot_pics dev L s) = irq_handlers s"
proof -
  define v where "v = vga_clear (vga_set_color VGA_WHITE VGA_BLACK s)"
  define p where "p = pic_remap dev 32 40 v"
  define q where "q = for_up 16 0 (pic_set_mask dev) p"
  have "vga_only s v" unfolding v_def by (rule vga_only_trans[OF vga_only_set_color vga_only_clear])
  then obtain b x y c es where es: "list_all vga_event es" and vs: "v = s\<lparr>hw_trace := hw_trace s @ es, vga_buffer := b,
      vga_cursor_x := x, vga_cursor_y := y, vga_color := c\<rparr>" by (rule vga_onlyE)
  have "port_only v p" unfolding p_def by (rule port_only_remap)
  also have "port_only p q" unfolding q_def
    by (rule for_up_relation[of port_only]) (auto intro: port_only_refl port_only_trans port_only_mask)
  finally obtain es' where es': "list_all port_event es'" and qv: "q = v\<lparr>hw_trace := hw_trace v @ es'\<rparr>"
    unfolding port_only_def by blast
  have g: "boot_pics dev L s = gdt_init (l_tss L) SIZEOF_TSS (l_gdt L) (l_gdt_ptr L) (tss_init (l_df_stack L) 8192 q)"
    by (simp add: boot_pics_def q_def p_def v_def)
  let ?g = "[Lgdt (l_gdt_ptr L), ReloadSegments, Ltr GDT_TSS]"
  have t: "hw_trace (boot_pics dev L s) = hw_trace q @ ?g"
    unfolding g gdt_init_frame(1) by (simp add: tss_init_def)
  have quiet: "list_all pic_quiet ?g" by (simp add: pic_quiet_def)
  have p: "pics_idle m sl (hw_trace p)" "irq_vector m sl (hw_trace p) j = 32 + j" if "j < 16" for j
    using that by (simp_all add: p_def pic_remap_lines[OF assms])
  have "pics_idle m sl (hw_trace p)" using p(1)[of 0] by simp
  note q = mask_all[OF assms this, folded q_def]
  show thesis
  proof (rule that)
    show "hw_trace (boot_pics dev L s) = hw_trace s @ (es @ es' @ ?g)" unfolding t by (simp add: qv vs)
    have "list_all port_event es" using es by (auto simp: list_all_iff intro: vga_event_port)
    then show "Sti \<notin> set (es @ es' @ ?g)" "Lidt x \<notin> set (es @ es' @ ?g)" for x
      using es' port_event_other by auto
    show "pics_idle m sl (hw_trace (boot_pics dev L s))" unfolding t quiet_lines(3)[OF quiet] by (rule q(1))
    show "irq_masked m sl (hw_trace (boot_pics dev L s)) j" if "j < 16" for j
      unfolding t quiet_lines(1)[OF quiet] by (rule q(2)[OF that])
    show "irq_vector m sl (hw_trace (boot_pics dev L s)) j = 32 + j" if "j < 16" for j
      unfolding t quiet_lines(2)[OF quiet] q(3)[OF that] by (rule p(2)[OF that])
    show "irq_handlers (boot_pics dev L s) = irq_handlers s"
      unfolding g gdt_init_frame(2) by (simp add: tss_init_def qv vs)
  qed
qed

lemma boot_middle:
  fixes s :: "'a sys_state_scheme" and L :: layout and e c :: u64
  defines "t \<equiv> boot_tasking L (syscall_init e c (boot_memory L s))"
  obtains q where "hw_trace t = hw_trace s @ q" and "list_all pic_quiet q"
    and "irq_handlers t = irq_handlers s" and "idt t = idt s"
proof -
  define y where "y = syscall_init e c (boot_memory L s)"
  have "os_only s (pmm_init (l_kernel_start L) (l_kernel_end L) s)" by (rule os_only_pmm_init)
  also have "os_only \<dots> (boot_memory L s)"
    unfolding boot_memory_def by (rule os_only_same) (simp_all add: heap_init_def vmm_init_def)
  finally have m: "os_only s (boot_memory L s)" .
  have "os_only y (print_banner y)" by (rule vga_only_os[OF vga_only_banner])
  also have "os_only \<dots> (task_init (print_banner y))" by (rule os_only_task_init)
  also have "os_only \<dots> t" unfolding t_def y_def[symmetric] boot_tasking_def by (rule os_only_task_create)
  finally have u: "os_only y t" .
  obtain e1 where e1: "hw_trace (boot_memory L s) = hw_trace s @ e1" "list_all pic_quiet e1" using m by (rule os_only_quiet)
  obtain e2 where e2: "hw_trace y = hw_trace (boot_memory L s) @ e2" "list_all pic_quiet e2"
    using syscall_init_frame(1) unfolding y_def by blast
  obtain e3 where e3: "hw_trace t = hw_trace y @ e3" "list_all pic_quiet e3" using u by (rule os_only_quiet)
  show thesis
  proof (rule that)
    show "hw_trace t = hw_trace s @ (e1 @ e2 @ e3)" by (simp add: e1 e2 e3)
    show "list_all pic_quiet (e1 @ e2 @ e3)" by (simp add: e1 e2 e3)
    show "irq_handlers t = irq_handlers s" "idt t = idt s"
      using os_only_fields(1,3)[OF m] os_only_fields(1,3)[OF u] syscall_init_frame(2,3)[of e c "boot_memory L s"]
      by (simp_all add: y_def)
  qed
qed

lemma keyboard_irq_init_eq:
  "keyboard_irq_init dev s = pic_clear_mask dev 1
     (s\<lparr>kb_buffer_read := 0, kb_buffer_write := 0, irq_handlers := (irq_handlers s)[1 := KEYBOARD_IRQ_HANDLER]\<rparr>)"
  by (simp add: keyboard_irq_init_def irq_install_handler_def Let_def)

lemma pic_mask_fields [simp]:
  fixes s :: "'a sys_state_scheme"
  shows "irq_handlers (pic_clear_mask dev i s) = irq_handlers s" "idt (pic_clear_mask dev i s) = idt s"
    "scheduler_enabled (pic_clear_mask dev i s) = scheduler_enabled s"
proof -
  have "port_only s (pic_clear_mask dev i s)" by (rule port_only_mask)
  then obtain es where "pic_clear_mask dev i s = s\<lparr>hw_trace := hw_trace s @ es\<rparr>" unfolding port_only_def by blast
  then show "irq_handlers (pic_clear_mask dev i s) = irq_handlers s" "idt (pic_clear_mask dev i s) = idt s"
    "scheduler_enabled (pic_clear_mask dev i s) = scheduler_enabled s" by simp_all
qed

lemma boot_devices_fields:
  fixes s :: "'a sys_state_scheme"
  shows "irq_handlers (boot_devices dev s) = (irq_handlers s)[0 := PIT_IRQ_HANDLER, 1 := KEYBOARD_IRQ_HANDLER]"
    "idt (boot_devices dev s) = idt s" "scheduler_enabled (boot_devices dev s)"
  by (simp_all add: boot_devices_def pit_enable_scheduler_def keyboard_irq_init_eq pit_init_frame emit_def)

text \<open>
  The rest of the trace: quiet events and the unmasking of the keyboard, then \<^verbatim>\<open>sti\<close>, then
  the unmasking of the timer.
\<close>

lemma boot_devices_trace:
  fixes s :: "'a sys_state_scheme"
  assumes dev: "reads_masks dev m sl" and idle: "pics_idle m sl (hw_trace s)"
  obtains q v w v' w' where "hw_trace (boot_devices dev s) =
      hw_trace s @ q @ [InB PIC1_DATA v, OutB PIC1_DATA w, Sti, InB PIC1_DATA v', OutB PIC1_DATA w']"
    and "list_all pic_quiet q"
    and "\<And>j. j < 16 \<Longrightarrow> irq_masked m sl (hw_trace s @ q @ [InB PIC1_DATA v, OutB PIC1_DATA w]) j \<longleftrightarrow>
      j \<noteq> 1 \<and> irq_masked m sl (hw_trace s) j"
    and "\<And>j. j < 16 \<Longrightarrow> irq_masked m sl (hw_trace (boot_devices dev s)) j \<longleftrightarrow>
      j \<noteq> 0 \<and> j \<noteq> 1 \<and> irq_masked m sl (hw_trace s) j"
    and "\<And>j. j < 16 \<Longrightarrow> irq_vector m sl (hw_trace (boot_devices dev s)) j = irq_vector m sl (hw_trace s) j"
proof -
  define p where "p = (pit_init s)\<lparr>kb_buffer_read := 0, kb_buffer_write := 0,
    irq_handlers := (irq_handlers (pit_init s))[1 := KEYBOARD_IRQ_HANDLER]\<rparr>"
  define k where "k = pic_clear_mask dev 1 p"
  define e where "e = emit Sti (pit_enable_scheduler k)"
  have r: "boot_devices dev s = pic_clear_mask dev 0 e"
    by (simp add: boot_devices_def keyboard_irq_init_eq e_def k_def p_def)
  obtain q where q: "hw_trace p = hw_trace s @ q" "list_all pic_quiet q"
    using pit_init_frame(1)[of s] by (auto simp: p_def)
  have i: "(0 :: u8) < 16" "(1 :: u8) < 16" by simp_all
  have l: "fst (pic_line 0) = PIC1_DATA" "fst (pic_line 1) = PIC1_DATA" by (simp_all add: pic_line_def)
  have pi: "pics_idle m sl (hw_trace p)" unfolding q(1) quiet_lines(3)[OF q(2)] by (rule idle)
  note c1 = pic_set_clear[OF dev pi i(2), folded k_def]
  have ki: "pics_idle m sl (hw_trace k)" using c1(4)[of 0] by simp
  have chip: "irq_masked m sl (tr @ [Sti]) j = irq_masked m sl tr j" "irq_vector m sl (tr @ [Sti]) j = irq_vector m sl tr j"
    "pics_idle m sl (tr @ [Sti]) = pics_idle m sl tr" for tr j
    by (simp_all add: irq_masked_def irq_vector_def pics_idle_def)
  have te: "hw_trace e = hw_trace k @ [Sti]" by (simp add: e_def pit_enable_scheduler_def emit_def)
  have ei: "pics_idle m sl (hw_trace e)" unfolding te chip(3) by (rule ki)
  note c0 = pic_set_clear[OF dev ei i(1), folded r]
  obtain v where v: "hw_trace k = hw_trace p @ [InB PIC1_DATA v, OutB PIC1_DATA (v AND NOT (push_bit (unat (1 :: u8) mod 8) 1))]"
    using pic_mask_trace[OF dev i(2), of p] unfolding k_def l by blast
  obtain v' where v': "hw_trace (boot_devices dev s) = hw_trace e @
      [InB PIC1_DATA v', OutB PIC1_DATA (v' AND NOT (push_bit (unat (0 :: u8) mod 8) 1))]"
    using pic_mask_trace[OF dev i(1), of e] unfolding r l by blast
  show thesis
  proof (rule that)
    show "hw_trace (boot_devices dev s) = hw_trace s @ q @ [InB PIC1_DATA v,
        OutB PIC1_DATA (v AND NOT (push_bit (unat (1 :: u8) mod 8) 1)), Sti, InB PIC1_DATA v',
        OutB PIC1_DATA (v' AND NOT (push_bit (unat (0 :: u8) mod 8) 1))]"
      unfolding v' te v q(1) by simp
    show "list_all pic_quiet q" by (rule q(2))
    have "hw_trace s @ q @ [InB PIC1_DATA v, OutB PIC1_DATA (v AND NOT (push_bit (unat (1 :: u8) mod 8) 1))] = hw_trace k"
      unfolding v q(1) by simp
    moreover have m: "irq_masked m sl (hw_trace k) j \<longleftrightarrow> j \<noteq> 1 \<and> irq_masked m sl (hw_trace s) j" if "j < 16" for j
      using c1(2)[OF that] by (simp add: q(1) quiet_lines(1)[OF q(2)])
    ultimately show "irq_masked m sl (hw_trace s @ q @ [InB PIC1_DATA v,
        OutB PIC1_DATA (v AND NOT (push_bit (unat (1 :: u8) mod 8) 1))]) j \<longleftrightarrow> j \<noteq> 1 \<and> irq_masked m sl (hw_trace s) j"
      if "j < 16" for j using that by simp
    show "irq_masked m sl (hw_trace (boot_devices dev s)) j \<longleftrightarrow> j \<noteq> 0 \<and> j \<noteq> 1 \<and> irq_masked m sl (hw_trace s) j"
      if "j < 16" for j
      using c0(2)[OF that] m[OF that] by (simp add: te chip)
    show "irq_vector m sl (hw_trace (boot_devices dev s)) j = irq_vector m sl (hw_trace s) j" if "j < 16" for j
      using c0(6)[OF that] c1(6)[OF that] by (simp add: te chip q(1) quiet_lines(2)[OF q(2)])
  qed
qed

section \<open>A machine to boot\<close>

definition example_layout :: layout where
  "example_layout = \<lparr>l_kernel_start = 0x100000, l_kernel_end = 0x110000, l_df_stack = 0x10C000, l_tss = 0x10E000,
     l_gdt = 0x10E100, l_gdt_ptr = 0x10E200, l_idt = 0x10F000, l_idtp = 0x10E210,
     l_stub = (\<lambda>v. 0x101000 + 16 * of_nat v), l_syscall_entry = 0x102000, l_cpu_data = 0x10E300,
     l_shell_task = 0x103000\<rparr>"

text \<open>Power-on memory \<open>m\<close> with the boot memory map in it, page tables at \<open>root\<close>, zeroed variables.\<close>

definition power_on :: "(u64 \<Rightarrow> u8) \<Rightarrow> u64 \<Rightarrow> sys_state" where
  "power_on m root = example_sys\<lparr>mem := m, hw_trace := [], vga_buffer := blank_screen, vga_cursor_x := 0,
     vga_cursor_y := 0, cr3 := root, heap_current_ptr := 0, heap_total_alloc := 0, pit_ticks := 0,
     scheduler_enabled := False, task_list := replicate MAX_TASKS 0, task_count_val := 0, current_task := 0,
     next_pid := 0, irq_handlers := replicate 16 NO_HANDLER\<rparr>"

section \<open>Properties\<close>

text \<open>
  C4: no interrupt reaches the kernel before it can handle it. When \<^verbatim>\<open>kernel_main\<close> loads the
  interrupt table all sixteen lines are masked; from then until its only \<^verbatim>\<open>sti\<close> no line but
  the keyboard's is unmasked; in the idle loop exactly timer and keyboard are. Line \<open>j\<close> then
  has vector \<open>32 + j\<close>, whose gate leads to the stub of that vector, the dispatcher has the
  timer and the keyboard handler registered, and the scheduler is on.
\<close>

theorem boot_interrupts:
  assumes "reads_masks dev m sl" and "irq_handlers s = replicate 16 NO_HANDLER"
  shows "let r = kernel_main dev L s in
    (\<exists>a b c. hw_trace r = hw_trace s @ a @ Lidt (l_idtp L) # b @ Sti # c \<and> Sti \<notin> set (a @ b @ c) \<and>
       (\<forall>j < 16. irq_masked m sl (hw_trace s @ a) j) \<and>
       (\<forall>n. \<forall>j < 16. j \<noteq> 1 \<longrightarrow> irq_masked m sl (hw_trace s @ a @ Lidt (l_idtp L) # take n b) j)) \<and>
    (\<forall>j < 16. (irq_masked m sl (hw_trace r) j \<longleftrightarrow> j \<noteq> 0 \<and> j \<noteq> 1) \<and> irq_vector m sl (hw_trace r) j = 32 + j \<and>
       gate_present (idt r ! (32 + j)) \<and> gate_address (idt r ! (32 + j)) = l_stub L (32 + j)) \<and>
    irq_setup r"
proof -
  let ?l = "Lidt (l_idtp L)"
  obtain a where a: "hw_trace (boot_pics dev L s) = hw_trace s @ a" "Sti \<notin> set a" "\<And>x. Lidt x \<notin> set a"
    "pics_idle m sl (hw_trace (boot_pics dev L s))" "\<And>j. j < 16 \<Longrightarrow> irq_masked m sl (hw_trace (boot_pics dev L s)) j"
    "\<And>j. j < 16 \<Longrightarrow> irq_vector m sl (hw_trace (boot_pics dev L s)) j = 32 + j"
    "irq_handlers (boot_pics dev L s) = irq_handlers s" by (rule boot_pics_trace[OF assms(1), where L = L and s = s]) (rule that)
  define d where "d = idt_init (l_stub L) (l_idt L) (l_idtp L) (boot_pics dev L s)"
  define t where "t = boot_tasking L (syscall_init (l_syscall_entry L) (l_cpu_data L) (boot_memory L d))"
  have r: "kernel_main dev L s = boot_devices dev t" unfolding kernel_main_phases d_def t_def ..
  obtain q where q: "hw_trace t = hw_trace d @ q" "list_all pic_quiet q" "irq_handlers t = irq_handlers d" "idt t = idt d"
    unfolding t_def by (rule boot_middle)
  have lidt: "irq_masked m sl (tr @ [?l]) j = irq_masked m sl tr j" "irq_vector m sl (tr @ [?l]) j = irq_vector m sl tr j"
    "pics_idle m sl (tr @ [?l]) = pics_idle m sl tr" for tr j
    by (simp_all add: irq_masked_def irq_vector_def pics_idle_def)
  have dt: "hw_trace d = hw_trace (boot_pics dev L s) @ [?l]" by (simp add: d_def idt_init_frame)
  have ti: "pics_idle m sl (hw_trace t)" unfolding q(1) quiet_lines(3)[OF q(2)] dt lidt by (rule a(4))
  obtain q' v w v' w' where z: "hw_trace (boot_devices dev t) =
      hw_trace t @ q' @ [InB PIC1_DATA v, OutB PIC1_DATA w, Sti, InB PIC1_DATA v', OutB PIC1_DATA w']"
    "list_all pic_quiet q'"
    "\<And>j. j < 16 \<Longrightarrow> irq_masked m sl (hw_trace t @ q' @ [InB PIC1_DATA v, OutB PIC1_DATA w]) j \<longleftrightarrow>
      j \<noteq> 1 \<and> irq_masked m sl (hw_trace t) j"
    "\<And>j. j < 16 \<Longrightarrow> irq_masked m sl (hw_trace (boot_devices dev t)) j \<longleftrightarrow>
      j \<noteq> 0 \<and> j \<noteq> 1 \<and> irq_masked m sl (hw_trace t) j"
    "\<And>j. j < 16 \<Longrightarrow> irq_vector m sl (hw_trace (boot_devices dev t)) j = irq_vector m sl (hw_trace t) j"
    by (rule boot_devices_trace[OF assms(1) ti]) (rule that)
  have mt: "irq_masked m sl (hw_trace t) j" "irq_vector m sl (hw_trace t) j = 32 + j" if "j < 16" for j
    unfolding q(1) quiet_lines[OF q(2)] dt lidt using a(5,6)[OF that] by simp_all
  define b where "b = q @ q' @ [InB PIC1_DATA v, OutB PIC1_DATA w]"
  have trace: "hw_trace (kernel_main dev L s) = hw_trace s @ a @ ?l # b @ Sti # [InB PIC1_DATA v', OutB PIC1_DATA w']"
    by (simp add: r z(1) q(1) dt a(1) b_def)
  have sti: "Sti \<notin> set (a @ b @ [InB PIC1_DATA v', OutB PIC1_DATA w'])"
    using a(2) quiet_no_sti[OF q(2)] quiet_no_sti[OF z(2)] by (simp add: b_def)
  have pre: "irq_masked m sl (hw_trace s @ a) j" if "j < 16" for j using a(5)[OF that] by (simp only: a(1))
  have mid: "irq_masked m sl (hw_trace s @ a @ ?l # take n b) j" if "j < 16" "j \<noteq> 1" for n j
  proof (cases "n < length b")
    case True
    let ?c = "q @ q' @ [InB PIC1_DATA v]"
    have "list_all pic_quiet ?c" using q(2) z(2) by (simp add: pic_quiet_def)
    then have c: "list_all pic_quiet (take n ?c)" by (auto simp: list_all_iff dest: in_set_takeD)
    have "b = ?c @ [OutB PIC1_DATA w]" by (simp add: b_def)
    then have "take n b = take n ?c" using True by (metis Suc_leI diff_is_0_eq append_Nil2 length_append_singleton
          less_Suc_eq_le take_append take_eq_Nil)
    then have "hw_trace s @ a @ ?l # take n b = ((hw_trace s @ a) @ [?l]) @ take n ?c" by simp
    then show ?thesis using pre[OF that(1)] by (simp only: quiet_lines(1)[OF c] lidt(1))
  next
    case False
    then have "hw_trace s @ a @ ?l # take n b = hw_trace t @ q' @ [InB PIC1_DATA v, OutB PIC1_DATA w]"
      by (simp add: b_def q(1) dt a(1))
    then show ?thesis using z(3)[OF that(1)] mt(1)[OF that(1)] that(2) by simp
  qed
  have gate: "gate_present (idt (kernel_main dev L s) ! (32 + j)) \<and>
      gate_address (idt (kernel_main dev L s) ! (32 + j)) = l_stub L (32 + j)" if "j < 16" for j
  proof -
    have "idt (kernel_main dev L s) ! (32 + j) = gate_for (l_stub L) (32 + j)"
      using that by (simp add: r boot_devices_fields(2) q(4) d_def idt_init_table(1) nth_append)
    moreover have "gate_present (gate_for (l_stub L) (32 + j))" by (simp add: gate_present_def gate_for_def)
    ultimately show ?thesis by (simp add: gate_address_for)
  qed
  have "irq_handlers t = replicate 16 NO_HANDLER" using q(3) a(7) assms(2) by (simp add: d_def idt_init_frame(2))
  then have "irq_setup (kernel_main dev L s)"
    by (simp add: irq_setup_def r boot_devices_fields numeral_eq_Suc)
  moreover have "(irq_masked m sl (hw_trace (kernel_main dev L s)) j \<longleftrightarrow> j \<noteq> 0 \<and> j \<noteq> 1) \<and>
      irq_vector m sl (hw_trace (kernel_main dev L s)) j = 32 + j" if "j < 16" for j
    using z(4,5)[OF that] mt[OF that] by (simp add: r)
  ultimately show ?thesis unfolding Let_def using trace sti pre mid gate by blast
qed

lemma boot_interrupts_witness:
  "irq_vector example_chip example_chip (hw_trace (kernel_main pic_device example_layout (power_on example_map 0x1000))) 1 = 33 \<and>
   \<not> irq_masked example_chip example_chip (hw_trace (kernel_main pic_device example_layout (power_on example_map 0x1000))) 0 \<and>
   gate_address (idt (kernel_main pic_device example_layout (power_on example_map 0x1000)) ! 32) = 0x101200"
proof -
  have "irq_handlers (power_on example_map 0x1000) = replicate 16 NO_HANDLER" by (simp add: power_on_def)
  note b = boot_interrupts[OF pic_device_reads this, of example_layout, unfolded Let_def]
  show ?thesis
    using spec[OF conjunct1[OF conjunct2[OF b]], of 0] spec[OF conjunct1[OF conjunct2[OF b]], of 1]
    by (simp add: example_layout_def)
qed

end
