(* ===== verification/BootTasks.thy ===== *)
theory BootTasks
  imports BootTrace
begin

text \<open>
  What \<^verbatim>\<open>kernel_main\<close> leaves behind: working memory managers on top of the page tables of the
  boot loader, and the idle and the shell task ready to be scheduled.
\<close>

section \<open>The page tables of the boot loader\<close>

text \<open>
  The loader's tables lie in the first megabyte, which \<^verbatim>\<open>pmm_init\<close> reserves, use no bit above
  the address field and have nothing in the root slot that covers the heap.
\<close>

definition boot_tables_ok :: "(u64 \<Rightarrow> u8) \<Rightarrow> u64 \<Rightarrow> bool" where
  "boot_tables_ok m root \<longleftrightarrow> tables_separate m root \<and>
     (\<forall>p t. table_of m root p = Some t \<longrightarrow> unat t < 0x100000) \<and>
     (\<forall>p. drop_bit 52 (tree_of m root p) = 0) \<and> absent (pte_at m root 256)"

text \<open>The frames that are free after \<^verbatim>\<open>pmm_init\<close>.\<close>

definition boot_free :: "layout \<Rightarrow> (u64 \<Rightarrow> u8) \<Rightarrow> nat set" where
  "boot_free L m = usable_pages m (map_count m) - {..<256}
     - {unat (l_kernel_start L) div 4096..<reserved_end m (l_kernel_end L)}"

lemma heap_pml4: "in_heap va \<Longrightarrow> PML4_INDEX va = 256"
proof -
  assume h: "in_heap va"
  then have "unat va div 549755813888 = 33554176" by (intro div_nat_eqI) (simp_all add: in_heap_def)
  then have "unat (PML4_INDEX va) = unat (256 :: u64)"
    by (simp add: index_bits unsigned_take_bit_eq unat_drop_bit_eq take_bit_nat_def drop_bit_nat_def)
  then show ?thesis by (simp only: word_u64_eq_iff)
qed

lemma boot_memory_ok:
  fixes s :: "'a sys_state_scheme"
  assumes map: "boot_map_ok (l_kernel_start L) (l_kernel_end L) (mem s)" and k: "0x100000 \<le> unat (l_kernel_end L)"
    and tab: "boot_tables_ok (mem s) (cr3 s)" and ram: "ram_pages (mem s) \<le> 2 ^ 40"
  defines "t \<equiv> boot_memory L s"
  shows "heap_ok t" "ptr_ok t" "free_pages t = boot_free L (mem s)" "heap_current_ptr t = HEAP_START"
    "absent (pte_at (mem s) (cr3 s) (PML4_INDEX va)) \<Longrightarrow> small_path t va"
    "tables t = table_of (mem s) (cr3 s)" "pt_tree t = tree_of (mem s) (cr3 s)"
    "a \<in> bitmap_bytes t \<Longrightarrow> unat (l_kernel_end L) \<le> unat a \<and>
       unat a < unat (bitmap_start (l_kernel_end L)) + (ram_pages (mem s) + 7) div 8"
proof -
  define p where "p = pmm_init (l_kernel_start L) (l_kernel_end L) s"
  note f = pmm_init_facts[OF map, folded p_def]
  have "os_only s p" unfolding p_def by (rule os_only_pmm_init)
  then have cr: "cr3 p = cr3 s" by (simp add: os_only_def)
  have t: "mem t = mem p" "bitmap t = bitmap p" "total_pages t = total_pages p" "used_pages t = used_pages p"
    "current_pml4_phys t = cr3 s" "heap_current_ptr t = HEAP_START" "heap_total_alloc t = 0"
    using cr by (simp_all add: t_def boot_memory_def p_def heap_init_def vmm_init_def vmm_get_cr3_def)
  have "\<And>a. mem t a = mem p a" by (simp add: t(1))
  note same = pmm_same[OF t(2,3,4), OF this]
  show "heap_current_ptr t = HEAP_START" by (rule t(6))
  show "ptr_ok t" by (simp add: ptr_ok_def t in_heap_def)
  show free: "free_pages t = boot_free L (mem s)" using same(1) f(3) by (simp add: boot_free_def)
  have low: "mem t a = mem s a" if "unat a < 0x100000" for a
  proof -
    have "a \<notin> bitmap_bytes p" using bitmap_extent(1)[OF map f(2,1), of a] k that by linarith
    then show ?thesis using f(6) t(1) by simp
  qed
  have in_low: "unat a < 0x100000" if "table_of (mem s) (cr3 s) q = Some u" "a \<in> frame_bytes (unat u div 4096)" for q u a
  proof -
    have "unat u < 0x100000" using tab that(1) unfolding boot_tables_ok_def by blast
    then have "unat u div 4096 < 256" by (simp add: less_mult_imp_div_less)
    then have "unat a div 4096 < 256" using that(2) by (simp add: frame_bytes_def)
    then show ?thesis by linarith
  qed
  have keep: "page_aligned u \<and> (\<forall>a \<in> frame_bytes (unat u div 4096). mem t a = mem s a)"
    if "table_of (mem s) (cr3 s) q = Some u" for q u
    using tab that in_low[OF that] low unfolding boot_tables_ok_def tables_separate_def by blast
  note tc = table_of_cong[of "mem s" "cr3 s" "mem t", OF keep]
  have sep: "tables_separate (mem t) (current_pml4_phys t)"
    using tab by (simp add: boot_tables_ok_def tables_separate_def tc t(5))
  have out: "unat u div 4096 \<notin> free_pages t \<and> frame_bytes (unat u div 4096) \<inter> bitmap_bytes t = {}"
    if "tables t q = Some u" for q u
  proof -
    have u: "table_of (mem s) (cr3 s) q = Some u" using that by (simp add: tc t(5))
    then have "unat u < 0x100000" using tab unfolding boot_tables_ok_def by blast
    then have "unat u div 4096 < 256" by (simp add: less_mult_imp_div_less)
    moreover have "a \<notin> bitmap_bytes t" if "a \<in> frame_bytes (unat u div 4096)" for a
      using in_low[OF u that] bitmap_extent(1)[OF map f(2,1), of a] k same(2) by auto
    ultimately show ?thesis by (auto simp: free boot_free_def)
  qed
  have tree: "pt_tree t q = tree_of (mem s) (cr3 s) q" for q by (simp add: tc t(5))
  show "tables t = table_of (mem s) (cr3 s)" "pt_tree t = tree_of (mem s) (cr3 s)" by (simp_all add: fun_eq_iff tc t(5))
  show "unat (l_kernel_end L) \<le> unat a \<and> unat a < unat (bitmap_start (l_kernel_end L)) + (ram_pages (mem s) + 7) div 8"
    if "a \<in> bitmap_bytes t" using that bitmap_extent[OF map f(2,1), of a] same(2) by simp
  have "drop_bit 52 (pt_tree t q) = 0" for q using tab unfolding tree boot_tables_ok_def by blast
  moreover have "unat (total_pages t) \<le> 2 ^ 40" using f(1) t(3) ram by simp
  moreover have "pmm_inv t" "bitmap_safe t" using f(4,5) same(3,4) by simp_all
  ultimately have inv: "vmm_inv t" using sep out unfolding vmm_inv_def by blast
  have path: "small_path t va \<and> translation t va = None" if "absent (pte_at (mem s) (cr3 s) (PML4_INDEX va))" for va
  proof -
    have root: "absent (pt_tree t [PML4_INDEX va])" using that unfolding tree by (simp add: tree_root)
    then have nt: "\<not> is_table (pt_tree t [PML4_INDEX va])" by (rule absent_not_table)
    have z: "pt_tree t [PDPT_INDEX va, PML4_INDEX va] = 0" by (rule tree_child_absent[OF nt])
    then have z2: "pt_tree t [PD_INDEX va, PDPT_INDEX va, PML4_INDEX va] = 0"
      by (intro tree_child_absent) (simp add: is_table_def)
    have "small_path t va" using root z z2 by (simp add: small_path_def walk_indices_def)
    moreover have "translation t va = None"
      using translation_tree[OF inv, of va] nt by (simp add: tree_translate_def Let_def)
    ultimately show ?thesis ..
  qed
  show "absent (pte_at (mem s) (cr3 s) (PML4_INDEX va)) \<Longrightarrow> small_path t va" using path by blast
  have "absent (pte_at (mem s) (cr3 s) (PML4_INDEX va))" if "in_heap va" for va
    using tab heap_pml4[OF that] by (simp add: boot_tables_ok_def)
  note path = path[OF this]
  show "heap_ok t" unfolding heap_ok_def using inv path by auto
qed

section \<open>The first two tasks\<close>

text \<open>An allocation at a known heap pointer, with what it costs.\<close>

lemma kmalloc_at:
  fixes s :: "'a heap_state_scheme"
  assumes "heap_ok s" and "ptr_ok s" and "heap_current_ptr s = p" and "n \<noteq> 0" and "unat n \<le> 0x8000"
    and "unat p + unat n + 15 < 0xFFFF800001000000" and "4 * (unat n div 4096 + 3) \<le> card (free_pages s)"
  obtains t where "kmalloc n s = (p, t)" and "heap_ok t" and "ptr_ok t" and "heap_current_ptr t = p + round16 n"
    and "card (free_pages s) \<le> card (free_pages t) + 4 * (unat n div 4096 + 3)"
    and "\<forall>k < unat n. translation t (p + of_nat k) \<noteq> None"
proof -
  have n: "unat n \<le> MAX_REQUEST" using assms(5) by simp
  have "unat (round16 n) \<le> unat n + 15" using assms(5) by (intro round16_bounds(2)) simp
  then have fits: "unat (heap_current_ptr s) + unat (round16 n) < 0xFFFF800001000000" using assms(3,6) by simp
  obtain t u where k: "kmalloc n s = (heap_current_ptr s, t)"
    "t = u\<lparr>heap_current_ptr := heap_current_ptr s + round16 n, heap_total_alloc := heap_total_alloc s + round16 n\<rparr>"
    "heap_ok t" "ptr_ok t" "\<forall>k < unat n. translation t (heap_current_ptr s + of_nat k) \<noteq> None"
    "card (free_pages s) \<le> card (free_pages t) + 4 * (unat n div 4096 + 3)"
    by (rule kmalloc_success[OF assms(1,2,4) n fits assms(7)]) (rule that)
  have "heap_current_ptr t = p + round16 n" by (simp add: k(2) assms(3))
  then show thesis using that[OF _ k(3,4)] k(1,5,6) unfolding assms(3) by blast
qed

lemma boot_idle:
  fixes s :: "'a task_state_scheme"
  assumes ok: "heap_ok s" and ptr: "ptr_ok s" and hp: "heap_current_ptr s = HEAP_START" and room: "12 \<le> card (free_pages s)"
  defines "t \<equiv> task_init s"
  shows "heap_ok t" "tasks_ok t" "heap_current_ptr t = HEAP_START + 80" "all_tasks t = [HEAP_START]"
    "task_count_val t = 1" "current_task t = HEAP_START" "next_pid t = 1" "pid (tcbs t HEAP_START) = 0"
    "task_st (tcbs t HEAP_START) = TASK_STATE_RUNNING" "card (free_pages s) \<le> card (free_pages t) + 12"
proof -
  define s0 where "s0 = s\<lparr>task_list := replicate MAX_TASKS 0, task_count_val := 0, current_task := 0, next_pid := 1\<rparr>"
  have e: "bitmap s0 = bitmap s" "total_pages s0 = total_pages s" "used_pages s0 = used_pages s" "mem s0 = mem s"
    "current_pml4_phys s0 = current_pml4_phys s" by (simp_all add: s0_def)
  have s0: "heap_ok s0" "free_pages s0 = free_pages s" using heap_ok_same[OF e] ok by simp_all
  have p0: "ptr_ok s0" "heap_current_ptr s0 = HEAP_START" using ptr hp by (simp_all add: s0_def ptr_ok_def)
  have n: "SIZEOF_TASK \<noteq> 0" "unat SIZEOF_TASK \<le> 0x8000" "unat HEAP_START + unat SIZEOF_TASK + 15 < 0xFFFF800001000000"
    "4 * (unat SIZEOF_TASK div 4096 + 3) \<le> card (free_pages s0)"
    using room by (simp_all add: s0(2))
  have r: "round16 SIZEOF_TASK = 80" by code_simp
  obtain k where k: "kmalloc SIZEOF_TASK s0 = (HEAP_START, k)" "heap_ok k" "heap_current_ptr k = HEAP_START + 80"
    "card (free_pages s) \<le> card (free_pages k) + 12"
    by (rule kmalloc_at[OF s0(1) p0 n(1-4)]) (rule that, simp_all add: r s0(2))
  have f: "tcbs k = tcbs s0" "task_list k = replicate MAX_TASKS 0" "task_count_val k = 0" "current_task k = 0" "next_pid k = 1"
    using kmalloc_task_fields[of SIZEOF_TASK s0] unfolding k(1) snd_conv by (simp_all add: s0_def)
  have t: "t = k\<lparr>tcbs := (tcbs k)(HEAP_START := (tcbs k HEAP_START)\<lparr>pid := 0, task_name := name_field (cstr ''kernel_idle''),
        task_st := TASK_STATE_RUNNING, stack_base := 0, stack_size := 0, task_regs := 0,
        sleep_until := 0, task_next := 0\<rparr>), task_list := (task_list k)[0 := HEAP_START], task_count_val := 1,
      current_task := HEAP_START\<rparr>"
    unfolding t_def task_init_def Let_def s0_def[symmetric] k(1) prod.case by (simp add: f)
  have e: "bitmap t = bitmap k" "total_pages t = total_pages k" "used_pages t = used_pages k" "mem t = mem k"
    "current_pml4_phys t = current_pml4_phys k" by (simp_all add: t)
  show "heap_ok t" "card (free_pages s) \<le> card (free_pages t) + 12" using heap_ok_same[OF e] k(2,4) by simp_all
  show "tasks_ok t" unfolding t_def by (rule tasks_ok_init[OF ptr])
  have "take 1 ((replicate MAX_TASKS 0)[0 := HEAP_START]) = [HEAP_START]" by (simp add: numeral_eq_Suc)
  then show "all_tasks t = [HEAP_START]" by (simp add: all_tasks_def t f)
  show "heap_current_ptr t = HEAP_START + 80" "task_count_val t = 1" "current_task t = HEAP_START" "next_pid t = 1"
    "pid (tcbs t HEAP_START) = 0" "task_st (tcbs t HEAP_START) = TASK_STATE_RUNNING"
    by (simp_all add: t k(3) f)
qed

lemma boot_shell:
  fixes s :: "'a task_state_scheme" and entry :: u64 and name :: "u8 list"
  assumes ok: "heap_ok s" and tok: "tasks_ok s" and hp: "heap_current_ptr s = HEAP_START + 80"
    and all: "all_tasks s = [HEAP_START]" "task_count_val s = 1" "current_task s = HEAP_START" "next_pid s = 1"
    and room: "52 \<le> card (free_pages s)"
  defines "r \<equiv> snd (task_create name entry 16384 s)" and "t \<equiv> HEAP_START + 80" and "stack \<equiv> HEAP_START + 160"
  shows "heap_ok r" "tasks_ok r" "all_tasks r = [HEAP_START, t]" "current_task r = HEAP_START" "task_count_val r = 2"
    "tcbs r HEAP_START = tcbs s HEAP_START" "pid (tcbs r t) = 1" "task_st (tcbs r t) = TASK_STATE_READY"
    "task_name (tcbs r t) = name_field name" "stack_base (tcbs r t) = stack"
    "frames r (task_regs (tcbs r t)) = initial_frame entry (task_regs (tcbs r t))"
    "\<forall>k < 16384. translation r (stack + of_nat k) \<noteq> None"
    "unat (task_regs (tcbs r t)) + 208 \<le> unat stack + 16384" "unat stack \<le> unat (task_regs (tcbs r t))"
    "12 \<le> card (free_pages r)"
proof -
  have ptr: "ptr_ok s" and inv: "task_inv s" using tok by (simp_all add: tasks_ok_def)
  have n: "SIZEOF_TASK \<noteq> 0" "unat SIZEOF_TASK \<le> 0x8000" "unat (HEAP_START + 80) + unat SIZEOF_TASK + 15 < 0xFFFF800001000000"
    "4 * (unat SIZEOF_TASK div 4096 + 3) \<le> card (free_pages s)"
    using room by simp_all
  have r80: "round16 SIZEOF_TASK = 80" by code_simp
  obtain s1 where k1: "kmalloc SIZEOF_TASK s = (t, s1)" "heap_ok s1" "ptr_ok s1" "heap_current_ptr s1 = stack"
    "card (free_pages s) \<le> card (free_pages s1) + 12"
    by (rule kmalloc_at[OF ok ptr hp n]) (rule that, simp_all add: r80 t_def stack_def)
  have m: "(16384 :: u64) \<noteq> 0" "unat (16384 :: u64) \<le> 0x8000" "unat stack + unat (16384 :: u64) + 15 < 0xFFFF800001000000"
    "4 * (unat (16384 :: u64) div 4096 + 3) \<le> card (free_pages s1)"
    using k1(5) room by (simp_all add: stack_def)
  obtain s2 where k2: "kmalloc 16384 s1 = (stack, s2)" "heap_ok s2" "ptr_ok s2"
    "\<forall>k < 16384. translation s2 (stack + of_nat k) \<noteq> None" "card (free_pages s1) \<le> card (free_pages s2) + 28"
    by (rule kmalloc_at[OF k1(2,3,4) m]) (rule that, simp_all)
  have nz: "task_count_val s < MAX_TASKS" "t \<noteq> 0" "stack \<noteq> 0" by (simp_all add: all t_def stack_def)
  note c = task_create_success[OF nz(1) k1(1) nz(2) k2(1) nz(3), of name entry, folded r_def]
  have e: "bitmap r = bitmap s2" "total_pages r = total_pages s2" "used_pages r = used_pages s2" "mem r = mem s2"
    "current_pml4_phys r = current_pml4_phys s2" by (simp_all add: c)
  show "heap_ok r" "12 \<le> card (free_pages r)" using heap_ok_same[OF e] k2(2,5) k1(5) room by simp_all
  show "\<forall>k < 16384. translation r (stack + of_nat k) \<noteq> None" using k2(4) by (simp add: translation_def e)
  have "unat (16384 :: u64) \<le> MAX_REQUEST" by simp
  then show "tasks_ok r" unfolding r_def by (rule tasks_ok_create[OF tok])
  have "all_tasks r = all_tasks s @ [t]"
    using inv nz(1) c(4,5) by (intro all_tasks_append) (simp_all add: task_inv_def)
  then show "all_tasks r = [HEAP_START, t]" by (simp add: all)
  have "t \<noteq> HEAP_START" by (simp add: t_def)
  then show "tcbs r HEAP_START = tcbs s HEAP_START" by (simp add: c(2))
  show "current_task r = HEAP_START" "task_count_val r = 2" "pid (tcbs r t) = 1"
    "task_st (tcbs r t) = TASK_STATE_READY" "task_name (tcbs r t) = name_field name" "stack_base (tcbs r t) = stack"
    "frames r (task_regs (tcbs r t)) = initial_frame entry (task_regs (tcbs r t))"
    by (simp_all add: c all new_tcb_def)
  have "in_heap stack" "unat stack mod 16 = 0" "unat stack + unat (16384 :: u64) < 0xFFFF800001000000" "208 \<le> unat (16384 :: u64)"
    by (simp_all add: in_heap_def stack_def)
  from frame_top_bounds(1)[OF this]
  show "unat (task_regs (tcbs r t)) + 208 \<le> unat stack + 16384" "unat stack \<le> unat (task_regs (tcbs r t))"
    by (simp_all add: c(2) new_tcb_def)
qed

section \<open>The phases together\<close>

lemma boot_devices_memory:
  fixes s :: "'a sys_state_scheme"
  shows "mem (boot_devices dev s) = mem s" "bitmap (boot_devices dev s) = bitmap s"
    "total_pages (boot_devices dev s) = total_pages s" "used_pages (boot_devices dev s) = used_pages s"
    "current_pml4_phys (boot_devices dev s) = current_pml4_phys s"
    "heap_current_ptr (boot_devices dev s) = heap_current_ptr s" "heap_total_alloc (boot_devices dev s) = heap_total_alloc s"
    "tcbs (boot_devices dev s) = tcbs s" "frames (boot_devices dev s) = frames s" "task_list (boot_devices dev s) = task_list s"
    "task_count_val (boot_devices dev s) = task_count_val s" "current_task (boot_devices dev s) = current_task s"
    "next_pid (boot_devices dev s) = next_pid s" "pit_ticks (boot_devices dev s) = pit_ticks s"
proof -
  have p: "port_only u (pic_clear_mask dev i u)" for i and u :: "'a sys_state_scheme" by (rule port_only_mask)
  obtain es where e1: "keyboard_irq_init dev (pit_init s) = (pit_init s)\<lparr>kb_buffer_read := 0, kb_buffer_write := 0,
      irq_handlers := (irq_handlers (pit_init s))[1 := KEYBOARD_IRQ_HANDLER], hw_trace := es\<rparr>"
    using p unfolding keyboard_irq_init_eq port_only_def by fastforce
  obtain es' where e2: "boot_devices dev s =
      (emit Sti (pit_enable_scheduler (keyboard_irq_init dev (pit_init s))))\<lparr>hw_trace := es'\<rparr>"
    using p unfolding boot_devices_def port_only_def by blast
  obtain i h where q: "pit_init s = s\<lparr>irq_handlers := i, hw_trace := h\<rparr>"
    by (simp add: pit_init_def irq_install_handler_def outb_def emit_def Let_def)
  note e = e2[unfolded e1, unfolded q pit_enable_scheduler_def emit_def]
  show "mem (boot_devices dev s) = mem s" "bitmap (boot_devices dev s) = bitmap s"
    "total_pages (boot_devices dev s) = total_pages s" "used_pages (boot_devices dev s) = used_pages s"
    "current_pml4_phys (boot_devices dev s) = current_pml4_phys s"
    "heap_current_ptr (boot_devices dev s) = heap_current_ptr s" "heap_total_alloc (boot_devices dev s) = heap_total_alloc s"
    "tcbs (boot_devices dev s) = tcbs s" "frames (boot_devices dev s) = frames s" "task_list (boot_devices dev s) = task_list s"
    "task_count_val (boot_devices dev s) = task_count_val s" "current_task (boot_devices dev s) = current_task s"
    "next_pid (boot_devices dev s) = next_pid s" "pit_ticks (boot_devices dev s) = pit_ticks s"
    by (simp_all add: e)
qed

text \<open>The first phase reads and writes the screen, the ports and the tables of the processor.\<close>

lemma boot_tables_memory:
  fixes s :: "'a sys_state_scheme" and L :: layout and dev :: device
  defines "d \<equiv> idt_init (l_stub L) (l_idt L) (l_idtp L) (boot_pics dev L s)"
  shows "mem d = mem s" "cr3 d = cr3 s" "pit_ticks d = pit_ticks s" "irq_handlers d = irq_handlers s"
proof -
  define v where "v = vga_clear (vga_set_color VGA_WHITE VGA_BLACK s)"
  define q where "q = for_up 16 0 (pic_set_mask dev) (pic_remap dev 32 40 v)"
  have "vga_only s v" unfolding v_def by (rule vga_only_trans[OF vga_only_set_color vga_only_clear])
  then obtain h b x y c where v: "v = s\<lparr>hw_trace := h, vga_buffer := b, vga_cursor_x := x, vga_cursor_y := y,
      vga_color := c\<rparr>" by (rule vga_onlyE)
  have "port_only v (pic_remap dev 32 40 v)" by (rule port_only_remap)
  also have "port_only \<dots> q" unfolding q_def
    by (rule for_up_relation[of port_only]) (auto intro: port_only_refl port_only_trans port_only_mask)
  finally obtain es where q: "q = v\<lparr>hw_trace := es\<rparr>" unfolding port_only_def by blast
  define u where "u = tss_init (l_df_stack L) 8192 q"
  define g where "g = gdt_init (l_tss L) SIZEOF_TSS (l_gdt L) (l_gdt_ptr L) u"
  have g': "boot_pics dev L s = g" by (simp add: boot_pics_def g_def u_def q_def v_def)
  obtain i ip h where "d = g\<lparr>idtp := ip, idt := i, hw_trace := h\<rparr>"
  proof -
    let ?f = "\<lambda>v. if v = 8 then idt_set_gate_ist 8 (l_stub L 8) 0x08 IDT_TYPE_INTERRUPT 1
      else idt_set_gate (of_nat v) (l_stub L v) 0x08 IDT_TYPE_INTERRUPT"
    have f: "\<exists>i. fold ?f vs w = w\<lparr>idt := i\<rparr>" for vs and w :: "'a sys_state_scheme"
    proof (induction vs arbitrary: w)
      case Nil
      show ?case by (rule exI[of _ "idt w"]) simp
    next
      case (Cons v vs)
      have "\<exists>j. ?f v w = w\<lparr>idt := j\<rparr>"
        unfolding idt_set_gate_def idt_set_gate_ist_def by (cases "v = 8"; simp only: refl simp_thms if_True if_False; rule exI; rule refl)
      then obtain j where "?f v w = w\<lparr>idt := j\<rparr>" by blast
      then show ?case using Cons.IH[of "w\<lparr>idt := j\<rparr>"] by auto
    qed
    let ?g = "g\<lparr>idtp := \<lparr>ptr_limit = 16 * of_nat IDT_ENTRIES - 1, ptr_base = l_idt L\<rparr>,
        idt := replicate IDT_ENTRIES zero_gate\<rparr>"
    obtain i where i: "fold ?f [0..<48] ?g = ?g\<lparr>idt := i\<rparr>" using f by blast
    have "d = ?g\<lparr>idt := i\<rparr>\<lparr>hw_trace := hw_trace (?g\<lparr>idt := i\<rparr>) @ [Lidt (l_idtp L)]\<rparr>"
      unfolding d_def g' idt_init_def Let_def emit_def i ..
    then show thesis by (intro that) simp
  qed
  then show "mem d = mem s" "cr3 d = cr3 s" "pit_ticks d = pit_ticks s" "irq_handlers d = irq_handlers s"
    by (simp_all add: g_def u_def q v gdt_init_def tss_init_def emit_def Let_def)
qed

lemma boot_quiet_memory:
  fixes s :: "'a sys_state_scheme" and e c :: u64
  defines "b \<equiv> print_banner (syscall_init e c s)"
  shows "heap_ok b = heap_ok s" "free_pages b = free_pages s" "ptr_ok b = ptr_ok s"
    "heap_current_ptr b = heap_current_ptr s" "pit_ticks b = pit_ticks s"
proof -
  define y where "y = syscall_init e c s"
  have y: "bitmap y = bitmap s" "total_pages y = total_pages s" "used_pages y = used_pages s" "mem y = mem s"
    "current_pml4_phys y = current_pml4_phys s" "heap_current_ptr y = heap_current_ptr s"
    "heap_total_alloc y = heap_total_alloc s" "pit_ticks y = pit_ticks s"
    by (simp_all add: y_def syscall_init_def Let_def emit_def)
  obtain h w x z k where b: "b = y\<lparr>hw_trace := h, vga_buffer := w, vga_cursor_x := x, vga_cursor_y := z, vga_color := k\<rparr>"
    using vga_only_banner[of y] unfolding b_def y_def[symmetric] by (rule vga_onlyE)
  have f: "bitmap b = bitmap s" "total_pages b = total_pages s" "used_pages b = used_pages s" "mem b = mem s"
    "current_pml4_phys b = current_pml4_phys s" by (simp_all add: b y)
  show "heap_ok b = heap_ok s" "free_pages b = free_pages s" by (rule heap_ok_same[OF f])+
  show "ptr_ok b = ptr_ok s" "heap_current_ptr b = heap_current_ptr s" "pit_ticks b = pit_ticks s"
    by (simp_all add: b y ptr_ok_def)
qed

definition boot_ok :: "layout \<Rightarrow> 'a sys_state_scheme \<Rightarrow> bool" where
  "boot_ok L s \<longleftrightarrow> boot_map_ok (l_kernel_start L) (l_kernel_end L) (mem s) \<and> 0x100000 \<le> unat (l_kernel_end L) \<and>
     boot_tables_ok (mem s) (cr3 s) \<and> ram_pages (mem s) \<le> 2 ^ 40 \<and> 64 \<le> card (boot_free L (mem s)) \<and>
     irq_handlers s = replicate 16 NO_HANDLER \<and> pit_ticks s = 0"

lemma kernel_main_tasks:
  fixes s :: "'a sys_state_scheme" and L :: layout and dev :: device
  assumes boot: "boot_ok L s"
  defines "r \<equiv> kernel_main dev L s" and "shell \<equiv> HEAP_START + 80" and "stack \<equiv> HEAP_START + 160"
  shows "heap_ok r" "tasks_ok r" "all_tasks r = [HEAP_START, shell]" "current_task r = HEAP_START"
    "pid (tcbs r HEAP_START) = 0" "task_st (tcbs r HEAP_START) = TASK_STATE_RUNNING"
    "pid (tcbs r shell) = 1" "task_st (tcbs r shell) = TASK_STATE_READY" "task_name (tcbs r shell) = name_field (cstr ''shell'')"
    "stack_base (tcbs r shell) = stack"
    "frames r (task_regs (tcbs r shell)) = initial_frame (l_shell_task L) (task_regs (tcbs r shell))"
    "\<forall>k < 16384. translation r (stack + of_nat k) \<noteq> None"
    "unat (task_regs (tcbs r shell)) + 208 \<le> unat stack + 16384" "unat stack \<le> unat (task_regs (tcbs r shell))"
    "irq_setup r" "pit_ticks r = 0" "task_count_val r = 2" "12 \<le> card (free_pages r)"
proof -
  define d where "d = idt_init (l_stub L) (l_idt L) (l_idtp L) (boot_pics dev L s)"
  note d = boot_tables_memory[of L dev s, folded d_def]
  define m where "m = boot_memory L d"
  define b where "b = print_banner (syscall_init (l_syscall_entry L) (l_cpu_data L) m)"
  note q = boot_quiet_memory[of "l_syscall_entry L" "l_cpu_data L" m, folded b_def]
  define i where "i = task_init b"
  define t where "t = snd (task_create (cstr ''shell'') (l_shell_task L) 16384 i)"
  have tt: "t = boot_tasking L (syscall_init (l_syscall_entry L) (l_cpu_data L) m)"
    by (simp add: t_def i_def b_def boot_tasking_def)
  have r: "r = boot_devices dev t" by (simp only: r_def kernel_main_phases d_def m_def tt)
  have B: "boot_map_ok (l_kernel_start L) (l_kernel_end L) (mem d)" "0x100000 \<le> unat (l_kernel_end L)"
    "boot_tables_ok (mem d) (cr3 d)" "ram_pages (mem d) \<le> 2 ^ 40"
    using boot by (simp_all add: boot_ok_def d)
  note m = boot_memory_ok[OF B, folded m_def]
  have b: "heap_ok b" "ptr_ok b" "heap_current_ptr b = HEAP_START" "64 \<le> card (free_pages b)"
    using q m boot by (simp_all add: boot_ok_def d)
  have "12 \<le> card (free_pages b)" using b(4) by simp
  note i = boot_idle[OF b(1-3) this, folded i_def]
  have room: "52 \<le> card (free_pages i)" using b(4) i(10) by simp
  note t = boot_shell[OF i(1-7) room, of "cstr ''shell''" "l_shell_task L", folded t_def shell_def stack_def]
  note f = boot_devices_memory[of dev t, folded r]
  have e: "bitmap r = bitmap t" "total_pages r = total_pages t" "used_pages r = used_pages t" "mem r = mem t"
    "current_pml4_phys r = current_pml4_phys t" by (rule f)+
  show "heap_ok r" "12 \<le> card (free_pages r)" using heap_ok_same[OF e] t(1,15) by simp_all
  have all: "all_tasks r = all_tasks t" by (simp add: all_tasks_def f)
  show "tasks_ok r" using t(2) unfolding tasks_ok_def task_inv_def ptr_ok_def all f .
  show "all_tasks r = [HEAP_START, shell]" unfolding all by (rule t)
  show "\<forall>k < 16384. translation r (stack + of_nat k) \<noteq> None" using t(12) by (simp add: translation_def e)
  show "current_task r = HEAP_START" "pid (tcbs r HEAP_START) = 0" "task_st (tcbs r HEAP_START) = TASK_STATE_RUNNING"
    "pid (tcbs r shell) = 1" "task_st (tcbs r shell) = TASK_STATE_READY" "task_name (tcbs r shell) = name_field (cstr ''shell'')"
    "stack_base (tcbs r shell) = stack" "task_count_val r = 2"
    "frames r (task_regs (tcbs r shell)) = initial_frame (l_shell_task L) (task_regs (tcbs r shell))"
    "unat (task_regs (tcbs r shell)) + 208 \<le> unat stack + 16384" "unat stack \<le> unat (task_regs (tcbs r shell))"
    unfolding f using t i by simp_all
  have h: "irq_handlers t = irq_handlers d" unfolding tt m_def by (rule boot_middle)
  have "irq_handlers t = replicate 16 NO_HANDLER" using boot by (simp add: h d boot_ok_def)
  then show "irq_setup r" by (simp add: irq_setup_def r boot_devices_fields numeral_eq_Suc)
  have "os_only d m"
    unfolding m_def boot_memory_def
    by (rule os_only_trans[OF os_only_pmm_init os_only_same]) (simp_all add: heap_init_def vmm_init_def)
  moreover have "os_only b t" unfolding t_def i_def by (rule os_only_trans[OF os_only_task_init os_only_task_create])
  ultimately show "pit_ticks r = 0" using boot by (simp add: f q(5) os_only_def boot_ok_def d)
qed

section \<open>A machine with two megabytes\<close>

text \<open>One usable megabyte above the first, an empty root table at 0x1000.\<close>

definition boot_memory_map :: "u64 \<Rightarrow> u8" where
  "boot_memory_map = (\<lambda>_. 0)(0x10000 := 1, 0x10004 := 0x10, 0x1000C := 0x10, 0x10012 := 1)"

lemma boot_map_entries:
  "memory_map_entry_count boot_memory_map = 1"
  "map_entry boot_memory_map 0 = \<lparr>e_base = 0x100000, e_length = 0x100000, e_type = 1, e_reserved = 0\<rparr>"
  by code_simp+

lemma boot_map_ram: "ram_pages boot_memory_map = 512" "usable_pages boot_memory_map 1 = {256..<512}"
proof -
  have "{..<map_count boot_memory_map} = {0}" by (auto simp: boot_map_entries)
  then show "ram_pages boot_memory_map = 512"
    by (simp add: ram_pages_def boot_map_entries entry_end_def)
  have "{i. i < 1 \<and> e_type (map_entry boot_memory_map i) = 1} = {0}" by (auto simp: boot_map_entries)
  then show "usable_pages boot_memory_map 1 = {256..<512}"
    by (simp add: usable_pages_def boot_map_entries)
qed

text \<open>A root table at 0x1000 in memory that is zero below 0x10000.\<close>

lemma zero_root: "pte_at m 0x1000 i = 0" if "\<forall>a. unat a < 0x10000 \<longrightarrow> m a = 0" and "i < 512"
proof -
  have al: "page_aligned 0x1000" by (simp add: page_aligned_def)
  have "pte_at m 0x1000 i = pte_at (\<lambda>_. 0) 0x1000 i"
  proof (rule pte_at_cong[OF al that(2)])
    fix a :: u64 assume "a \<in> frame_bytes (unat (0x1000 :: u64) div 4096)"
    then have "unat a div 4096 = 1" by (simp add: frame_bytes_def)
    then have "unat a < 0x10000" by linarith
    then show "m a = 0" using that(1) by blast
  qed
  also have "\<dots> = 0" by (rule bit_word_eqI) (simp add: pte_at_def bit_load_le)
  finally show ?thesis .
qed

lemma zero_root_ok: "boot_tables_ok m 0x1000" if "\<forall>a. unat a < 0x10000 \<longrightarrow> m a = 0"
proof -
  note z = zero_root[OF that]
  have root: "table_of m 0x1000 q = (if q = [] then Some 0x1000 else None)" "tree_of m 0x1000 q = 0" for q
    using empty_root[of m "0x1000" q] z by simp_all
  show ?thesis
    by (auto simp: boot_tables_ok_def tables_separate_def root page_aligned_def z split: if_splits)
qed

lemma boot_map_low: "\<forall>a. unat a < 0x10000 \<longrightarrow> boot_memory_map a = 0"
proof (intro allI impI)
  fix a :: u64 assume "unat a < 0x10000"
  then have "a \<noteq> c" if "0x10000 \<le> unat c" for c using that by auto
  then show "boot_memory_map a = 0" by (simp add: boot_memory_map_def)
qed

lemma power_on_ok: "boot_ok example_layout (power_on boot_memory_map 0x1000)"
proof -
  have p: "mem (power_on boot_memory_map 0x1000) = boot_memory_map" "cr3 (power_on boot_memory_map 0x1000) = 0x1000"
    "irq_handlers (power_on boot_memory_map 0x1000) = replicate 16 NO_HANDLER" "pit_ticks (power_on boot_memory_map 0x1000) = 0"
    by (simp_all add: power_on_def)
  have t: "boot_tables_ok boot_memory_map 0x1000" by (rule zero_root_ok[OF boot_map_low])
  have l: "l_kernel_start example_layout = 0x100000" "l_kernel_end example_layout = 0x110000"
    by (simp_all add: example_layout_def)
  have e: "reserved_end boot_memory_map 0x110000 = 273" by (simp add: reserved_end_def bitmap_start_def boot_map_ram)
  have "boot_map_ok 0x100000 0x110000 boot_memory_map"
    by (simp add: boot_map_ok_def boot_map_ram e boot_map_entries entry_end_def)
  moreover have "boot_free example_layout boot_memory_map = {273..<512}"
    by (auto simp: boot_free_def l e boot_map_entries boot_map_ram[unfolded One_nat_def])
  ultimately show ?thesis using t by (simp add: boot_ok_def p l boot_map_ram)
qed

section \<open>Properties\<close>

text \<open>
  C3: from a well-formed boot memory map, boot page tables in the first megabyte that leave
  the heap's slot empty, and 64 free frames, \<^verbatim>\<open>kernel_main\<close> always brings up a running system:
  the managers' invariants hold, the task table holds the idle task, running, and the shell,
  ready, whose 16 KiB stack is mapped and carries a frame that enters the shell, and the
  shell has the processor after at most ten timer interrupts, whatever else happens.
\<close>

theorem boot_starts_shell:
  assumes "boot_ok L s"
  shows "let r = kernel_main dev L s; idle = HEAP_START; shell = HEAP_START + 80 in
    heap_ok r \<and> tasks_ok r \<and> all_tasks r = [idle, shell] \<and> current_task r = idle \<and>
    pid (tcbs r idle) = 0 \<and> task_st (tcbs r idle) = TASK_STATE_RUNNING \<and>
    pid (tcbs r shell) = 1 \<and> task_st (tcbs r shell) = TASK_STATE_READY \<and>
    task_name (tcbs r shell) = name_field (cstr ''shell'') \<and>
    frames r (task_regs (tcbs r shell)) = initial_frame (l_shell_task L) (task_regs (tcbs r shell)) \<and>
    (\<forall>k < 16384. translation r (stack_base (tcbs r shell) + of_nat k) \<noteq> None) \<and>
    unat (stack_base (tcbs r shell)) \<le> unat (task_regs (tcbs r shell)) \<and>
    unat (task_regs (tcbs r shell)) + 208 \<le> unat (stack_base (tcbs r shell)) + 16384 \<and>
    (\<forall>dev' es. (\<forall>e \<in> set es. valid_event e) \<and> 10 \<le> length (filter is_timer es) \<and> length es < 2 ^ 64 \<longrightarrow>
       (\<exists>j \<le> length es. current_task (sys_run dev' (take j es) r) = shell))"
proof -
  define r where "r = kernel_main dev L s"
  define shell where "shell = HEAP_START + 80"
  note k = kernel_main_tasks[OF assms, of dev, folded r_def shell_def]
  have inv: "task_inv r" using k(2) by (simp add: tasks_ok_def)
  have "start_index r = 1" using start_index_current[OF inv, of 0] k(3,4,17) by simp
  then have c: "candidate r 0 = shell" by (simp add: candidate_def k(3,17))
  have run: "\<exists>j \<le> length es. current_task (sys_run dev' (take j es) r) = shell"
    if "\<forall>e \<in> set es. valid_event e" "10 \<le> length (filter is_timer es)" "length es < 2 ^ 64" for dev' es
  proof (rule preempted_within[OF inv k(15) _ _ c])
    show "0 < switches_due (unat (pit_ticks r)) (length (filter is_timer es))"
      using that(2) by (simp add: k(16) switches_due_def div_greater_zero_iff)
  qed (use that k(3,7,8,16) in \<open>simp_all add: runnable_def\<close>)
  show ?thesis
    unfolding Let_def r_def[symmetric] shell_def[symmetric] using k run by simp
qed

lemma boot_starts_shell_witness:
  "all_tasks (kernel_main pic_device example_layout (power_on boot_memory_map 0x1000)) = [HEAP_START, HEAP_START + 80] \<and>
   (\<exists>j \<le> 10. current_task (sys_run pic_device (take j (replicate 10 (Interrupt 0x7000 (interrupt_frame 32))))
      (kernel_main pic_device example_layout (power_on boot_memory_map 0x1000))) = HEAP_START + 80)"
proof -
  define es where "es = replicate 10 (Interrupt 0x7000 (interrupt_frame 32))"
  have "is_timer (Interrupt 0x7000 (interrupt_frame 32))" by (simp add: is_timer_def)
  then have es: "length (filter is_timer es) = 10" "length es = 10" "\<forall>e \<in> set es. valid_event e"
    by (simp_all add: es_def valid_event_def)
  have "10 \<le> length (filter is_timer es)" "length es < 2 ^ 64" using es by simp_all
  then show ?thesis
    using boot_starts_shell[OF power_on_ok, of pic_device] es(2,3) unfolding Let_def es_def[symmetric] by metis
qed

end
