(* ===== verification/VirtMem.thy ===== *)
theory VirtMem
  imports Commands BootTasks
begin

text \<open>
  Memory behind virtual addresses: writes to memory that no table, bitmap or free frame
  occupies keep the address space, and what a mapped page of its own frame is good for. The
  commands that test the memory managers rest on it.
\<close>

section \<open>Writes outside the managers' memory\<close>

text \<open>The bytes that belong to neither the bitmap nor a table: of use, or in a free frame.\<close>

definition plain_bytes :: "'a vmm_state_scheme \<Rightarrow> u64 set" where
  "plain_bytes s = {a. a \<notin> bitmap_bytes s \<and> (\<forall>p t. tables s p = Some t \<longrightarrow> unat t div 4096 \<noteq> unat a div 4096)}"

lemma kept_plain: "kept_bytes s \<subseteq> plain_bytes s"
  by (auto simp: kept_bytes_def plain_bytes_def)

lemma plain_write:
  fixes s :: "'a vmm_state_scheme"
  assumes inv: "vmm_inv s" and m: "\<forall>a. a \<notin> plain_bytes s \<longrightarrow> m a = mem s a"
  defines "t \<equiv> s\<lparr>mem := m\<rparr>"
  shows "vmm_inv t" "tables t = tables s" "pt_tree t = pt_tree s" "free_pages t = free_pages s"
    "bitmap_bytes t = bitmap_bytes s"
proof -
  note D = vmm_invD[OF inv]
  have f: "bitmap t = bitmap s" "total_pages t = total_pages s" "used_pages t = used_pages s"
    "current_pml4_phys t = current_pml4_phys s" "mem t = m" by (simp_all add: t_def)
  have "mem t a = mem s a" if "a \<in> bitmap_bytes s" for a
    using m that by (simp add: f(5) plain_bytes_def)
  note same = pmm_same[OF f(1-3), OF this]
  have keep: "page_aligned u \<and> (\<forall>a \<in> frame_bytes (unat u div 4096). mem t a = mem s a)"
    if "tables s q = Some u" for q u
  proof -
    have "a \<notin> plain_bytes s" if "a \<in> frame_bytes (unat u div 4096)" for a
      using that \<open>tables s q = Some u\<close> by (auto simp: plain_bytes_def frame_bytes_def)
    then show ?thesis using D(4)[OF that] m by (simp add: f(5))
  qed
  note tc = table_of_cong[of "mem s" "current_pml4_phys s" "mem t", OF keep]
  have tab: "tables t q = tables s q" and tree: "pt_tree t q = pt_tree s q" for q
    by (simp_all add: tc f(4))
  then show "tables t = tables s" "pt_tree t = pt_tree s" by (simp_all add: fun_eq_iff)
  have sep: "tables_separate (mem t) (current_pml4_phys t)" using D(3) by (simp add: tables_separate_def tab)
  show "free_pages t = free_pages s" "bitmap_bytes t = bitmap_bytes s" by (simp_all only: same)
  show "vmm_inv t" using inv sep by (simp add: vmm_inv_def tab tree same f(2))
qed

lemma same_tree:
  assumes "vmm_inv s" and "vmm_inv t" and "pt_tree t = pt_tree s"
  shows "translation t = translation s" "small_path t = small_path s" "missing_tables t = missing_tables s"
  by (rule ext, simp only: translation_tree[OF assms(1)] translation_tree[OF assms(2)] small_path_def missing_tables_def assms(3))+

lemma kept_write:
  fixes s :: "'a vmm_state_scheme"
  assumes inv: "vmm_inv s" and m: "\<forall>a. a \<notin> kept_bytes s \<longrightarrow> m a = mem s a"
  defines "t \<equiv> s\<lparr>mem := m\<rparr>"
  shows "vmm_inv t" "translation t = translation s" "small_path t = small_path s" "free_pages t = free_pages s"
    "missing_tables t = missing_tables s" "kept_bytes t = kept_bytes s"
proof -
  have "\<forall>a. a \<notin> plain_bytes s \<longrightarrow> m a = mem s a" using m kept_plain[of s] by blast
  note p = plain_write[OF inv this, folded t_def]
  show "vmm_inv t" "free_pages t = free_pages s" by (rule p)+
  show "translation t = translation s" "small_path t = small_path s" "missing_tables t = missing_tables s"
    by (rule same_tree[OF inv p(1,3)])+
  show "kept_bytes t = kept_bytes s" by (rule kept_bytes_eq[OF p(5,4)]) (simp only: p(2))
qed

lemma heap_ok_write:
  fixes s :: "'a heap_state_scheme"
  assumes ok: "heap_ok s" and m: "\<forall>a. a \<notin> kept_bytes s \<longrightarrow> m a = mem s a"
  shows "heap_ok (s\<lparr>mem := m\<rparr>)"
proof -
  have inv: "vmm_inv s" using ok by (simp add: heap_ok_def)
  show ?thesis using ok kept_write(1)[OF inv m] unfolding heap_ok_def kept_write(2-6)[OF inv m] by blast
qed

text \<open>A store of \<open>n\<close> bytes through a translation, and the load that follows it.\<close>

lemma virt_store_mapped:
  fixes s :: "'a sys_state_scheme" and v :: "'w::len word"
  assumes inv: "vmm_inv s" and va: "translation s va = Some pa" and kept: "\<forall>i < n. pa + of_nat i \<in> kept_bytes s"
  defines "t \<equiv> s\<lparr>mem := store_le n v pa (mem s)\<rparr>"
  shows "virt_store n v va s = Inr t" "vmm_inv t" "translation t = translation s" "small_path t = small_path s"
    "free_pages t = free_pages s" "kept_bytes t = kept_bytes s" "missing_tables t = missing_tables s"
    "\<forall>i < n. a \<noteq> pa + of_nat i \<Longrightarrow> mem t a = mem s a" "mm_only s t" "total_pages t = total_pages s"
    "LENGTH('w) \<le> 8 * n \<Longrightarrow> n \<le> 256 \<Longrightarrow> virt_load n va t = Inr v"
proof -
  have out: "\<forall>a. a \<notin> kept_bytes s \<longrightarrow> store_le n v pa (mem s) a = mem s a"
    using kept by (auto intro: store_le_other)
  note k = kept_write[OF inv out, folded t_def]
  show "vmm_inv t" "translation t = translation s" "small_path t = small_path s"
    "free_pages t = free_pages s" "kept_bytes t = kept_bytes s" "missing_tables t = missing_tables s" by (rule k)+
  show "virt_store n v va s = Inr t" by (simp add: virt_store_def va t_def)
  show "virt_load n va t = Inr v" if "LENGTH('w) \<le> 8 * n" "n \<le> 256"
    using that by (simp add: virt_load_def k(2) va) (simp add: t_def)
  show "mem t a = mem s a" if "\<forall>i < n. a \<noteq> pa + of_nat i"
    using store_le_other[of n a pa v "mem s"] that by (simp add: t_def)
  show "mm_only s t" "total_pages t = total_pages s" by (simp_all add: t_def)
qed

section \<open>Mapping a fresh frame\<close>

lemma page_start: "unat (va :: u64) mod 4096 = 0 \<Longrightarrow> va AND 0xFFF = 0"
  using unat_page_offset[of va] by (simp add: word_unat_eq_iff)

lemma frame_start: "f < 2 ^ 52 \<Longrightarrow> unat (va :: u64) mod 4096 = 0 \<Longrightarrow>
    (frame_addr f AND NOT 0xFFF) OR (va AND 0xFFF) = frame_addr f"
  using page_aligned_frame[of f] by (simp add: page_start page_aligned_iff)

lemma in_frame_bytes: "f < 2 ^ 52 \<Longrightarrow> i < 4096 \<Longrightarrow> frame_addr f + of_nat i \<in> frame_bytes f"
proof -
  assume f: "f < 2 ^ 52" and i: "i < 4096"
  have "unat (frame_addr f + of_nat i) = f * 4096 + i"
    using unat_index_add[of "frame_addr f" i] f i by (simp add: unat_frame_addr)
  then show ?thesis using i by (simp add: frame_bytes_def)
qed

text \<open>A page-aligned address, the frame \<open>f\<close> that a task owns, and the page mapped to it.\<close>

lemma map_own_frame:
  fixes s :: "'a vmm_state_scheme"
  assumes inv: "vmm_inv s" and small: "small_path s va" and room: "missing_tables s va \<le> card (free_pages s)"
    and f: "f < 2 ^ 52" "frame_bytes f \<subseteq> kept_bytes s" and al: "unat va mod 4096 = 0"
    and pa: "drop_bit 52 (frame_addr f) = 0" and fl: "ucast flags AND NOT 0xFFF = (0 :: u64)"
  defines "t \<equiv> vmm_map_page va (frame_addr f) flags s"
  shows "vmm_inv t" "translation t = mapped_as va (frame_addr f) (translation s)"
    "translation t va = Some (frame_addr f)" "vmm_virt_to_phys va t = (frame_addr f, t)"
    "small_path s va' \<Longrightarrow> small_path t va'" "kept_bytes s \<subseteq> kept_bytes t" "frame_bytes f \<subseteq> kept_bytes t"
    "card (free_pages t) + missing_tables s va = card (free_pages s)" "a \<in> kept_bytes s \<Longrightarrow> mem t a = mem s a"
    "\<exists>m h p. t = s\<lparr>mem := m, hw_trace := h, used_pages := p\<rparr>"
proof -
  note m = vmm_map_page_mapped[OF inv small room pa fl, folded t_def]
  show "vmm_inv t" "translation t = mapped_as va (frame_addr f) (translation s)" "kept_bytes s \<subseteq> kept_bytes t"
    "card (free_pages t) + missing_tables s va = card (free_pages s)" "a \<in> kept_bytes s \<Longrightarrow> mem t a = mem s a"
    by (rule m)+
  show "\<exists>m h p. t = s\<lparr>mem := m, hw_trace := h, used_pages := p\<rparr>" by (rule m(9))
  show "frame_bytes f \<subseteq> kept_bytes t" using f(2) m(7) by blast
  show tr: "translation t va = Some (frame_addr f)" using frame_start[OF f(1) al] by (simp add: m(2) mapped_as_def)
  show sm: "small_path t va'" if "small_path s va'" for va'
    unfolding t_def by (rule vmm_map_page_small[OF inv small room pa fl that])
  show "vmm_virt_to_phys va t = (frame_addr f, t)"
    using vmm_virt_to_phys_small[OF m(1) sm[OF small]] tr by simp
qed

lemma unmap_own_page:
  fixes s :: "'a vmm_state_scheme"
  assumes inv: "vmm_inv s" and small: "small_path s va"
  defines "t \<equiv> vmm_unmap_page va s"
  shows "vmm_inv t" "translation t va' = (if vpn va' = vpn va then None else translation s va')"
    "small_path s va' \<Longrightarrow> small_path t va'" "free_pages t = free_pages s" "kept_bytes t = kept_bytes s"
    "a \<in> kept_bytes s \<Longrightarrow> mem t a = mem s a" "vmm_virt_to_phys va t = (0, t)"
proof -
  note u = vmm_unmap_page_small[OF inv small, folded t_def]
  show "vmm_inv t" "translation t va' = (if vpn va' = vpn va then None else translation s va')" "free_pages t = free_pages s"
    "a \<in> kept_bytes s \<Longrightarrow> mem t a = mem s a" using u by simp_all
  have k: "kept_bytes t = kept_bytes s \<and> (small_path s va' \<longrightarrow> small_path t va')" for va'
    using small
  proof (cases rule: vmm_unmap_page_cases)
    case none
    then show ?thesis by (simp add: t_def)
  next
    case (leaf pt)
    have z: "drop_bit 52 (0 :: u64) = 0" by simp
    note st = vmm_leaf_store[OF inv leaf(1) small_path_tables[OF small leaf(1)] z]
    let ?u = "s\<lparr>mem := write64 0 (pt + 8 * PT_INDEX va) (mem s)\<rparr>"
    have e: "kept_bytes (emit x w) = kept_bytes w" "small_path (emit x w) = small_path w" for x and w :: "'a vmm_state_scheme"
      by (simp_all add: kept_bytes_def small_path_def fun_eq_iff)
    show ?thesis using st(5) small_path_leaf[OF st(2), of va'] by (simp add: t_def leaf(3) e)
  qed
  then show "kept_bytes t = kept_bytes s" "small_path s va' \<Longrightarrow> small_path t va'" by blast+
  have "small_path t va" using k small by blast
  then show "vmm_virt_to_phys va t = (0, t)" using vmm_virt_to_phys_small[of t va] u by simp
qed

section \<open>Giving a frame back\<close>

text \<open>A frame that belongs to neither the bitmap nor a table can be freed.\<close>

lemma vmm_free_frame:
  fixes s :: "'a vmm_state_scheme"
  assumes inv: "vmm_inv s" and f: "0 < f" "f < unat (total_pages s)" "frame_bytes f \<subseteq> kept_bytes s"
  defines "t \<equiv> pmm_free_page (frame_addr f) s"
  shows "vmm_inv t" "free_pages t = insert f (free_pages s)" "f \<notin> free_pages s"
    "translation t = translation s" "small_path t = small_path s" "missing_tables t = missing_tables s"
    "kept_bytes t = kept_bytes s - frame_bytes f" "a \<in> kept_bytes s \<Longrightarrow> mem t a = mem s a"
proof -
  note D = vmm_invD[OF inv]
  have f40: "f < 2 ^ 40" using f(2) D(8) by linarith
  have uf: "unat (frame_addr f div PAGE_SIZE) = f" using unat_frame_div[of f] f40 by simp
  have start: "unat (frame_addr f) div 4096 = f" using unat_frame_addr[of f] f40 by simp
  then have own: "frame_addr f \<in> kept_bytes s" using f(3) by (auto simp: frame_bytes_def)
  show nf: "f \<notin> free_pages s" using own by (simp add: kept_bytes_def start)
  then have used: "page_used s f" using f(2) by (simp add: free_pages_def)
  have t: "t = bm_clear (frame_addr f div PAGE_SIZE) s"
    using used uf by (simp add: t_def pmm_free_page_def pmm_release_def bm_test_iff)
  have pf: "free_pages t = insert f (free_pages s)" "pmm_inv t"
    using pmm_free_page_frame[OF D(1) f(2,1)] by (simp_all add: t_def)
  show "free_pages t = insert f (free_pages s)" by (rule pf)
  have fields: "current_pml4_phys t = current_pml4_phys s" "total_pages t = total_pages s"
    "bitmap t = bitmap s" "bitmap_bytes t = bitmap_bytes s" by (simp_all add: t bm_clear_def bitmap_bytes_def)
  have out: "mem t a = mem s a" if "a \<notin> bitmap_bytes s" for a
    using that page_byte_in_bitmap[of "frame_addr f div PAGE_SIZE" s] f(2) uf
    by (auto simp: t bm_clear_def)
  have keep: "page_aligned u \<and> (\<forall>a \<in> frame_bytes (unat u div 4096). mem t a = mem s a)"
    if "tables s q = Some u" for q u
    using D(4)[OF that] D(6)[OF that] out by blast
  have tab: "tables t q = tables s q" and tree: "pt_tree t q = pt_tree s q" for q
    using table_of_cong[of "mem s" "current_pml4_phys s" "mem t", OF keep] by (simp_all add: fields)
  have nt: "unat u div 4096 \<noteq> f" if "tables s q = Some u" for q u
    using own that by (auto simp: kept_bytes_def start)
  have "bitmap_safe t"
    using D(2) f(3) by (auto simp: bitmap_safe_def fields pf kept_bytes_def frame_bytes_def)
  moreover have "tables_separate (mem t) (current_pml4_phys t)"
    using D(3) by (simp add: tables_separate_def tab)
  ultimately show inv': "vmm_inv t"
    using inv tab tree pf fields nt unfolding vmm_inv_def by auto
  show "translation t = translation s"
    using translation_tree[OF inv] translation_tree[OF inv'] tree by (simp add: fun_eq_iff tree_translate_def)
  show "small_path t = small_path s" by (simp add: fun_eq_iff small_path_def tree)
  have "pt_tree t = pt_tree s" using tree by (simp add: fun_eq_iff)
  then show "missing_tables t = missing_tables s" unfolding missing_tables_def by simp
  have tables: "tables t = tables s" using tab by (simp add: fun_eq_iff)
  show "kept_bytes t = kept_bytes s - frame_bytes f"
    unfolding kept_bytes_def frame_bytes_def tables fields(4) pf by blast
  show "a \<in> kept_bytes s \<Longrightarrow> mem t a = mem s a" using out by (simp add: kept_bytes_def)
qed

section \<open>Printing\<close>

lemma vga_only_view:
  fixes s t :: "'a vmm_state_scheme"
  assumes "vga_only s t"
  shows "vmm_inv t = vmm_inv s" "translation t = translation s" "small_path t = small_path s"
    "missing_tables t = missing_tables s" "kept_bytes t = kept_bytes s" "free_pages t = free_pages s"
    "mem t = mem s" "total_pages t = total_pages s"
  using vga_only_vmm[OF assms] vga_only_mem(1)[OF assms] vga_only_pmm[OF assms] by simp_all

lemmas vga_only_after = vga_only_trans[OF _ vga_only_print] vga_only_trans[OF _ vga_only_println]
  vga_only_trans[OF _ vga_only_print_hex] vga_only_trans[OF _ vga_only_print_dec]
  vga_only_trans[OF _ vga_only_print_colored] vga_only_refl

lemma mm_only_total: "mm_only s t \<Longrightarrow> total_pages t = total_pages s"
  by (auto simp: mm_only_def)

lemma mm_only_unmap [simp]: "mm_only s (vmm_unmap_page va s)"
proof (cases "vmm_get_pte_flags va False 0 s")
  case (Pair r s1)
  then have 1: "mm_only s s1" using mm_only_get_pte_flags[of s va False 0] by simp
  have "mm_only w (emit Mfence w)" "mm_only w (emit (Invlpg va) w)" for w :: "'a vmm_state_scheme" by simp_all
  then have "mm_only s (emit (Invlpg va) (emit Mfence (s1\<lparr>mem := m\<rparr>)))" for m
    by (intro mm_only_trans[OF mm_only_trans[OF mm_only_trans[OF 1 mm_only_step(1)]]])
  then show ?thesis
    using Pair 1 by (auto simp: vmm_unmap_page_def vmm_get_pte_def vmm_invlpg_def Let_def split: option.splits)
qed

lemma mm_only_free [simp]:
  fixes s :: "'a vmm_state_scheme"
  shows "mm_only s (pmm_free_page p s)"
proof -
  have "mm_only s (bm_clear i s)" for i
    by (rule mm_onlyI[where m = "mem (bm_clear i s)" and es = "[]" and b = "vga_buffer s"
          and x = "vga_cursor_x s" and y = "vga_cursor_y s" and c = "vga_color s" and p = "used_pages s - 1"])
      (simp_all add: bm_clear_def)
  then show ?thesis by (simp add: pmm_free_page_def pmm_release_def)
qed

section \<open>vmtest\<close>

text \<open>
  With a frame to spare the command always ends, and says that all tests passed. What it
  leaves behind: the page of the test address is unmapped, whatever was there before.
\<close>

lemma cmd_vmtest_effect:
  fixes s :: "'a sys_state_scheme"
  assumes inv: "vmm_inv s" and small: "small_path s VMTEST_ADDR" and room: "missing_tables s VMTEST_ADDR < card (free_pages s)"
  obtains u where "cmd_vmtest args s = CmdReturn u" and "mm_only s u" and "vmm_inv u"
    and "\<And>va. translation u va = (if vpn va = vpn VMTEST_ADDR then None else translation s va)"
    and "\<And>va. small_path s va \<Longrightarrow> small_path u va" and "kept_bytes s \<subseteq> kept_bytes u"
    and "\<And>a. a \<in> kept_bytes s \<Longrightarrow> mem u a = mem s a"
    and "card (free_pages u) + missing_tables s VMTEST_ADDR = card (free_pages s)"
proof -
  define s0 where "s0 = newline (line ''=== VMM Test ==='' (newline s))"
  have "vga_only s s0" unfolding s0_def by (intro vga_only_after)
  note v0 = this vga_only_view[OF this]
  have inv0: "vmm_inv s0" and ne: "free_pages s0 \<noteq> {}" using inv room by (auto simp: v0)
  define f where "f = Min (free_pages s0)"
  define p where "p = frame_addr f"
  define s1 where "s1 = bm_set (of_nat f) s0"
  note a1 = vmm_alloc_frame[OF inv0 ne, folded f_def, folded s1_def p_def]
  have f: "f \<in> free_pages s0" using ne by (simp add: f_def)
  note fb = free_frame_bounds[OF inv0 f, folded p_def]
  have tot: "f < unat (total_pages s0)" using free_pages_less[OF f] .
  define s2 where "s2 = newline (vga_print_hex VMTEST_ADDR (put ''  Mapping to virtual address: ''
      (newline (vga_print_hex p (put ''  Allocated physical page at: '' s1)))))"
  have "vga_only s1 s2" unfolding s2_def by (intro vga_only_after)
  note v2 = this vga_only_view[OF this]
  have tp1: "total_pages s1 = total_pages s0" by (simp add: s1_def)
  have inv2: "vmm_inv s2" and small2: "small_path s2 VMTEST_ADDR" using small by (simp_all add: v2 a1 v0)
  have c1: "card (free_pages s1) = card (free_pages s) - 1" using f by (simp add: a1 v0)
  then have room2: "missing_tables s2 VMTEST_ADDR \<le> card (free_pages s2)" using room by (simp add: v2 a1 v0)
  have own2: "frame_bytes f \<subseteq> kept_bytes s2" using a1(8) by (simp add: v2)
  have f52: "f < 2 ^ 52" using fb(2) by simp
  have al: "unat VMTEST_ADDR mod 4096 = 0" by simp
  have fl: "ucast (3 :: u32) AND NOT 0xFFF = (0 :: u64)" by simp
  define s3 where "s3 = vmm_map_page VMTEST_ADDR p 3 s2"
  note m3 = map_own_frame[OF inv2 small2 room2 f52 own2 al fb(6)[unfolded p_def] fl, folded p_def, folded s3_def]
  define s4 where "s4 = line ''  Writing test data via virtual address...'' (newline
      (verdict True ''  [PASS] Virtual to physical mapping correct!'' ''  [FAIL] Mapping mismatch!'' (newline
        (vga_print_hex p (put ''  Resolved physical address: '' (line ''  Mapping successful!'' s3))))))"
  have r3: "vmm_virt_to_phys VMTEST_ADDR w = (p, w)" if "vga_only s3 w" for w :: "'a sys_state_scheme"
  proof -
    note w = vga_only_view[OF that]
    have "vmm_inv w" "small_path w VMTEST_ADDR" unfolding w by (rule m3(1), rule m3(5)[OF small2])
    from vmm_virt_to_phys_small[OF this] show ?thesis unfolding w(2) m3(3) option.case .
  qed
  have "vga_only s3 s4" unfolding s4_def if_True by (intro vga_only_after)
  note v4 = this vga_only_view[OF this]
  have inv4: "vmm_inv s4" and tr4: "translation s4 VMTEST_ADDR = Some p" using m3 by (simp_all add: v4)
  have own4: "\<forall>i < 8. p + of_nat i \<in> kept_bytes s4"
    using in_frame_bytes[OF f52] m3(7) by (auto simp: v4 p_def)
  define s5 where "s5 = s4\<lparr>mem := store_le 8 (0xDEADBEEFCAFEBABE :: u64) p (mem s4)\<rparr>"
  note m5 = virt_store_mapped[OF inv4 tr4 own4, where v = "0xDEADBEEFCAFEBABE :: u64", folded s5_def]
  define s6 where "s6 = line ''  Unmapping page...'' (newline
      (verdict True ''  [PASS] Read/Write works correctly!'' ''  [FAIL] Read/Write failed!'' (newline
        (vga_print_hex 0xDEADBEEFCAFEBABE (put ''  Read value: '' s5)))))"
  have "vga_only s5 s6" unfolding s6_def if_True by (intro vga_only_after)
  note v6 = this vga_only_view[OF this]
  have inv6: "vmm_inv s6" and small6: "small_path s6 VMTEST_ADDR" using m5 m3 small2 by (simp_all add: v6 v4)
  define s7 where "s7 = vmm_unmap_page VMTEST_ADDR s6"
  note m7 = unmap_own_page[OF inv6 small6, folded s7_def]
  define s8 where "s8 = verdict True ''  [PASS] Unmapping successful!'' ''  [FAIL] Page still mapped!'' s7"
  have "vga_only s7 s8" unfolding s8_def if_True by (intro vga_only_after)
  note v8 = this vga_only_view[OF this]
  have "mm_only s s0" by (rule vga_only_mm[OF v0(1)])
  also have "mm_only s0 s1" by (simp add: s1_def)
  also have "mm_only s1 s2" by (rule vga_only_mm[OF v2(1)])
  also have "mm_only s2 s3" by (simp add: s3_def)
  also have "mm_only s3 s4" by (rule vga_only_mm[OF v4(1)])
  also have "mm_only s4 s5" by (rule m5(9))
  also have "mm_only s5 s6" by (rule vga_only_mm[OF v6(1)])
  also have "mm_only s6 s7" by (simp add: s7_def)
  also have "mm_only s7 s8" by (rule vga_only_mm[OF v8(1)])
  finally have mm8: "mm_only s s8" .
  then have tot: "f < unat (total_pages s8)" using tot by (simp add: mm_only_total v0(9))
  have own8: "frame_bytes f \<subseteq> kept_bytes s8" using m3(7) by (simp add: v8 m7 v6 m5 v4)
  have inv8: "vmm_inv s8" using m7 by (simp add: v8)
  define s9 where "s9 = pmm_free_page p s8"
  note m9 = vmm_free_frame[OF inv8 fb(1) tot own8, folded p_def, folded s9_def]
  define u where "u = newline (line ''=== VMM Test Complete ==='' (newline (line ''  Freed physical page'' s9)))"
  have "vga_only s9 u" unfolding u_def by (intro vga_only_after)
  note v9 = this vga_only_view[OF this]
  show thesis
  proof (rule that)
    have "vga_only s3 (line ''  Mapping successful!'' s3)" by simp
    note r = r3[OF this]
    note d = s4_def[unfolded if_True, symmetric] s6_def[unfolded if_True, symmetric] s8_def[unfolded if_True, symmetric]
    show "cmd_vmtest args s = CmdReturn u"
      by (simp only: cmd_vmtest_def Let_def s0_def[symmetric] a1(1) prod.case fb(4) if_False s2_def[symmetric]
          s3_def[symmetric] r if_True refl d m5(1,11)[simplified] and_then_simps s7_def[symmetric] m7(7) s9_def[symmetric]
          u_def[symmetric] finish.simps)
    have "mm_only s8 s9" by (simp add: s9_def)
    then show "mm_only s u" by (rule mm_only_trans[OF mm_only_trans[OF mm8] vga_only_mm[OF v9(1)]])
    show "vmm_inv u" using m9 by (simp add: v9)
    show "translation u va = (if vpn va = vpn VMTEST_ADDR then None else translation s va)" for va
      by (auto simp: v9 m9 v8 m7 v6 m5 v4 m3(2) v2 a1 v0 mapped_as_def)
    show "small_path u va" if "small_path s va" for va
      using m7(3) m3(5) that by (simp add: v9 m9 v8 v6 m5 v4 v2 a1 v0)
    have own: "frame_bytes f \<inter> kept_bytes s = {}" using a1(9) by (simp add: v0)
    have up: "kept_bytes s \<subseteq> kept_bytes s2" using a1(7) by (simp add: v0 v2)
    then show "kept_bytes s \<subseteq> kept_bytes u"
      using own m3(6) by (auto simp: v9 m9 v8 m7 v6 m5 v4)
    show "mem u a = mem s a" if "a \<in> kept_bytes s" for a
    proof -
      have "a \<noteq> p + of_nat i" if "i < 8" for i
        using in_frame_bytes[OF f52, of i] own \<open>a \<in> kept_bytes s\<close> that by (auto simp: p_def)
      then have "mem s5 a = mem s4 a" by (intro m5(8)) blast
      moreover have "a \<in> kept_bytes s2" "a \<in> kept_bytes s3" "a \<in> kept_bytes s0" using that up m3(6) by (auto simp: v0)
      ultimately show ?thesis
        using m9(8) m7(6) m3(9) a1(10) by (simp add: v9 v8 v6 m7 m5 v4 v2 v0)
    qed
    have "card (free_pages u) = card (free_pages s3) + 1" using m9(3) by (simp add: v9 m9 v8 m7 v6 m5 v4)
    moreover have "card (free_pages s2) + 1 = card (free_pages s)" using c1 room by (simp add: v2)
    ultimately show "card (free_pages u) + missing_tables s VMTEST_ADDR = card (free_pages s)"
      using m3(8) by (simp add: v2 a1 v0)
  qed
qed

lemma vpn_same_page: "unat va div 4096 = unat va' div 4096 \<Longrightarrow> vpn va = vpn va'"
proof -
  assume e: "unat va div 4096 = unat va' div 4096"
  have "unat (drop_bit 12 va) = unat (drop_bit 12 va')" by (simp add: unat_drop_bit_eq drop_bit_nat_def e)
  then have "drop_bit 12 va = drop_bit 12 va'" by (simp only: word_u64_eq_iff)
  then show ?thesis by (simp only: vpn_def)
qed

lemma heap_ok_unmapped:
  fixes s u :: "'a heap_state_scheme"
  assumes "heap_ok s" and "vmm_inv u" and "\<And>va. small_path s va \<Longrightarrow> small_path u va" and "kept_bytes s \<subseteq> kept_bytes u"
    and "\<And>va pa. translation u va = Some pa \<Longrightarrow> translation s va = Some pa"
  shows "heap_ok u"
  using assms unfolding heap_ok_def by blast

text \<open>
  C39: the address that the command \<^verbatim>\<open>vmtest\<close> takes for its test lies in the kernel heap, and
  after every successful start it lies in the middle of the stack of the shell, the task that
  runs the command. The command runs to its end, and the page of the stack is gone afterwards.
\<close>

theorem vmtest_unmaps_shell_stack:
  assumes "boot_ok L s"
  shows "let r = kernel_main dev L s; stack = stack_base (tcbs r (HEAP_START + 80)) in
    unat stack \<le> unat VMTEST_ADDR \<and> unat VMTEST_ADDR + 4096 \<le> unat stack + 16384 \<and>
    (\<forall>k < 4096. translation r (VMTEST_ADDR + of_nat k) \<noteq> None) \<and>
    (\<exists>u. cmd_vmtest args r = CmdReturn u \<and> heap_ok u \<and> tcbs u = tcbs r \<and>
       (\<forall>k < 4096. translation u (VMTEST_ADDR + of_nat k) = None))"
proof -
  define r where "r = kernel_main dev L s"
  note k = kernel_main_tasks[OF assms, of dev, folded r_def]
  have ok: "heap_ok r" by (rule k(1))
  then have inv: "vmm_inv r" and small: "small_path r VMTEST_ADDR" by (simp_all add: heap_ok_def in_heap_def)
  have room: "missing_tables r VMTEST_ADDR < card (free_pages r)"
    using missing_tables_le[of r VMTEST_ADDR] k(18) by simp
  have mapped: "translation r (VMTEST_ADDR + of_nat i) \<noteq> None" if "i < 4096" for i
  proof -
    have "HEAP_START + 160 + of_nat (3936 + i) = VMTEST_ADDR + of_nat i" by simp
    then show ?thesis using k(12)[rule_format, of "3936 + i"] that by simp
  qed
  have page: "vpn (VMTEST_ADDR + of_nat i) = vpn VMTEST_ADDR" if "i < 4096" for i
  proof (rule vpn_same_page)
    have "unat (VMTEST_ADDR + of_nat i) = unat VMTEST_ADDR + i" using that by (intro unat_index_add) simp
    then show "unat (VMTEST_ADDR + of_nat i) div 4096 = unat VMTEST_ADDR div 4096" using that by simp
  qed
  obtain u where u: "cmd_vmtest args r = CmdReturn u" "mm_only r u" "vmm_inv u"
    "\<And>va. translation u va = (if vpn va = vpn VMTEST_ADDR then None else translation r va)"
    "\<And>va. small_path r va \<Longrightarrow> small_path u va" "kept_bytes r \<subseteq> kept_bytes u"
    by (rule cmd_vmtest_effect[OF inv small room]) (rule that)
  have "translation r va = Some pa" if "translation u va = Some pa" for va pa using that by (simp add: u(4) split: if_splits)
  then have "heap_ok u" using u(5) by (intro heap_ok_unmapped[OF ok u(3) _ u(6)])
  moreover have "tcbs u = tcbs r" using u(2) by (auto elim!: mm_onlyE)
  moreover have "\<forall>i < 4096. translation u (VMTEST_ADDR + of_nat i) = None" by (simp add: u(4) page)
  ultimately show ?thesis unfolding Let_def r_def[symmetric] using u(1) mapped k(10) by simp
qed

lemma vmtest_unmaps_shell_stack_witness:
  "\<exists>u. cmd_vmtest [] (kernel_main pic_device example_layout (power_on boot_memory_map 0x1000)) = CmdReturn u \<and>
     translation u VMTEST_ADDR = None"
proof -
  define r where "r = kernel_main pic_device example_layout (power_on boot_memory_map 0x1000)"
  obtain u where u: "cmd_vmtest [] r = CmdReturn u" "\<forall>k < 4096. translation u (VMTEST_ADDR + of_nat k) = None"
    using vmtest_unmaps_shell_stack[OF power_on_ok, of pic_device "[]"] unfolding Let_def r_def[symmetric] by blast
  have "translation u (VMTEST_ADDR + of_nat 0) = None" using u(2)[rule_format, of 0] by simp
  then show ?thesis unfolding r_def[symmetric] using u(1) by (intro exI[of _ u]) simp
qed

end
