(* ===== verification/MemTest.thy ===== *)
theory MemTest
  imports VirtMem
begin

text \<open>
  The command \<^verbatim>\<open>memtest\<close> of \<^verbatim>\<open>src/kernel/commands/memtest.c\<close>, which allocates frames, maps,
  writes, reads, unmaps and frees them and fills heap blocks. That it never reports a failure
  is a statement about the three memory managers together.
\<close>

section \<open>Loops of steps\<close>

lemma each_append: "each f (xs @ ys) s = and_then (each f xs s) (each f ys)"
  by (induction xs arbitrary: s) (simp_all add: and_then_def split: sum.splits)

lemma each_upto:
  assumes "I 0 s" and "\<forall>i t. i < n \<longrightarrow> I i t \<longrightarrow> (\<exists>u. f i t = Inr u \<and> I (Suc i) u)"
  shows "\<exists>t. each f [0..<n] s = Inr t \<and> I n t"
proof -
  have "\<exists>t. each f [0..<i] s = Inr t \<and> I i t" if "i \<le> n" for i
    using that
  proof (induction i)
    case 0
    then show ?case using assms(1) by simp
  next
    case (Suc i)
    then obtain t where t: "each f [0..<i] s = Inr t" "I i t" by auto
    then obtain u where "f i t = Inr u" "I (Suc i) u" using assms(2) Suc.prems by (meson Suc_le_lessD)
    then show ?case using t by (simp add: each_append)
  qed
  then show ?thesis by blast
qed

section \<open>Frames taken from the free ones\<close>

text \<open>
  \<open>owns B fs s\<close>: on the way from \<open>B\<close> to \<open>s\<close> the frames \<open>fs\<close> were taken; nobody else uses them,
  and what was in use before was not touched.
\<close>

definition owns :: "'a vmm_state_scheme \<Rightarrow> nat list \<Rightarrow> 'a vmm_state_scheme \<Rightarrow> bool" where
  "owns B fs s \<longleftrightarrow> vmm_inv B \<and> vmm_inv s \<and> mm_only B s \<and> distinct fs \<and> set fs \<subseteq> free_pages B \<and>
     kept_bytes B \<subseteq> kept_bytes s \<and> (\<forall>f \<in> set fs. frame_bytes f \<subseteq> kept_bytes s) \<and>
     (\<forall>a \<in> kept_bytes B. mem s a = mem B a) \<and> (\<forall>va. small_path B va \<longrightarrow> small_path s va)"

lemma ownsI:
  assumes "vmm_inv B" "vmm_inv s" "mm_only B s" "distinct fs" "set fs \<subseteq> free_pages B" "kept_bytes B \<subseteq> kept_bytes s"
    "\<And>f. f \<in> set fs \<Longrightarrow> frame_bytes f \<subseteq> kept_bytes s" "\<And>a. a \<in> kept_bytes B \<Longrightarrow> mem s a = mem B a"
    "\<And>va. small_path B va \<Longrightarrow> small_path s va"
  shows "owns B fs s"
  using assms unfolding owns_def by blast

lemma ownsD:
  assumes "owns B fs s"
  shows "vmm_inv B" "vmm_inv s" "mm_only B s" "distinct fs" "set fs \<subseteq> free_pages B" "kept_bytes B \<subseteq> kept_bytes s"
    "f \<in> set fs \<Longrightarrow> frame_bytes f \<subseteq> kept_bytes s" "a \<in> kept_bytes B \<Longrightarrow> mem s a = mem B a"
    "small_path B va \<Longrightarrow> small_path s va"
  using assms unfolding owns_def by blast+

lemma owns_frame:
  assumes "owns B fs s" and "f \<in> set fs"
  shows "0 < f" "f < 2 ^ 40" "drop_bit 52 (frame_addr f) = 0" "f < unat (total_pages s)"
    "frame_bytes f \<inter> kept_bytes B = {}" "frame_addr f \<noteq> 0"
proof -
  have f: "f \<in> free_pages B" using ownsD(5)[OF assms(1)] assms(2) by blast
  note fb = free_frame_bounds[OF ownsD(1)[OF assms(1)] f]
  show "0 < f" "f < 2 ^ 40" "drop_bit 52 (frame_addr f) = 0" "frame_addr f \<noteq> 0" by (rule fb)+
  show "f < unat (total_pages s)" using free_pages_less[OF f] mm_only_total[OF ownsD(3)[OF assms(1)]] by simp
  show "frame_bytes f \<inter> kept_bytes B = {}" using f by (auto simp: kept_bytes_def frame_bytes_def)
qed

lemma owns_start: "vmm_inv B \<Longrightarrow> owns B [] B"
  by (rule ownsI) simp_all

lemma owns_print:
  fixes s t :: "'a vmm_state_scheme"
  assumes "owns B fs s" and "vga_only s t"
  shows "owns B fs t"
  using assms(1) mm_only_trans[OF ownsD(3)[OF assms(1)] vga_only_mm[OF assms(2)]]
  by (simp add: owns_def vga_only_view[OF assms(2)])

lemma owns_take:
  fixes s :: "'a vmm_state_scheme"
  assumes "owns B fs s" and "free_pages s \<noteq> {}" and "free_pages s = free_pages B - set fs"
  defines "f \<equiv> Min (free_pages s)"
  obtains t where "pmm_alloc_page s = (frame_addr f, t)" and "owns B (fs @ [f]) t" and "f \<notin> set fs"
    and "free_pages t = free_pages B - set (fs @ [f])" and "translation t = translation s"
proof (rule that)
  let ?t = "bm_set (of_nat f) s"
  note D = ownsD[OF assms(1)]
  note a = vmm_alloc_frame[OF D(2) assms(2), folded f_def]
  have f: "f \<in> free_pages s" using assms(2) by (simp add: f_def)
  then show nf: "f \<notin> set fs" using assms(3) by blast
  show "pmm_alloc_page s = (frame_addr f, ?t)" "translation ?t = translation s" by (rule a)+
  show "free_pages ?t = free_pages B - set (fs @ [f])" using assms(3) by (auto simp: a)
  show "owns B (fs @ [f]) ?t"
  proof (rule ownsI)
    show "mm_only B ?t" using mm_only_trans[OF D(3) mm_only_step(3)] .
    show "kept_bytes B \<subseteq> kept_bytes ?t" using D(6) a(7) by blast
    show "frame_bytes g \<subseteq> kept_bytes ?t" if "g \<in> set (fs @ [f])" for g
      using that D(7)[of g] a(7,8) by (cases "g = f") auto
    show "mem ?t x = mem B x" if "x \<in> kept_bytes B" for x
      using a(10)[of x] D(6,8) that by auto
    show "small_path ?t va" if "small_path B va" for va using D(9)[OF that] by (simp add: a)
  qed (use D a f nf assms(3) in auto)
qed

lemma owns_map:
  fixes s :: "'a vmm_state_scheme"
  assumes "owns B fs s" and f: "f \<in> set fs" and small: "small_path B va" and room: "3 \<le> card (free_pages s)"
    and al: "unat va mod 4096 = 0"
  defines "t \<equiv> vmm_map_page va (frame_addr f) 3 s"
  shows "owns B fs t" "translation t = mapped_as va (frame_addr f) (translation s)"
    "vmm_virt_to_phys va t = (frame_addr f, t)" "card (free_pages s) \<le> card (free_pages t) + 3"
proof -
  note D = ownsD[OF assms(1)]
  note F = owns_frame[OF assms(1) f]
  have "f < 2 ^ 52" using F(2) by simp
  moreover have "missing_tables s va \<le> card (free_pages s)" using room missing_tables_le[of s va] by simp
  moreover have "ucast (3 :: u32) AND NOT 0xFFF = (0 :: u64)" by simp
  ultimately have m: "vmm_inv t" "translation t = mapped_as va (frame_addr f) (translation s)"
    "vmm_virt_to_phys va t = (frame_addr f, t)" "\<And>va'. small_path s va' \<Longrightarrow> small_path t va'"
    "kept_bytes s \<subseteq> kept_bytes t" "card (free_pages t) + missing_tables s va = card (free_pages s)"
    "\<And>a. a \<in> kept_bytes s \<Longrightarrow> mem t a = mem s a"
    unfolding t_def using map_own_frame[OF D(2) D(9)[OF small] _ _ D(7)[OF f] al F(3)] by blast+
  show "translation t = mapped_as va (frame_addr f) (translation s)" "vmm_virt_to_phys va t = (frame_addr f, t)" by (rule m)+
  show "card (free_pages s) \<le> card (free_pages t) + 3" using m(6) missing_tables_le[of s va] by simp
  show "owns B fs t"
  proof (rule ownsI)
    show "mm_only B t" unfolding t_def by (rule mm_only_trans[OF D(3) mm_only_map_page])
    show "kept_bytes B \<subseteq> kept_bytes t" using D(6) m(5) by blast
    show "frame_bytes g \<subseteq> kept_bytes t" if "g \<in> set fs" for g using D(7)[OF that] m(5) by blast
    show "mem t a = mem B a" if "a \<in> kept_bytes B" for a using m(7)[of a] D(6,8) that by auto
    show "small_path t x" if "small_path B x" for x using m(4)[OF D(9)[OF that]] .
  qed (rule D m)+
qed

lemma owns_unmap:
  fixes s :: "'a vmm_state_scheme"
  assumes "owns B fs s" and small: "small_path B va"
  defines "t \<equiv> vmm_unmap_page va s"
  shows "owns B fs t" "translation t va' = (if vpn va' = vpn va then None else translation s va')"
    "vmm_virt_to_phys va t = (0, t)" "free_pages t = free_pages s"
proof -
  note D = ownsD[OF assms(1)]
  note u = unmap_own_page[OF D(2) D(9)[OF small], folded t_def]
  show "translation t va' = (if vpn va' = vpn va then None else translation s va')"
    "vmm_virt_to_phys va t = (0, t)" "free_pages t = free_pages s" by (rule u)+
  show "owns B fs t"
  proof (rule ownsI)
    show "mm_only B t" unfolding t_def by (rule mm_only_trans[OF D(3) mm_only_unmap])
    show "kept_bytes B \<subseteq> kept_bytes t" using D(6) by (simp add: u)
    show "frame_bytes g \<subseteq> kept_bytes t" if "g \<in> set fs" for g using D(7)[OF that] by (simp add: u)
    show "mem t a = mem B a" if "a \<in> kept_bytes B" for a using u(6)[of a] D(6,8) that by auto
    show "small_path t x" if "small_path B x" for x using u(3)[OF D(9)[OF that]] .
  qed (rule D u)+
qed

lemma owns_store:
  fixes s :: "'a sys_state_scheme" and v :: u64
  assumes "owns B fs s" and f: "f \<in> set fs" and tr: "translation s va = Some (frame_addr f)"
  defines "t \<equiv> s\<lparr>mem := store_le 8 v (frame_addr f) (mem s)\<rparr>"
  shows "virt_store 8 v va s = Inr t" "owns B fs t" "translation t = translation s" "free_pages t = free_pages s"
    "virt_load 8 va t = Inr v" "a \<notin> frame_bytes f \<Longrightarrow> mem t a = mem s a"
proof -
  note D = ownsD[OF assms(1)]
  note F = owns_frame[OF assms(1) f]
  have in_f: "frame_addr f + of_nat i \<in> frame_bytes f" if "i < 8" for i
    using F(2) that by (intro in_frame_bytes) simp_all
  then have "\<forall>i < 8. frame_addr f + of_nat i \<in> kept_bytes s" using D(7)[OF f] by blast
  note m = virt_store_mapped[OF D(2) tr this, where v = v, folded t_def]
  show "virt_store 8 v va s = Inr t" "translation t = translation s" "free_pages t = free_pages s" by (rule m)+
  show "virt_load 8 va t = Inr v" by (rule m) simp_all
  show out: "mem t a = mem s a" if "a \<notin> frame_bytes f" for a
  proof (rule m(8))
    show "\<forall>i < 8. a \<noteq> frame_addr f + of_nat i" using in_f that by blast
  qed
  show "owns B fs t"
  proof (rule ownsI)
    show "mm_only B t" by (rule mm_only_trans[OF D(3) m(9)])
    show "kept_bytes B \<subseteq> kept_bytes t" using D(6) by (simp add: m)
    show "frame_bytes g \<subseteq> kept_bytes t" if "g \<in> set fs" for g using D(7)[OF that] by (simp add: m)
    show "mem t a = mem B a" if "a \<in> kept_bytes B" for a using out[of a] D(8) F(5) that by auto
    show "small_path t x" if "small_path B x" for x using D(9)[OF that] by (simp add: m)
  qed (rule D m)+
qed

lemma owns_free:
  fixes s :: "'a vmm_state_scheme"
  assumes "owns B (f # fs) s"
  defines "t \<equiv> pmm_free_page (frame_addr f) s"
  shows "owns B fs t" "translation t = translation s" "card (free_pages t) = card (free_pages s) + 1"
proof -
  note D = ownsD[OF assms(1)]
  have f: "f \<in> set (f # fs)" by simp
  note F = owns_frame[OF assms(1) f]
  note m = vmm_free_frame[OF D(2) F(1,4) D(7)[OF f], folded t_def]
  show "translation t = translation s" "card (free_pages t) = card (free_pages s) + 1" using m(3) by (simp_all add: m)
  show "owns B fs t"
  proof (rule ownsI)
    show "mm_only B t" unfolding t_def by (rule mm_only_trans[OF D(3) mm_only_free])
    show "kept_bytes B \<subseteq> kept_bytes t" using D(6) F(5) by (auto simp: m)
    show "frame_bytes g \<subseteq> kept_bytes t" if "g \<in> set fs" for g
      using D(7)[of g] D(4) that by (auto simp: m frame_bytes_def)
    show "mem t a = mem B a" if "a \<in> kept_bytes B" for a using m(8)[of a] D(6,8) that by auto
    show "small_path t x" if "small_path B x" for x using D(9)[OF that] by (simp add: m)
  qed (use D m in auto)
qed

lemma owns_free_all:
  fixes s :: "'a vmm_state_scheme"
  assumes "owns B fs s"
  defines "t \<equiv> fold pmm_free_page (map frame_addr fs) s"
  shows "owns B [] t \<and> translation t = translation s \<and> card (free_pages t) = card (free_pages s) + length fs"
  unfolding t_def using assms(1)
proof (induction fs arbitrary: s)
  case Nil
  then show ?case by simp
next
  case (Cons f fs)
  note m = owns_free[OF Cons.prems]
  show ?case using Cons.IH[OF m(1)] m(2,3) by simp
qed

section \<open>The test region\<close>

definition test_page :: "u64 \<Rightarrow> bool" where
  "test_page va \<longleftrightarrow> (\<exists>i < TEST_PAGES. vpn va = vpn (memtest_addr i))"

lemma unat_memtest_addr: "i < TEST_PAGES \<Longrightarrow> unat (memtest_addr i) = 0xFFFF900000000000 + i * 4096"
proof -
  assume i: "i < TEST_PAGES"
  have "memtest_addr i = MEMTEST_BASE + of_nat (i * 4096)" by (simp add: memtest_addr_def)
  then show ?thesis using i unat_index_add[of MEMTEST_BASE "i * 4096"] by simp
qed

lemma memtest_addr_page: "i < TEST_PAGES \<Longrightarrow> unat (memtest_addr i) mod 4096 = 0"
  by (simp add: unat_memtest_addr)

lemma vpn_high: "x < 68719476736 \<Longrightarrow> unat va div 4096 = 65535 * 68719476736 + x \<Longrightarrow> unat (vpn va) = x"
  by (simp only: unat_vpn mod_mult_self3 mod_less)

lemma vpn_memtest_addr: "i < TEST_PAGES \<Longrightarrow> unat (vpn (memtest_addr i)) = 0x900000000 + i"
  by (rule vpn_high) (simp_all add: unat_memtest_addr)

lemma vpn_memtest_addr_inj: "i < TEST_PAGES \<Longrightarrow> j < TEST_PAGES \<Longrightarrow> vpn (memtest_addr i) = vpn (memtest_addr j) \<longleftrightarrow> i = j"
  using vpn_memtest_addr by (metis add_left_cancel)

lemma heap_not_test_page: "in_heap va \<Longrightarrow> \<not> test_page va"
proof
  assume h: "in_heap va" and "test_page va"
  then obtain i where i: "i < TEST_PAGES" "vpn va = vpn (memtest_addr i)" by (auto simp: test_page_def)
  have "4503565267632128 * 4096 \<le> unat va" "unat va < 4503565267636224 * 4096" using h by (simp_all add: in_heap_def)
  then have b: "4503565267632128 \<le> unat va div 4096" "unat va div 4096 < 4503565267636224"
    by (simp_all only: less_eq_div_iff_mult_less_eq less_mult_imp_div_less zero_less_numeral)
  define x where "x = unat va div 4096 - 65535 * 68719476736"
  have "unat va div 4096 = 65535 * 68719476736 + x" "x < 68719476736" using b by (simp_all add: x_def)
  then have "unat (vpn va) = x" by (intro vpn_high)
  then show False using i b vpn_memtest_addr[OF i(1)] by (simp add: x_def)
qed

section \<open>The tests on frames and pages\<close>

lemma memtest_alloc_all:
  fixes B s :: "'a sys_state_scheme"
  assumes own: "owns B [] s" and free: "free_pages s = free_pages B" and room: "n \<le> card (free_pages B)"
  shows "\<exists>fs t. each memtest_alloc [0..<n] ([], s) = Inr (map frame_addr fs, t) \<and> length fs = n \<and> owns B fs t \<and>
    free_pages t = free_pages B - set fs \<and> translation t = translation s"
proof -
  define I where "I i = (\<lambda>(ps, t). \<exists>fs. ps = map frame_addr fs \<and> length fs = i \<and> owns B fs t \<and>
    free_pages t = free_pages B - set fs \<and> translation t = translation s)" for i
  have "\<exists>t. each memtest_alloc [0..<n] ([], s) = Inr t \<and> I n t"
  proof (rule each_upto)
    show "I 0 ([], s)" using own free by (simp add: I_def)
    show "\<forall>i t. i < n \<longrightarrow> I i t \<longrightarrow> (\<exists>u. memtest_alloc i t = Inr u \<and> I (Suc i) u)"
    proof (intro allI impI)
      fix i and pt :: "u64 list \<times> 'a sys_state_scheme" assume i: "i < n" "I i pt"
      obtain t fs where t: "pt = (map frame_addr fs, t)" "length fs = i" "owns B fs t"
        "free_pages t = free_pages B - set fs" "translation t = translation s"
        using i(2) by (cases pt) (auto simp: I_def)
      have "card (set fs) = i" using distinct_card[OF ownsD(4)[OF t(3)]] t(2) by simp
      then have "card (free_pages t) = card (free_pages B) - i"
        using ownsD(5)[OF t(3)] by (simp add: t(4) card_Diff_subset)
      then have "free_pages t \<noteq> {}" using i(1) room by auto
      then obtain u where u: "pmm_alloc_page t = (frame_addr (Min (free_pages t)), u)"
        "owns B (fs @ [Min (free_pages t)]) u" "free_pages u = free_pages B - set (fs @ [Min (free_pages t)])"
        "translation u = translation t"
        using owns_take[OF t(3) _ t(4)] by metis
      have "frame_addr (Min (free_pages t)) \<noteq> 0" by (rule owns_frame(6)[OF u(2)]) simp
      then have "memtest_alloc i pt = Inr (map frame_addr (fs @ [Min (free_pages t)]), u)"
        by (simp add: memtest_alloc_def t(1) u(1))
      then show "\<exists>u. memtest_alloc i pt = Inr u \<and> I (Suc i) u"
        using u(2-4) t(2,5) unfolding I_def by fastforce
    qed
  qed
  then show ?thesis by (auto simp: I_def)
qed

text \<open>The test addresses lead to the frames \<open>fs\<close>, all others are translated as in \<open>s\<close>.\<close>

definition test_mapped :: "nat \<Rightarrow> nat list \<Rightarrow> (u64 \<Rightarrow> u64 option) \<Rightarrow> (u64 \<Rightarrow> u64 option) \<Rightarrow> bool" where
  "test_mapped n fs tr tr' \<longleftrightarrow> (\<forall>i < n. tr' (memtest_addr i) = Some (frame_addr (fs ! i))) \<and>
     (\<forall>va. \<not> test_page va \<longrightarrow> tr' va = tr va)"

lemma memtest_map_all:
  fixes B s :: "'a sys_state_scheme"
  assumes own: "owns B fs s" and len: "length fs = TEST_PAGES" and small: "\<forall>i < TEST_PAGES. small_path B (memtest_addr i)"
    and room: "3 * TEST_PAGES \<le> card (free_pages s)"
  shows "\<exists>t. each (memtest_map (map frame_addr fs)) [0..<TEST_PAGES] s = Inr t \<and> owns B fs t \<and>
    test_mapped TEST_PAGES fs (translation s) (translation t) \<and> card (free_pages s) \<le> card (free_pages t) + 3 * TEST_PAGES"
proof -
  define I where "I i t \<longleftrightarrow> owns B fs t \<and> test_mapped i fs (translation s) (translation t) \<and>
    card (free_pages s) \<le> card (free_pages t) + 3 * i" for i t
  have "\<exists>t. each (memtest_map (map frame_addr fs)) [0..<TEST_PAGES] s = Inr t \<and> I TEST_PAGES t"
  proof (rule each_upto)
    show "I 0 s" using own by (simp add: I_def test_mapped_def)
    show "\<forall>i t. i < TEST_PAGES \<longrightarrow> I i t \<longrightarrow> (\<exists>u. memtest_map (map frame_addr fs) i t = Inr u \<and> I (Suc i) u)"
    proof (intro allI impI)
      fix i and t :: "'a sys_state_scheme" assume i: "i < TEST_PAGES" and It: "I i t"
      have f: "fs ! i \<in> set fs" using i len by simp
      have o: "owns B fs t" and c: "3 \<le> card (free_pages t)" using It i room by (simp_all add: I_def)
      define u where "u = vmm_map_page (memtest_addr i) (frame_addr (fs ! i)) 3 t"
      note m = owns_map[OF o f small[rule_format, OF i] c memtest_addr_page[OF i], folded u_def]
      have "fs ! i < 2 ^ 52" using owns_frame(2)[OF o f] by simp
      note st = frame_start[OF this memtest_addr_page[OF i]]
      have "memtest_map (map frame_addr fs) i t = Inr u" using i len by (simp add: memtest_map_def u_def[symmetric] m)
      moreover have "test_mapped (Suc i) fs (translation s) (translation u)"
        using It i st vpn_memtest_addr_inj[OF _ i]
        by (auto simp: I_def test_mapped_def m mapped_as_def less_Suc_eq test_page_def)
      ultimately show "\<exists>u. memtest_map (map frame_addr fs) i t = Inr u \<and> I (Suc i) u"
        using m(1,4) It by (auto simp: I_def)
    qed
  qed
  then show ?thesis by (auto simp: I_def)
qed

lemma memtest_write_all:
  fixes B s :: "'a sys_state_scheme"
  assumes own: "owns B fs s" and len: "length fs = TEST_PAGES" and tr: "test_mapped TEST_PAGES fs tr0 (translation s)"
  shows "\<exists>t. each memtest_write [0..<TEST_PAGES] s = Inr t \<and> owns B fs t \<and> translation t = translation s \<and>
    free_pages t = free_pages s \<and> (\<forall>i < TEST_PAGES. virt_load 8 (memtest_addr i) t = Inr (memtest_pattern i))"
proof -
  define I where "I i t \<longleftrightarrow> owns B fs t \<and> translation t = translation s \<and> free_pages t = free_pages s \<and>
    (\<forall>j < i. load_le 8 (mem t) (frame_addr (fs ! j)) = memtest_pattern j)" for i t
  have ad: "translation s (memtest_addr j) = Some (frame_addr (fs ! j))" if "j < TEST_PAGES" for j
    using tr that by (simp add: test_mapped_def)
  have "\<exists>t. each memtest_write [0..<TEST_PAGES] s = Inr t \<and> I TEST_PAGES t"
  proof (rule each_upto)
    show "I 0 s" using own by (simp add: I_def)
    show "\<forall>i t. i < TEST_PAGES \<longrightarrow> I i t \<longrightarrow> (\<exists>u. memtest_write i t = Inr u \<and> I (Suc i) u)"
    proof (intro allI impI)
      fix i and t :: "'a sys_state_scheme" assume i: "i < TEST_PAGES" and It: "I i t"
      have f: "fs ! j \<in> set fs" if "j < TEST_PAGES" for j using that len by simp
      have o: "owns B fs t" and tr: "translation t (memtest_addr i) = Some (frame_addr (fs ! i))"
        using It ad[OF i] by (simp_all add: I_def)
      define u where "u = t\<lparr>mem := store_le 8 (memtest_pattern i) (frame_addr (fs ! i)) (mem t)\<rparr>"
      note m = owns_store[OF o f[OF i] tr, where v = "memtest_pattern i", folded u_def]
      have "load_le 8 (mem u) (frame_addr (fs ! j)) = memtest_pattern j" if "j < Suc i" for j
      proof (cases "j = i")
        case True
        then show ?thesis by (simp add: u_def)
      next
        case False
        then have j: "j < i" "j < TEST_PAGES" using that i by simp_all
        have ne: "fs ! j \<noteq> fs ! i" using ownsD(4)[OF o] j i len False by (simp add: nth_eq_iff_index_eq)
        have "load_le 8 (mem u) (frame_addr (fs ! j)) = (load_le 8 (mem t) (frame_addr (fs ! j)) :: u64)"
        proof (rule load_le_cong)
          fix k :: nat assume k: "k < 8"
          have "fs ! j < 2 ^ 52" using owns_frame(2)[OF o f[OF j(2)]] by simp
          then have "frame_addr (fs ! j) + of_nat k \<in> frame_bytes (fs ! j)" using k by (intro in_frame_bytes) simp_all
          then show "mem u (frame_addr (fs ! j) + of_nat k) = mem t (frame_addr (fs ! j) + of_nat k)"
            using ne by (intro m(6)) (auto simp: frame_bytes_def)
        qed
        then show ?thesis using It j by (simp add: I_def)
      qed
      moreover have "memtest_write i t = Inr u" by (simp only: memtest_write_def m(1))
      ultimately show "\<exists>u. memtest_write i t = Inr u \<and> I (Suc i) u"
        using m It by (auto simp: I_def)
    qed
  qed
  then obtain t where t: "each memtest_write [0..<TEST_PAGES] s = Inr t" "I TEST_PAGES t" by blast
  then have "virt_load 8 (memtest_addr i) t = Inr (memtest_pattern i)" if "i < TEST_PAGES" for i
    using that ad by (simp add: I_def virt_load_def)
  then show ?thesis using t by (auto simp: I_def)
qed

lemma memtest_read_all:
  assumes "\<forall>i < TEST_PAGES. virt_load 8 (memtest_addr i) s = Inr (memtest_pattern i)"
  shows "each memtest_read [0..<TEST_PAGES] s = Inr s"
proof -
  have "\<exists>t. each memtest_read [0..<TEST_PAGES] s = Inr t \<and> t = s"
    by (rule each_upto) (use assms in \<open>simp_all add: memtest_read_def\<close>)
  then show ?thesis by simp
qed

lemma memtest_unmap_all:
  fixes B s :: "'a sys_state_scheme"
  assumes own: "owns B fs s" and small: "\<forall>i < TEST_PAGES. small_path B (memtest_addr i)"
  shows "\<exists>t. each memtest_unmap [0..<TEST_PAGES] s = Inr t \<and> owns B fs t \<and> free_pages t = free_pages s \<and>
    (\<forall>va. translation t va = (if test_page va then None else translation s va))"
proof -
  define I where "I i t \<longleftrightarrow> owns B fs t \<and> free_pages t = free_pages s \<and>
    (\<forall>va. translation t va = (if \<exists>j < i. vpn va = vpn (memtest_addr j) then None else translation s va))" for i t
  have "\<exists>t. each memtest_unmap [0..<TEST_PAGES] s = Inr t \<and> I TEST_PAGES t"
  proof (rule each_upto)
    show "I 0 s" using own by (simp add: I_def)
    show "\<forall>i t. i < TEST_PAGES \<longrightarrow> I i t \<longrightarrow> (\<exists>u. memtest_unmap i t = Inr u \<and> I (Suc i) u)"
    proof (intro allI impI)
      fix i and t :: "'a sys_state_scheme" assume i: "i < TEST_PAGES" and It: "I i t"
      have o: "owns B fs t" using It by (simp add: I_def)
      define u where "u = vmm_unmap_page (memtest_addr i) t"
      note m = owns_unmap[OF o small[rule_format, OF i], folded u_def]
      have "memtest_unmap i t = Inr u" by (simp add: memtest_unmap_def u_def[symmetric] m)
      then show "\<exists>u. memtest_unmap i t = Inr u \<and> I (Suc i) u"
        using m It by (auto simp: I_def less_Suc_eq)
    qed
  qed
  then show ?thesis by (auto simp: I_def test_page_def)
qed

section \<open>The heap as a map from addresses to bytes\<close>

definition vbyte :: "'a vmm_state_scheme \<Rightarrow> u64 \<Rightarrow> u8 option" where
  "vbyte s va = map_option (mem s) (translation s va)"

lemma vbyte_load: "virt_load 1 va s = (case vbyte s va of None \<Rightarrow> Inl (CmdException EXC_PAGE_FAULT s) | Some b \<Rightarrow> Inr b)"
  by (simp add: virt_load_def vbyte_def split: option.split)

lemma vbyte_print:
  fixes s t :: "'a vmm_state_scheme"
  shows "vga_only s t \<Longrightarrow> vbyte t = vbyte s"
  by (simp add: fun_eq_iff vbyte_def vga_only_view)

lemma vga_only_heap:
  fixes s t :: "'a heap_state_scheme"
  assumes "vga_only s t"
  shows "heap_ok t = heap_ok s" "ptr_ok t = ptr_ok s" "heap_current_ptr t = heap_current_ptr s"
proof -
  note v = vga_only_view[OF assms]
  show "heap_ok t = heap_ok s" by (simp add: heap_ok_def v)
  show p: "heap_current_ptr t = heap_current_ptr s" by (rule mm_only_heap_fields[OF vga_only_mm[OF assms]])
  show "ptr_ok t = ptr_ok s" by (simp add: ptr_ok_def mm_only_heap_fields[OF vga_only_mm[OF assms]])
qed

lemma vbyte_store:
  fixes s :: "'a sys_state_scheme" and v :: u8
  assumes ok: "heap_ok s" and va: "in_heap va" "vbyte s va \<noteq> None"
  shows "\<exists>t. virt_store 1 v va s = Inr t \<and> heap_ok t \<and> ptr_ok t = ptr_ok s \<and> heap_current_ptr t = heap_current_ptr s \<and>
    free_pages t = free_pages s \<and> translation t = translation s \<and>
    (\<forall>w. in_heap w \<longrightarrow> vbyte t w = (if w = va then Some v else vbyte s w))"
proof -
  obtain pa where pa: "translation s va = Some pa" using va(2) by (auto simp: vbyte_def)
  have k: "pa \<in> kept_bytes s" and inj: "w = va" if "in_heap w" "translation s w = Some pa" for w
    using ok va(1) pa that unfolding heap_ok_def by blast+
  have inv: "vmm_inv s" using ok by (simp add: heap_ok_def)
  let ?t = "s\<lparr>mem := (mem s)(pa := v)\<rparr>"
  have out: "\<forall>a. a \<notin> kept_bytes s \<longrightarrow> ((mem s)(pa := v)) a = mem s a" using k[OF va(1) pa] by auto
  have "virt_store 1 v va s = Inr ?t" by (simp add: virt_store_def pa)
  moreover have "heap_ok ?t" by (rule heap_ok_write[OF ok out])
  moreover have "ptr_ok ?t = ptr_ok s" by (simp add: ptr_ok_def)
  moreover note kept_write(2,4)[OF inv out]
  moreover have "vbyte ?t w = (if w = va then Some v else vbyte s w)" if "in_heap w" for w
    using inj[OF that] pa by (cases "translation s w") (auto simp: vbyte_def kept_write(2)[OF inv out])
  ultimately show ?thesis by fastforce
qed

lemma vbyte_fill:
  fixes s :: "'a sys_state_scheme" and f :: "nat \<Rightarrow> u8"
  assumes ok: "heap_ok s" and mapped: "\<forall>k < n. vbyte s (p + of_nat k) \<noteq> None" and heap: "\<forall>k < n. in_heap (p + of_nat k)"
    and n: "n \<le> 4096"
  shows "\<exists>t. each (\<lambda>k. virt_store 1 (f k) (p + of_nat k)) [0..<n] s = Inr t \<and> heap_ok t \<and> ptr_ok t = ptr_ok s \<and>
    heap_current_ptr t = heap_current_ptr s \<and> free_pages t = free_pages s \<and> translation t = translation s \<and>
    (\<forall>k < n. vbyte t (p + of_nat k) = Some (f k)) \<and> (\<forall>w. in_heap w \<longrightarrow> (\<forall>k < n. w \<noteq> p + of_nat k) \<longrightarrow> vbyte t w = vbyte s w)"
proof -
  define I where "I i t \<longleftrightarrow> heap_ok t \<and> ptr_ok t = ptr_ok s \<and> heap_current_ptr t = heap_current_ptr s \<and>
    free_pages t = free_pages s \<and> translation t = translation s \<and> (\<forall>k < i. vbyte t (p + of_nat k) = Some (f k)) \<and>
    (\<forall>w. in_heap w \<longrightarrow> (\<forall>k < i. w \<noteq> p + of_nat k) \<longrightarrow> vbyte t w = vbyte s w)"
    for i and t :: "'a sys_state_scheme"
  have ne: "p + of_nat j \<noteq> p + of_nat i" if "j < n" "i < n" "j \<noteq> i" for i j
  proof -
    have "unat (of_nat j :: u64) = j" "unat (of_nat i :: u64) = i" using that n by (simp_all add: u64_of_nat_less)
    then have "(of_nat j :: u64) \<noteq> of_nat i" using that(3) by metis
    then show ?thesis by simp
  qed
  have "\<exists>t. each (\<lambda>k. virt_store 1 (f k) (p + of_nat k)) [0..<n] s = Inr t \<and> I n t"
  proof (rule each_upto)
    show "I 0 s" using ok by (simp add: I_def)
    show "\<forall>i t. i < n \<longrightarrow> I i t \<longrightarrow> (\<exists>u. virt_store 1 (f i) (p + of_nat i) t = Inr u \<and> I (Suc i) u)"
    proof (intro allI impI)
      fix i and t :: "'a sys_state_scheme" assume i: "i < n" and It: "I i t"
      have h: "in_heap (p + of_nat i)" using heap i by blast
      have "\<forall>k < i. p + of_nat i \<noteq> p + of_nat k"
      proof (intro allI impI)
        fix k assume "k < i"
        then show "p + of_nat i \<noteq> p + of_nat k" using i by (intro ne) simp_all
      qed
      then have "vbyte t (p + of_nat i) = vbyte s (p + of_nat i)" using It h unfolding I_def by blast
      then have "vbyte t (p + of_nat i) \<noteq> None" using mapped i by simp
      then obtain u where u: "virt_store 1 (f i) (p + of_nat i) t = Inr u" "heap_ok u" "ptr_ok u = ptr_ok t"
        "heap_current_ptr u = heap_current_ptr t" "free_pages u = free_pages t" "translation u = translation t"
        "\<forall>w. in_heap w \<longrightarrow> vbyte u w = (if w = p + of_nat i then Some (f i) else vbyte t w)"
        using vbyte_store[OF _ h, of t "f i"] It unfolding I_def by blast
      have "vbyte u (p + of_nat k) = Some (f k)" if "k < Suc i" for k
        using u(7) It heap i ne[of k i] that by (cases "k = i") (auto simp: I_def)
      moreover have "vbyte u w = vbyte s w" if "in_heap w" "\<forall>k < Suc i. w \<noteq> p + of_nat k" for w
        using u(7) It that by (auto simp: I_def)
      ultimately show "\<exists>u. virt_store 1 (f i) (p + of_nat i) t = Inr u \<and> I (Suc i) u"
        using u It by (auto simp: I_def)
    qed
  qed
  then show ?thesis by (auto simp: I_def)
qed

lemma vbyte_kmalloc:
  fixes s :: "'a heap_state_scheme"
  assumes ok: "heap_ok s" "ptr_ok s" and fits: "unat (heap_current_ptr s) + 256 < 0xFFFF800001000000"
    and room: "12 \<le> card (free_pages s)"
  shows "\<exists>t. kmalloc 256 s = (heap_current_ptr s, t) \<and> heap_ok t \<and> ptr_ok t \<and>
    heap_current_ptr t = heap_current_ptr s + 256 \<and> card (free_pages s) \<le> card (free_pages t) + 12 \<and>
    (\<forall>k < 256. vbyte t (heap_current_ptr s + of_nat k) \<noteq> None) \<and>
    (\<forall>va b. in_heap va \<longrightarrow> vbyte s va = Some b \<longrightarrow> vbyte t va = Some b) \<and>
    (\<forall>va pa. translation s va = Some pa \<longrightarrow> translation t va = Some pa)"
proof -
  have r: "round16 256 = 256" by code_simp
  have n: "(256 :: u64) \<noteq> 0" "unat (256 :: u64) \<le> MAX_REQUEST" by simp_all
  have "unat (heap_current_ptr s) + unat (round16 256) < 0xFFFF800001000000" using fits by (simp add: r)
  moreover have "4 * (unat (256 :: u64) div 4096 + 3) \<le> card (free_pages s)" using room by simp
  ultimately obtain t u where k: "kmalloc 256 s = (heap_current_ptr s, t)"
    "t = u\<lparr>heap_current_ptr := heap_current_ptr s + round16 256, heap_total_alloc := heap_total_alloc s + round16 256\<rparr>"
    "heap_ok t" "ptr_ok t" "heap_extends s u" "\<forall>k < unat (256 :: u64). translation t (heap_current_ptr s + of_nat k) \<noteq> None"
    "card (free_pages s) \<le> card (free_pages t) + 4 * (unat (256 :: u64) div 4096 + 3)"
    using kmalloc_success[OF ok n] by metis
  have tr: "translation t = translation u" "mem t = mem u" by (simp_all add: k(2) translation_def fun_eq_iff)
  have up: "translation t va = Some pa" if "translation s va = Some pa" for va pa
    using k(5) that by (simp add: tr heap_extends_def)
  have "vbyte t va = Some b" if va: "in_heap va" "vbyte s va = Some b" for va b
  proof -
    obtain pa where pa: "translation s va = Some pa" "mem s pa = b" using va(2) by (auto simp: vbyte_def)
    then have "pa \<in> kept_bytes s" using ok(1) va(1) unfolding heap_ok_def by blast
    then have "mem t pa = b" using k(5) pa(2) by (simp add: tr heap_extends_def)
    then show ?thesis using up[OF pa(1)] by (simp add: vbyte_def)
  qed
  moreover have "\<forall>k < 256. vbyte t (heap_current_ptr s + of_nat k) \<noteq> None" using k(6) by (simp add: vbyte_def)
  moreover have "heap_current_ptr t = heap_current_ptr s + 256" by (simp add: k(2) r)
  ultimately show ?thesis using k(1,3,4,7) up by auto
qed

section \<open>The test on the heap\<close>

definition test_block :: "u64 \<Rightarrow> nat \<Rightarrow> u64" where
  "test_block h i = h + of_nat (256 * i)"

lemma unat_test_block:
  assumes "unat h + 25600 < 0xFFFF800001000000" and "i < TEST_HEAP_ALLOCS" and "k < 256"
  shows "unat (test_block h i + of_nat k) = unat h + 256 * i + k"
proof -
  have "unat (test_block h i) = unat h + 256 * i"
    unfolding test_block_def using assms(1,2) by (intro unat_index_add) simp
  then show ?thesis using assms by (subst unat_index_add) simp_all
qed

definition test_filled :: "u64 \<Rightarrow> nat \<Rightarrow> 'a vmm_state_scheme \<Rightarrow> bool" where
  "test_filled h n t \<longleftrightarrow> (\<forall>i < n. \<forall>k < 256. vbyte t (test_block h i + of_nat k) = Some (of_nat (i + k)))"

lemma memtest_kmalloc_all:
  fixes s :: "'a sys_state_scheme"
  assumes ok: "heap_ok s" "ptr_ok s" and fits: "unat (heap_current_ptr s) + 25600 < 0xFFFF800001000000"
    and room: "12 * TEST_HEAP_ALLOCS \<le> card (free_pages s)"
  defines "h \<equiv> heap_current_ptr s"
  shows "\<exists>t. each memtest_kmalloc [0..<TEST_HEAP_ALLOCS] ([], s) = Inr (map (test_block h) [0..<TEST_HEAP_ALLOCS], t) \<and>
    heap_ok t \<and> ptr_ok t \<and> heap_current_ptr t = h + 25600 \<and> test_filled h TEST_HEAP_ALLOCS t \<and>
    (\<forall>va b. in_heap va \<longrightarrow> unat va < unat h \<longrightarrow> vbyte s va = Some b \<longrightarrow> vbyte t va = Some b) \<and>
    (\<forall>va pa. translation s va = Some pa \<longrightarrow> translation t va = Some pa)"
proof -
  have hs: "in_heap h" using ok(2) by (simp add: ptr_ok_def h_def)
  have fits: "unat h + 25600 < 0xFFFF800001000000" using fits by (simp add: h_def)
  note blk = unat_test_block[OF fits]
  have inh: "in_heap (test_block h i + of_nat k)" if "i < TEST_HEAP_ALLOCS" "k < 256" for i k
    using blk[OF that] hs fits that by (simp add: in_heap_def)
  define I where "I i = (\<lambda>(ps, t :: 'a sys_state_scheme). ps = map (test_block h) [0..<i] \<and> heap_ok t \<and> ptr_ok t \<and>
    heap_current_ptr t = test_block h i \<and> card (free_pages s) \<le> card (free_pages t) + 12 * i \<and> test_filled h i t \<and>
    (\<forall>va b. in_heap va \<longrightarrow> unat va < unat h \<longrightarrow> vbyte s va = Some b \<longrightarrow> vbyte t va = Some b) \<and>
    (\<forall>va pa. translation s va = Some pa \<longrightarrow> translation t va = Some pa))" for i
  have "\<exists>t. each memtest_kmalloc [0..<TEST_HEAP_ALLOCS] ([], s) = Inr t \<and> I TEST_HEAP_ALLOCS t"
  proof (rule each_upto)
    show "I 0 ([], s)" using ok by (simp add: I_def h_def test_block_def test_filled_def)
    show "\<forall>i t. i < TEST_HEAP_ALLOCS \<longrightarrow> I i t \<longrightarrow> (\<exists>u. memtest_kmalloc i t = Inr u \<and> I (Suc i) u)"
    proof (intro allI impI)
      fix i and pt :: "u64 list \<times> 'a sys_state_scheme" assume i: "i < TEST_HEAP_ALLOCS" and It: "I i pt"
      obtain t where pt: "pt = (map (test_block h) [0..<i], t)" and ok: "heap_ok t" "ptr_ok t"
        and hp: "heap_current_ptr t = test_block h i" and c: "card (free_pages s) \<le> card (free_pages t) + 12 * i"
        and fl: "test_filled h i t"
        and old: "\<And>va b. in_heap va \<Longrightarrow> unat va < unat h \<Longrightarrow> vbyte s va = Some b \<Longrightarrow> vbyte t va = Some b"
        and tr: "\<And>va pa. translation s va = Some pa \<Longrightarrow> translation t va = Some pa"
        using It by (cases pt) (auto simp: I_def)
      have "unat (heap_current_ptr t) = unat h + 256 * i" using blk[OF i, of 0] by (simp add: hp)
      then have "unat (heap_current_ptr t) + 256 < 0xFFFF800001000000" using fits i by simp
      moreover have "12 \<le> card (free_pages t)" using c room i by simp
      ultimately obtain u where u: "kmalloc 256 t = (test_block h i, u)" "heap_ok u" "ptr_ok u"
        "heap_current_ptr u = test_block h i + 256" "card (free_pages t) \<le> card (free_pages u) + 12"
        "\<forall>k < 256. vbyte u (test_block h i + of_nat k) \<noteq> None"
        "\<And>va b. in_heap va \<Longrightarrow> vbyte t va = Some b \<Longrightarrow> vbyte u va = Some b"
        "\<And>va pa. translation t va = Some pa \<Longrightarrow> translation u va = Some pa"
        using vbyte_kmalloc[OF ok] unfolding hp by blast
      have "\<forall>k < 256. in_heap (test_block h i + of_nat k)" using inh[OF i] by blast
      moreover have "(256 :: nat) \<le> 4096" by simp
      ultimately obtain w where w: "each (\<lambda>k. virt_store 1 (of_nat (i + k) :: u8) (test_block h i + of_nat k)) [0..<256] u = Inr w"
        "heap_ok w" "ptr_ok w = ptr_ok u" "heap_current_ptr w = heap_current_ptr u" "free_pages w = free_pages u"
        "translation w = translation u" "\<forall>k < 256. vbyte w (test_block h i + of_nat k) = Some (of_nat (i + k))"
        "\<forall>v. in_heap v \<longrightarrow> (\<forall>k < 256. v \<noteq> test_block h i + of_nat k) \<longrightarrow> vbyte w v = vbyte u v"
        using vbyte_fill[OF u(2,6), of "\<lambda>k. of_nat (i + k)"] by blast
      have low: "vbyte w v = vbyte u v" if "in_heap v" "unat v < unat h + 256 * i" for v
      proof -
        have "v \<noteq> test_block h i + of_nat k" if "k < 256" for k
          using blk[OF i that] \<open>unat v < unat h + 256 * i\<close> by auto
        then show ?thesis using w(8) that(1) by blast
      qed
      have nz: "test_block h i \<noteq> 0" using inh[OF i, of 0] by (auto simp: in_heap_def)
      have "test_filled h (Suc i) w"
        unfolding test_filled_def
      proof (intro allI impI)
        fix j k :: nat assume j: "j < Suc i" and k: "k < 256"
        show "vbyte w (test_block h j + of_nat k) = Some (of_nat (j + k))"
        proof (cases "j = i")
          case True
          then show ?thesis using w(7) k by blast
        next
          case False
          then have jn: "j < i" "j < TEST_HEAP_ALLOCS" using j i by simp_all
          have v: "vbyte t (test_block h j + of_nat k) = Some (of_nat (j + k))" using fl jn k unfolding test_filled_def by blast
          have "unat (test_block h j + of_nat k) < unat h + 256 * i" using blk[OF jn(2) k] jn(1) k by simp
          then show ?thesis using low[OF inh[OF jn(2) k]] u(7)[OF inh[OF jn(2) k] v] by simp
        qed
      qed
      moreover have "vbyte w va = Some b" if "in_heap va" "unat va < unat h" "vbyte s va = Some b" for va b
        using low[OF that(1)] u(7)[OF that(1) old[OF that]] that(2) by simp
      moreover have "heap_current_ptr w = test_block h (Suc i)" by (simp add: w(4) u(4) test_block_def)
      moreover have "memtest_kmalloc i pt = Inr (map (test_block h) [0..<Suc i], w)"
        by (simp only: memtest_kmalloc_def pt prod.case Let_def u(1) nz if_False w(1) and_then_simps) simp
      ultimately show "\<exists>x. memtest_kmalloc i pt = Inr x \<and> I (Suc i) x"
        using w(2,3,5,6) u(3,5,8) c tr by (auto simp: I_def)
    qed
  qed
  then show ?thesis by (auto simp: I_def test_block_def)
qed

lemma memtest_verify_all:
  fixes s :: "'a sys_state_scheme"
  assumes fl: "test_filled h TEST_HEAP_ALLOCS s"
  shows "each (memtest_verify (map (test_block h) [0..<TEST_HEAP_ALLOCS])) [0..<TEST_HEAP_ALLOCS] s = Inr s"
proof -
  have "memtest_verify (map (test_block h) [0..<TEST_HEAP_ALLOCS]) i s = Inr s" if i: "i < TEST_HEAP_ALLOCS" for i
  proof -
    have p: "map (test_block h) [0..<TEST_HEAP_ALLOCS] ! i = test_block h i" using i by simp
    have v: "virt_load 1 (test_block h i + of_nat k) s = Inr (of_nat (i + k) :: u8)" if "k < 256" for k
      using fl i that by (simp add: vbyte_load test_filled_def del: of_nat_add One_nat_def)
    have "\<exists>t. memtest_verify (map (test_block h) [0..<TEST_HEAP_ALLOCS]) i s = Inr t \<and> t = s"
      unfolding memtest_verify_def p by (rule each_upto) (use v in \<open>simp_all del: of_nat_add One_nat_def\<close>)
    then show ?thesis by simp
  qed
  then have "\<exists>t. each (memtest_verify (map (test_block h) [0..<TEST_HEAP_ALLOCS])) [0..<TEST_HEAP_ALLOCS] s = Inr t \<and> t = s"
    by (intro each_upto) simp_all
  then show ?thesis by simp
qed

section \<open>The command\<close>

lemma vga_only_memtest: "vga_only s (memtest_head title doing n what s)" "vga_only s (memtest_pass msg s)"
  unfolding memtest_head_def memtest_pass_def Let_def by (intro vga_only_after)+

text \<open>A message between two tests.\<close>

lemma vga_only_next_test: "vga_only s (memtest_head title doing n what (memtest_pass msg s))"
  by (rule vga_only_trans[OF vga_only_memtest(2) vga_only_memtest(1)])

text \<open>
  Tests 1 to 5, from the frames taken to the frames given back; \<open>q i\<close> is what is printed
  between two loops.
\<close>

lemma memtest_pages:
  fixes s :: "'a sys_state_scheme" and q :: "nat \<Rightarrow> 'a sys_state_scheme \<Rightarrow> 'a sys_state_scheme"
  assumes inv: "vmm_inv s" and small: "\<forall>i < TEST_PAGES. small_path s (memtest_addr i)"
    and room: "200 \<le> card (free_pages s)" and q: "\<forall>i t. vga_only t (q i t)"
  shows "\<exists>fs s1 s2 s3 s4. each memtest_alloc [0..<TEST_PAGES] ([], s) = Inr (map frame_addr fs, s1) \<and>
    each (memtest_map (map frame_addr fs)) [0..<TEST_PAGES] (q 2 s1) = Inr s2 \<and>
    each memtest_write [0..<TEST_PAGES] (q 3 s2) = Inr s3 \<and>
    each memtest_read [0..<TEST_PAGES] (q 4 s3) = Inr (q 4 s3) \<and>
    each memtest_unmap [0..<TEST_PAGES] (q 5 (q 4 s3)) = Inr s4 \<and>
    (let t = fold pmm_free_page (map frame_addr fs) (q 6 s4) in owns s [] t \<and>
       (\<forall>va. translation t va = (if test_page va then None else translation s va)) \<and>
       card (free_pages s) \<le> card (free_pages t) + 150)"
proof -
  note q = q[rule_format]
  have "TEST_PAGES \<le> card (free_pages s)" using room by simp
  from memtest_alloc_all[OF owns_start[OF inv] refl this]
  obtain fs s1 where s1: "each memtest_alloc [0..<TEST_PAGES] ([], s) = Inr (map frame_addr fs, s1)" "length fs = TEST_PAGES"
    "owns s fs s1" "free_pages s1 = free_pages s - set fs" "translation s1 = translation s" by blast
  have "card (set fs) = TEST_PAGES" using distinct_card[OF ownsD(4)[OF s1(3)]] s1(2) by simp
  then have c1: "card (free_pages s1) + TEST_PAGES = card (free_pages s)"
    using ownsD(5)[OF s1(3)] room by (simp add: s1(4) card_Diff_subset)
  note v1 = owns_print[OF s1(3) q[of s1 2]] vga_only_view[OF q[of s1 2]]
  have "3 * TEST_PAGES \<le> card (free_pages (q 2 s1))" using c1 room by (simp add: v1)
  from memtest_map_all[OF v1(1) s1(2) small this]
  obtain s2 where s2: "each (memtest_map (map frame_addr fs)) [0..<TEST_PAGES] (q 2 s1) = Inr s2" "owns s fs s2"
    "test_mapped TEST_PAGES fs (translation (q 2 s1)) (translation s2)"
    "card (free_pages (q 2 s1)) \<le> card (free_pages s2) + 3 * TEST_PAGES" by blast
  note v2 = owns_print[OF s2(2) q[of s2 3]] vga_only_view[OF q[of s2 3]]
  have "test_mapped TEST_PAGES fs (translation (q 2 s1)) (translation (q 3 s2))" using s2(3) by (simp only: v2)
  from memtest_write_all[OF v2(1) s1(2) this]
  obtain s3 where s3: "each memtest_write [0..<TEST_PAGES] (q 3 s2) = Inr s3" "owns s fs s3"
    "translation s3 = translation (q 3 s2)" "free_pages s3 = free_pages (q 3 s2)"
    "\<forall>i < TEST_PAGES. virt_load 8 (memtest_addr i) s3 = Inr (memtest_pattern i)" by blast
  note v3 = owns_print[OF s3(2) q[of s3 4]] vga_only_view[OF q[of s3 4]]
  have ld: "virt_load 8 va (q 4 s3) = Inr v" if "virt_load 8 va s3 = Inr (v :: u64)" for va v
    using that by (simp add: virt_load_def v3 split: option.splits)
  have rd: "each memtest_read [0..<TEST_PAGES] (q 4 s3) = Inr (q 4 s3)"
    using s3(5) ld by (intro memtest_read_all) blast
  note v4 = owns_print[OF v3(1) q[of "q 4 s3" 5]] vga_only_view[OF q[of "q 4 s3" 5]]
  from memtest_unmap_all[OF v4(1) small]
  obtain s4 where s4: "each memtest_unmap [0..<TEST_PAGES] (q 5 (q 4 s3)) = Inr s4" "owns s fs s4"
    "free_pages s4 = free_pages (q 5 (q 4 s3))"
    "\<forall>va. translation s4 va = (if test_page va then None else translation (q 5 (q 4 s3)) va)" by blast
  note v5 = owns_print[OF s4(2) q[of s4 6]] vga_only_view[OF q[of s4 6]]
  note fr = owns_free_all[OF v5(1)]
  have "translation (q 6 s4) va = (if test_page va then None else translation s va)" for va
    using s2(3) s4(4) by (simp add: v5 v4 v3 s3(3) v2 v1 s1(5) test_mapped_def)
  moreover have "card (free_pages s) \<le> card (free_pages (q 6 s4)) + 150 + length fs"
    using c1 s2(4) s1(2) by (simp add: v5 s4(3) v4 v3 s3(4) v2 v1)
  ultimately have "let t = fold pmm_free_page (map frame_addr fs) (q 6 s4) in owns s [] t \<and>
       (\<forall>va. translation t va = (if test_page va then None else translation s va)) \<and>
       card (free_pages s) \<le> card (free_pages t) + 150"
    using fr unfolding Let_def by simp
  with s1(1) s2(1) s3(1) rd s4(1) show ?thesis by blast
qed

text \<open>What is printed between the loops.\<close>

definition between :: "nat \<Rightarrow> 'a vga_state_scheme \<Rightarrow> 'a vga_state_scheme" where
  "between i t =
     (if i = 2 then memtest_head ''Test 2: VMM Page Mapping'' ''  Mapping '' TEST_PAGES '' pages...''
        (memtest_pass ''  [PASS] All pages allocated!'' t)
      else if i = 3 then memtest_head ''Test 3: Memory Read/Write'' ''  Writing test pattern to '' TEST_PAGES '' pages...''
        (memtest_pass ''  [PASS] All pages mapped correctly!'' t)
      else if i = 4 then line ''  Reading back and verifying...'' t
      else if i = 5 then memtest_head ''Test 4: VMM Page Unmapping'' ''  Unmapping '' TEST_PAGES '' pages...''
        (memtest_pass ''  [PASS] All data verified!'' t)
      else memtest_head ''Test 5: PMM Page Freeing'' ''  Freeing '' TEST_PAGES '' pages...''
        (memtest_pass ''  [PASS] All pages unmapped!'' t))"

lemma vga_only_between [simp]: "vga_only t (between i t)"
  by (simp add: between_def vga_only_next_test)

lemma between_fold:
  "memtest_head ''Test 2: VMM Page Mapping'' ''  Mapping '' TEST_PAGES '' pages...''
     (memtest_pass ''  [PASS] All pages allocated!'' t) = between 2 t"
  "memtest_head ''Test 3: Memory Read/Write'' ''  Writing test pattern to '' TEST_PAGES '' pages...''
     (memtest_pass ''  [PASS] All pages mapped correctly!'' t) = between 3 t"
  "line ''  Reading back and verifying...'' t = between 4 t"
  "memtest_head ''Test 4: VMM Page Unmapping'' ''  Unmapping '' TEST_PAGES '' pages...''
     (memtest_pass ''  [PASS] All data verified!'' t) = between 5 t"
  "memtest_head ''Test 5: PMM Page Freeing'' ''  Freeing '' TEST_PAGES '' pages...''
     (memtest_pass ''  [PASS] All pages unmapped!'' t) = between 6 t"
  by (simp_all add: between_def)

text \<open>After the frames are given back the heap is as before.\<close>

lemma owns_heap:
  fixes B t :: "'a heap_state_scheme"
  assumes own: "owns B [] t" and ok: "heap_ok B"
    and tr: "\<forall>va. translation t va = (if test_page va then None else translation B va)"
  shows "heap_ok t" "ptr_ok t = ptr_ok B" "heap_current_ptr t = heap_current_ptr B"
    "in_heap va \<Longrightarrow> vbyte t va = vbyte B va"
proof -
  note D = ownsD[OF own]
  show "heap_ok t" using D(2,6,9) tr by (intro heap_ok_unmapped[OF ok]) (auto split: if_splits)
  note hp = mm_only_heap_fields[OF D(3)]
  show "heap_current_ptr t = heap_current_ptr B" "ptr_ok t = ptr_ok B" by (simp_all add: ptr_ok_def hp)
  show "vbyte t va = vbyte B va" if va: "in_heap va"
  proof -
    have "pa \<in> kept_bytes B" if "translation B va = Some pa" for pa using ok va that unfolding heap_ok_def by blast
    then show ?thesis
      using tr heap_not_test_page[OF va] D(8) by (cases "translation B va") (simp_all add: vbyte_def)
  qed
qed

text \<open>
  C5: the self test never reports a failure. From a sound heap and page tables without large
  pages over the test addresses, with 1350 free frames and 25600 bytes of heap left, all six
  tests pass; the heap stays sound and is 25600 bytes fuller, filled with the test data,
  everything stored in it before is still there, and all other addresses keep their
  translation.
\<close>

theorem memtest_passes:
  fixes s :: "'a sys_state_scheme"
  assumes "heap_ok s" and "ptr_ok s" and "\<forall>i < TEST_PAGES. small_path s (memtest_addr i)"
    and "1350 \<le> card (free_pages s)" and "unat (heap_current_ptr s) + 25600 < unat (HEAP_START + HEAP_SIZE)"
  shows "\<exists>w. cmd_memtest args s = CmdReturn (newline (memtest_pass ''=== All Tests Passed! ==='' (newline w))) \<and>
    heap_ok w \<and> ptr_ok w \<and> heap_current_ptr w = heap_current_ptr s + 25600 \<and>
    test_filled (heap_current_ptr s) TEST_HEAP_ALLOCS w \<and>
    (\<forall>va b. in_heap va \<and> unat va < unat (heap_current_ptr s) \<and> vbyte s va = Some b \<longrightarrow> vbyte w va = Some b) \<and>
    (\<forall>va pa. \<not> test_page va \<and> translation s va = Some pa \<longrightarrow> translation w va = Some pa)"
proof -
  define B where "B = memtest_head ''Test 1: PMM Page Allocation'' ''  Allocating '' TEST_PAGES '' pages...''
      (newline (line ''=== Memory Stress Test ==='' (newline s)))"
  have B: "vga_only s B" unfolding B_def by (intro vga_only_after vga_only_trans[OF _ vga_only_memtest(1)])
  note vB = vga_only_view[OF B] vbyte_print[OF B] vga_only_heap[OF B]
  have B1: "vmm_inv B" "\<forall>i < TEST_PAGES. small_path B (memtest_addr i)" "200 \<le> card (free_pages B)" "heap_ok B"
    using assms by (simp_all add: vB heap_ok_def)
  have q: "\<forall>i t. vga_only t (between i t)" by simp
  from memtest_pages[OF B1(1-3) q] obtain fs s1 s2 s3 s4 t where
    e: "each memtest_alloc [0..<TEST_PAGES] ([], B) = Inr (map frame_addr fs, s1)"
    "each (memtest_map (map frame_addr fs)) [0..<TEST_PAGES] (between 2 s1) = Inr s2"
    "each memtest_write [0..<TEST_PAGES] (between 3 s2) = Inr s3"
    "each memtest_read [0..<TEST_PAGES] (between 4 s3) = Inr (between 4 s3)"
    "each memtest_unmap [0..<TEST_PAGES] (between 5 (between 4 s3)) = Inr s4"
    "fold pmm_free_page (map frame_addr fs) (between 6 s4) = t" and own: "owns B [] t"
    and tr: "\<forall>va. translation t va = (if test_page va then None else translation B va)"
    and c: "card (free_pages B) \<le> card (free_pages t) + 150" unfolding Let_def by blast
  note t = owns_heap[OF own B1(4) tr]
  define t' where "t' = memtest_head ''Test 6: Heap Allocations'' ''  Allocating '' TEST_HEAP_ALLOCS '' heap blocks...''
        (memtest_pass ''  [PASS] All pages freed!'' t)"
  have t'1: "vga_only t t'" unfolding t'_def by (rule vga_only_next_test)
  note vt = vga_only_view[OF t'1] vbyte_print[OF t'1] vga_only_heap[OF t'1]
  have ready: "heap_ok t'" "ptr_ok t'" "unat (heap_current_ptr t') + 25600 < 0xFFFF800001000000"
    "12 * TEST_HEAP_ALLOCS \<le> card (free_pages t')"
    using t assms(2,4,5) c by (simp_all add: vt vB)
  have hp: "heap_current_ptr t' = heap_current_ptr s" by (simp add: vt t(3) vB)
  from memtest_kmalloc_all[OF ready, unfolded hp]
  obtain s5 where e7: "each memtest_kmalloc [0..<TEST_HEAP_ALLOCS] ([], t')
      = Inr (map (test_block (heap_current_ptr s)) [0..<TEST_HEAP_ALLOCS], s5)"
    and s5: "heap_ok s5" "ptr_ok s5" "heap_current_ptr s5 = heap_current_ptr s + 25600"
    "test_filled (heap_current_ptr s) TEST_HEAP_ALLOCS s5"
    "\<forall>va b. in_heap va \<longrightarrow> unat va < unat (heap_current_ptr s) \<longrightarrow> vbyte t' va = Some b \<longrightarrow> vbyte s5 va = Some b"
    "\<forall>va pa. translation t' va = Some pa \<longrightarrow> translation s5 va = Some pa" by blast
  define w0 where "w0 = line ''  Verifying heap data...'' s5"
  have "test_filled (heap_current_ptr s) TEST_HEAP_ALLOCS w0"
    using s5(4) vbyte_print[of s5 w0] by (simp add: test_filled_def w0_def)
  note e8 = memtest_verify_all[OF this]
  define w where "w = memtest_pass ''  [PASS] Heap test successful!'' w0"
  have "vga_only s5 w" unfolding w_def w0_def by (rule vga_only_trans[OF vga_only_println vga_only_memtest(2)])
  note vw = vga_only_view[OF this] vbyte_print[OF this] vga_only_heap[OF this]
  have "cmd_memtest args s = CmdReturn (newline (memtest_pass ''=== All Tests Passed! ==='' (newline w)))"
    by (simp only: cmd_memtest_def Let_def B_def[symmetric] e and_then_simps prod.case between_fold
        t'_def[symmetric] e7 w0_def[symmetric] e8 w_def[symmetric] finish.simps)
  moreover have "vbyte w va = Some b" if "in_heap va" "unat va < unat (heap_current_ptr s)" "vbyte s va = Some b" for va b
    using s5(5) that by (simp add: vw vt t(4) vB)
  moreover have "translation w va = Some pa" if "\<not> test_page va" "translation s va = Some pa" for va pa
    using s5(6) tr that by (simp add: vw vt vB)
  moreover have "test_filled (heap_current_ptr s) TEST_HEAP_ALLOCS w" using s5(4) by (simp add: test_filled_def vw)
  ultimately show ?thesis using s5(1-3) by (intro exI[of _ w]) (simp add: vw)
qed

section \<open>A machine with eighteen megabytes\<close>

definition large_memory_map :: "u64 \<Rightarrow> u8" where
  "large_memory_map = boot_memory_map(0x1000D := 1)"

lemma large_map_low: "\<forall>a. unat a < 0x10000 \<longrightarrow> large_memory_map a = 0"
  using boot_map_low by (auto simp: large_memory_map_def)

lemma large_map_entries:
  "memory_map_entry_count large_memory_map = 1"
  "map_entry large_memory_map 0 = \<lparr>e_base = 0x100000, e_length = 0x1100000, e_type = 1, e_reserved = 0\<rparr>"
  unfolding large_memory_map_def by code_simp+

text \<open>What the kernel makes of the memory map, wherever the rest of the memory is used for.\<close>

lemma large_map_ok:
  assumes "memory_map_entry_count m = 1"
    and "map_entry m 0 = \<lparr>e_base = 0x100000, e_length = 0x1100000, e_type = 1, e_reserved = 0\<rparr>"
  shows "ram_pages m = 4608" "boot_map_ok (l_kernel_start example_layout) (l_kernel_end example_layout) m"
    "0x100000 \<le> unat (l_kernel_end example_layout)" "boot_free example_layout m = {273..<4608}"
proof -
  have l: "l_kernel_start example_layout = 0x100000" "l_kernel_end example_layout = 0x110000"
    by (simp_all add: example_layout_def)
  have "{..<map_count m} = {0}" using assms(1) by auto
  then show ram: "ram_pages m = 4608" by (simp add: ram_pages_def assms entry_end_def)
  have "{i. i < 1 \<and> e_type (map_entry m i) = 1} = {0}" using assms(2) by auto
  then have use: "usable_pages m 1 = {256..<4608}" by (simp add: usable_pages_def assms)
  have e: "reserved_end m 0x110000 = 273" by (simp add: reserved_end_def bitmap_start_def ram)
  show "boot_map_ok (l_kernel_start example_layout) (l_kernel_end example_layout) m"
    by (simp add: l boot_map_ok_def ram e assms entry_end_def)
  show "0x100000 \<le> unat (l_kernel_end example_layout)" by (simp add: l)
  show "boot_free example_layout m = {273..<4608}"
    by (auto simp: boot_free_def l e assms use[unfolded One_nat_def])
qed

lemma power_on_memory: "mem (power_on m r) = m" "cr3 (power_on m r) = r"
  by (simp_all add: power_on_def)

lemma large_memory_ok:
  defines "t \<equiv> boot_memory example_layout (power_on large_memory_map 0x1000)"
  shows "heap_ok t" "ptr_ok t" "free_pages t = {273..<4608}" "heap_current_ptr t = HEAP_START"
    "small_path t va"
proof -
  note L = large_map_ok[OF large_map_entries]
  have B: "boot_map_ok (l_kernel_start example_layout) (l_kernel_end example_layout) (mem (power_on large_memory_map 0x1000))"
    "boot_tables_ok (mem (power_on large_memory_map 0x1000)) (cr3 (power_on large_memory_map 0x1000))"
    "ram_pages (mem (power_on large_memory_map 0x1000)) \<le> 2 ^ 40"
    using zero_root_ok[OF large_map_low] by (simp_all add: power_on_memory L)
  note m = boot_memory_ok[OF B(1) L(3) B(2,3), folded t_def]
  show "heap_ok t" "ptr_ok t" "heap_current_ptr t = HEAP_START" by (rule m)+
  show "free_pages t = {273..<4608}" by (simp add: m(3) power_on_memory L(4))
  have "PML4_INDEX va < 512" by (rule index_less)
  then have "absent (pte_at large_memory_map 0x1000 (PML4_INDEX va))" by (simp add: zero_root[OF large_map_low] absent_def)
  then show "small_path t va" by (intro m(5)) (simp add: power_on_memory)
qed

lemma memtest_passes_witness:
  "\<exists>w. cmd_memtest [] (boot_memory example_layout (power_on large_memory_map 0x1000)) =
     CmdReturn (newline (memtest_pass ''=== All Tests Passed! ==='' (newline w))) \<and>
     heap_current_ptr w = HEAP_START + 25600"
proof -
  define t where "t = boot_memory example_layout (power_on large_memory_map 0x1000)"
  note m = large_memory_ok[folded t_def]
  have "\<forall>i < TEST_PAGES. small_path t (memtest_addr i)" "1350 \<le> card (free_pages t)"
    "unat (heap_current_ptr t) + 25600 < unat (HEAP_START + HEAP_SIZE)" using m(5) by (simp_all add: m)
  from memtest_passes[OF m(1,2) this, of "[]"] show ?thesis unfolding t_def[symmetric] m(4) by blast
qed

end
