(* ===== verification/UserTest.thy ===== *)
theory UserTest
  imports MemTest
begin

text \<open>
  The command \<^verbatim>\<open>usertest\<close> of \<^verbatim>\<open>src/kernel/commands/usertest.c\<close> on the page tables of the boot
  loader, which maps the low memory by large pages: what it writes, what it makes accessible to
  user mode, and what the program it starts gets from its system call.
\<close>

section \<open>The user bit does not change the translation\<close>

definition user_grown :: "'a vmm_state_scheme \<Rightarrow> 'b vmm_state_scheme \<Rightarrow> bool" where
  "user_grown s t \<longleftrightarrow> vmm_inv t \<and> tables t = tables s \<and> bitmap_bytes t = bitmap_bytes s \<and> free_pages t = free_pages s \<and>
     (\<forall>q. pt_tree t q = pt_tree s q \<or> pt_tree t q = pt_tree s q OR PAGE_USER)"

lemma user_grown_refl: "vmm_inv s \<Longrightarrow> user_grown s s"
  by (simp add: user_grown_def)

lemma user_grown_trans: "user_grown s t \<Longrightarrow> user_grown t u \<Longrightarrow> user_grown s u"
proof -
  assume a: "user_grown s t" and b: "user_grown t u"
  have "pt_tree u q = pt_tree s q \<or> pt_tree u q = pt_tree s q OR PAGE_USER" for q
  proof -
    have "pt_tree t q = pt_tree s q \<or> pt_tree t q = pt_tree s q OR PAGE_USER"
      "pt_tree u q = pt_tree t q \<or> pt_tree u q = pt_tree t q OR PAGE_USER"
      using a b unfolding user_grown_def by blast+
    then show ?thesis by (elim disjE) (simp_all add: or.assoc)
  qed
  then show ?thesis using a b unfolding user_grown_def by simp
qed

lemma user_bit_neutral:
  assumes "e' = e \<or> e' = e OR PAGE_USER"
  shows "is_table e' = is_table e" "absent e' = absent e" "phys_field e' = phys_field e" "e' AND NOT 0xFFF = e AND NOT 0xFFF"
    "e' AND PAGE_SIZE_2MB = e AND PAGE_SIZE_2MB" "e AND PAGE_USER \<noteq> 0 \<Longrightarrow> e' AND PAGE_USER \<noteq> 0"
  using assms by (auto simp: or_user absent_def phys_field_def bit.conj_disj_distrib2)

lemma user_grown_translation:
  assumes "vmm_inv s" and "user_grown s t"
  shows "translation t = translation s"
proof
  fix va
  have inv: "vmm_inv t" and e: "pt_tree t q = pt_tree s q \<or> pt_tree t q = pt_tree s q OR PAGE_USER" for q
    using assms(2) by (simp_all add: user_grown_def)
  note n = user_bit_neutral(1,2,3)[OF e]
  show "translation t va = translation s va"
    by (simp only: translation_tree[OF assms(1)] translation_tree[OF inv] tree_translate_kinds Let_def n)
qed

lemma user_grown_plain: "user_grown s t \<Longrightarrow> plain_bytes t = plain_bytes s"
  by (simp add: user_grown_def plain_bytes_def)

text \<open>One level of the walk at a present entry, with the user flag requested.\<close>

lemma next_table_user:
  fixes s :: "'a vmm_state_scheme"
  assumes inv: "vmm_inv s" and t: "tables s p = Some t" and i: "i < 512"
    and e: "\<not> absent (pt_tree s (i # p))" and fl: "ucast flags AND PAGE_USER \<noteq> (0 :: u64)"
  shows "\<exists>u. vmm_next_table create flags t i s = (Some (pt_tree s (i # p) AND NOT 0xFFF), u) \<and> user_grown s u \<and>
    pt_tree u (i # p) AND PAGE_USER \<noteq> 0 \<and> (\<forall>a \<in> plain_bytes s. mem u a = mem s a)"
proof -
  define e where "e = pt_tree s (i # p)"
  have pe: "pte_at (mem s) t i = e" using tree_of_table[OF t i] by (simp add: e_def)
  have pr: "e AND PAGE_PRESENT \<noteq> 0" using e by (simp add: e_def absent_def)
  show ?thesis
  proof (cases "e AND PAGE_USER = 0")
    case True
    let ?u = "pte_set t i (e OR PAGE_USER) s"
    have d: "drop_bit 52 (e OR PAGE_USER) = 0"
      using vmm_invD(7)[OF inv, of "i # p"] by (simp only: or_user e_def)
    have "length p = 3 \<or> is_table (e OR PAGE_USER) = is_table (pte_at (mem s) t i) \<and>
        (e OR PAGE_USER) AND NOT 0xFFF = pte_at (mem s) t i AND NOT 0xFFF"
      by (simp only: pe or_user simp_thms)
    note st = vmm_inv_store[OF inv t i this d]
    have pu: "pte_at (mem ?u) t i = e OR PAGE_USER"
      using vmm_invD(4)[OF inv t] i by (simp add: pte_set_def pte_at_write)
    have "vmm_next_table create flags t i s = (Some (e AND NOT 0xFFF), emit Mfence ?u)"
      using True fl pe pu pr or_user(2)[of e] by (simp add: vmm_next_table_def Let_def)
    moreover have "user_grown s (emit Mfence ?u)"
      using st(1-5) by (auto simp: user_grown_def fun_eq_iff e_def)
    moreover have "mem ?u a = mem s a" if "a \<in> plain_bytes s" for a
    proof (rule st(6))
      have "unat t div 4096 \<noteq> unat a div 4096" using that t unfolding plain_bytes_def by blast
      then show "a \<notin> frame_bytes (unat t div 4096)" by (simp add: frame_bytes_def)
    qed
    moreover have "(e OR PAGE_USER) AND PAGE_USER \<noteq> 0" by (simp add: bit.conj_disj_distrib2)
    ultimately show ?thesis using st(3) by (simp add: e_def)
  next
    case False
    then have "vmm_next_table create flags t i s = (Some (e AND NOT 0xFFF), s)"
      using pe pr by (simp add: vmm_next_table_def)
    then show ?thesis using False inv by (auto simp: e_def user_grown_refl)
  qed
qed

section \<open>Pages of the identity mapping\<close>

text \<open>
  The first gigabyte, mapped to itself by large pages as the boot loader does it: entry \<open>j\<close> of
  the page directory maps the two megabytes from \<open>j\<close> times 0x200000 on.
\<close>

definition identity_large :: "'a vmm_state_scheme \<Rightarrow> u64 \<Rightarrow> bool" where
  "identity_large s j \<longleftrightarrow> is_table (pt_tree s [0]) \<and> is_table (pt_tree s [0, 0]) \<and>
     \<not> absent (pt_tree s [j, 0, 0]) \<and> pt_tree s [j, 0, 0] AND PAGE_SIZE_2MB \<noteq> 0 \<and>
     pt_tree s [j, 0, 0] AND NOT 0xFFF = push_bit 21 j"

text \<open>Code in user mode may access the large page if all three entries have the user bit.\<close>

definition user_large :: "'a vmm_state_scheme \<Rightarrow> u64 \<Rightarrow> bool" where
  "user_large s j \<longleftrightarrow> (\<forall>q \<in> {[0], [0, 0], [j, 0, 0]}. pt_tree s q AND PAGE_USER \<noteq> 0)"

lemma user_grown_large:
  assumes "user_grown s t"
  shows "identity_large t j = identity_large s j" "user_large s j \<Longrightarrow> user_large t j"
proof -
  have e: "pt_tree t q = pt_tree s q \<or> pt_tree t q = pt_tree s q OR PAGE_USER" for q
    using assms by (simp add: user_grown_def)
  show "identity_large t j = identity_large s j"
    by (simp only: identity_large_def user_bit_neutral(1,2,4,5)[OF e])
  show "user_large s j \<Longrightarrow> user_large t j" unfolding user_large_def using user_bit_neutral(6)[OF e] by blast
qed

lemma low_indices:
  assumes "unat va div 0x200000 = j" and "j < 512"
  shows "PML4_INDEX va = 0" "PDPT_INDEX va = 0" "PD_INDEX va = of_nat j" "va AND NOT (mask 21) = push_bit 21 (of_nat j)"
proof -
  have d21: "drop_bit 21 va = of_nat j"
  proof -
    have "unat (drop_bit 21 va) = j" using assms(1) by (simp add: unat_drop_bit_eq drop_bit_nat_def)
    moreover have "unat (of_nat j :: u64) = j" using assms(2) by (intro u64_of_nat_less) simp
    ultimately show ?thesis by (metis word_unat_eq_iff)
  qed
  have j9: "take_bit 9 (of_nat j :: u64) = of_nat j"
    using assms(2) u64_of_nat_less[of j]
    by (simp add: word_unat_eq_iff unsigned_take_bit_eq take_bit_nat_def)
  show "PD_INDEX va = of_nat j" by (simp add: index_bits d21 j9)
  have b: "drop_bit (n + 9) (of_nat j :: u64) = 0" for n
    by (subst j9[symmetric]) (simp add: drop_bit_take_bit)
  have "drop_bit 30 va = drop_bit 9 (drop_bit 21 va)" "drop_bit 39 va = drop_bit 18 (drop_bit 21 va)" by simp_all
  then show "PML4_INDEX va = 0" "PDPT_INDEX va = 0" using b[of 0] b[of 9] by (simp_all add: index_bits d21)
  have "va AND NOT (mask 21) = push_bit 21 (drop_bit 21 va)"
    by (rule bit_word_eqI) (auto simp: bit_simps)
  then show "va AND NOT (mask 21) = push_bit 21 (of_nat j)" by (simp add: d21)
qed

lemma identity_large_translation:
  assumes inv: "vmm_inv s" and j: "unat va div 0x200000 = j" "j < 512" and id: "identity_large s (of_nat j)"
  shows "translation s va = Some va"
proof -
  note x = low_indices[OF j]
  have ph: "phys_field (pt_tree s [of_nat j, 0, 0]) = push_bit 21 (of_nat j)"
    using id phys_field_plain[OF vmm_invD(7)[OF inv]] by (simp add: identity_large_def)
  have "push_bit 21 (of_nat j) AND NOT (mask 21) OR va AND mask 21 = va"
    unfolding x(4)[symmetric] by (rule bit_word_eqI) (auto simp: bit_simps)
  then show ?thesis
    using id unfolding translation_tree[OF inv] tree_translate_kinds Let_def x ph
    by (simp add: identity_large_def is_table_def absent_def)
qed

text \<open>
  \<^verbatim>\<open>vmm_map_page\<close> with the user flag on a large page: it opens the whole page, maps nothing and
  writes the entry into the first bytes of the page.
\<close>

lemma map_user_large:
  fixes s :: "'a vmm_state_scheme" and pa :: u64
  assumes inv: "vmm_inv s" and id: "identity_large s j" and j: "j < 512"
    and va: "PML4_INDEX va = 0" "PDPT_INDEX va = 0" "PD_INDEX va = j" "PT_INDEX va = 0"
    and fl: "ucast flags AND PAGE_USER \<noteq> (0 :: u64)" and pl: "\<forall>k < 8. push_bit 21 j + of_nat k \<in> plain_bytes s"
  defines "t \<equiv> vmm_map_page va pa flags s"
  shows "user_grown s t" "user_large t j" "a \<in> plain_bytes s \<Longrightarrow> \<forall>k < 8. a \<noteq> push_bit 21 j + of_nat k \<Longrightarrow> mem t a = mem s a"
proof -
  note I = id[unfolded identity_large_def]
  have t4: "tables s [] = Some (current_pml4_phys s)" by simp
  have na: "\<not> absent (pt_tree s [0])" "\<not> absent (pt_tree s [0, 0])" using I absent_not_table by blast+
  obtain s1 where s1: "vmm_next_table True flags (current_pml4_phys s) 0 s = (Some (pt_tree s [0] AND NOT 0xFFF), s1)"
    "user_grown s s1" "pt_tree s1 [0] AND PAGE_USER \<noteq> 0" "\<forall>a \<in> plain_bytes s. mem s1 a = mem s a"
    using next_table_user[OF inv t4 _ na(1) fl, of True] by auto
  have inv1: "vmm_inv s1" using s1(2) by (simp add: user_grown_def)
  have I1: "identity_large s1 j" using id user_grown_large[OF s1(2)] by simp
  have "tables s [0] = Some (pt_tree s [0] AND NOT 0xFFF)" using I by (intro table_below) simp_all
  then have t3: "tables s1 [0] = Some (pt_tree s [0] AND NOT 0xFFF)" using s1(2) by (simp add: user_grown_def)
  have e3: "pt_tree s1 [0, 0] AND NOT 0xFFF = pt_tree s [0, 0] AND NOT 0xFFF" "\<not> absent (pt_tree s1 [0, 0])"
    using s1(2) na(2) user_bit_neutral(2,4)[of "pt_tree s1 [0, 0]" "pt_tree s [0, 0]"] by (auto simp: user_grown_def)
  obtain s2 where s2: "vmm_next_table True flags (pt_tree s [0] AND NOT 0xFFF) 0 s1 = (Some (pt_tree s [0, 0] AND NOT 0xFFF), s2)"
    "user_grown s1 s2" "pt_tree s2 [0, 0] AND PAGE_USER \<noteq> 0" "\<forall>a \<in> plain_bytes s1. mem s2 a = mem s1 a"
    using next_table_user[OF inv1 t3 _ e3(2) fl, of True] e3(1) by auto
  have inv2: "vmm_inv s2" and g2: "user_grown s s2" using s2(2) user_grown_trans[OF s1(2) s2(2)] by (simp_all add: user_grown_def)
  have I2: "identity_large s2 j" using id user_grown_large[OF g2] by simp
  have "tables s [0, 0] = Some (pt_tree s [0, 0] AND NOT 0xFFF)" using I by (intro table_below) simp_all
  then have t2: "tables s2 [0, 0] = Some (pt_tree s [0, 0] AND NOT 0xFFF)" using g2 by (simp add: user_grown_def)
  note I2 = I2[unfolded identity_large_def]
  obtain s3 where s3: "vmm_next_table True flags (pt_tree s [0, 0] AND NOT 0xFFF) j s2 = (Some (push_bit 21 j), s3)"
    "user_grown s2 s3" "pt_tree s3 [j, 0, 0] AND PAGE_USER \<noteq> 0" "\<forall>a \<in> plain_bytes s2. mem s3 a = mem s2 a"
    using next_table_user[OF inv2 t2 j _ fl, of True] I2 by auto
  have g3: "user_grown s s3" by (rule user_grown_trans[OF g2 s3(2)])
  have inv3: "vmm_inv s3" using s3(2) by (simp add: user_grown_def)
  define m where "m = write64 ((pa AND NOT 0xFFF) OR ucast flags OR PAGE_PRESENT) (push_bit 21 j) (mem s3)"
  have out: "\<forall>a. a \<notin> plain_bytes s3 \<longrightarrow> m a = mem s3 a"
    using pl by (auto simp: m_def user_grown_plain[OF g3] intro: store_le_other)
  note w = plain_write[OF inv3 out]
  have t: "t = emit (Invlpg va) (emit Mfence (s3\<lparr>mem := m\<rparr>))"
    by (simp only: t_def vmm_map_page_def vmm_get_pte_flags_def va s1(1) s2(1) s3(1) prod.case option.case m_def
        Let_def vmm_invlpg_def mult_zero_right add_0_right)
  have g: "user_grown s3 t" using w by (simp add: t user_grown_def)
  show "user_grown s t" by (rule user_grown_trans[OF g3 g])
  have up: "pt_tree u q AND PAGE_USER \<noteq> 0" if "user_grown v u" "pt_tree v q AND PAGE_USER \<noteq> 0" for u v :: "'a vmm_state_scheme" and q
    using that user_bit_neutral(6)[of "pt_tree u q" "pt_tree v q"] by (simp add: user_grown_def)
  show "user_large t j"
    unfolding user_large_def
    using up[OF g up[OF s3(2) up[OF s2(2) s1(3)]]] up[OF g up[OF s3(2) s2(3)]] up[OF g s3(3)] by blast
  show "mem t a = mem s a" if "a \<in> plain_bytes s" "\<forall>k < 8. a \<noteq> push_bit 21 j + of_nat k"
  proof -
    have "m a = mem s3 a" unfolding m_def using that(2) by (intro store_le_other) blast
    then show ?thesis
      using that(1) s1(4) s2(4) s3(4) by (simp add: t user_grown_plain[OF s1(2)] user_grown_plain[OF g2])
  qed
qed

section \<open>The command\<close>

lemma alloc_tree:
  fixes s :: "'a vmm_state_scheme"
  assumes inv: "vmm_inv s" and ne: "free_pages s \<noteq> {}"
  shows "\<exists>p t. pmm_alloc_page s = (p, t) \<and> p \<noteq> 0 \<and> vmm_inv t \<and> tables t = tables s \<and> pt_tree t = pt_tree s \<and>
    plain_bytes t = plain_bytes s \<and> card (free_pages t) + 1 = card (free_pages s)"
proof -
  define f where "f = Min (free_pages s)"
  let ?t = "bm_set (of_nat f) s"
  have f: "f \<in> free_pages s" using ne by (simp add: f_def)
  note a = vmm_alloc_frame[OF inv ne, folded f_def]
  note fb = free_frame_bounds[OF inv f]
  note D = vmm_invD[OF inv]
  have uf: "unat (of_nat f :: u64) = f" using fb(2) by (intro u64_of_nat_less) simp
  have out: "mem ?t a = mem s a" if "a \<notin> bitmap_bytes s" for a
    using that free_pages_less[OF f] uf by (simp add: mem_bm_set)
  have "page_aligned u \<and> (\<forall>a \<in> frame_bytes (unat u div 4096). mem ?t a = mem s a)" if "tables s q = Some u" for q u
    using D(4)[OF that] D(6)[OF that] out by blast
  note tc = table_of_cong[of "mem s" "current_pml4_phys s" "mem ?t", OF this]
  have e: "tables ?t = tables s" "pt_tree ?t = pt_tree s" using tc by (simp_all add: fun_eq_iff)
  have "plain_bytes ?t = plain_bytes s" by (simp only: plain_bytes_def e) (simp add: bitmap_bytes_def)
  moreover have "card (free_pages ?t) + 1 = card (free_pages s)"
    using f card_Suc_Diff1[OF _ f] by (simp add: a(3))
  ultimately show ?thesis using a(1,2) e fb(4) by blast
qed

lemma copy_identity:
  fixes s :: "'a sys_state_scheme"
  assumes inv: "vmm_inv s" and tr: "\<forall>k < length bs. translation s (b + of_nat k) = Some (b + of_nat k)"
    and pl: "\<forall>k < length bs. b + of_nat k \<in> plain_bytes s" and n: "length bs \<le> 4096"
  shows "\<exists>t. copy_to_user b bs s = Inr t \<and> user_grown s t \<and> (\<forall>k < length bs. mem t (b + of_nat k) = bs ! k)"
proof -
  define I where "I i t \<longleftrightarrow> user_grown s t \<and> (\<forall>k < i. mem t (b + of_nat k) = bs ! k)" for i and t :: "'a sys_state_scheme"
  have ne: "b + of_nat k \<noteq> b + of_nat i" if "k < i" "i < length bs" for k i
  proof -
    have "unat (of_nat k :: u64) = k" "unat (of_nat i :: u64) = i" using that n by (simp_all add: u64_of_nat_less)
    then have "(of_nat k :: u64) \<noteq> of_nat i" using that(1) by (metis less_irrefl)
    then show ?thesis by simp
  qed
  have "\<exists>t. each (\<lambda>i. virt_store 1 (bs ! i) (b + of_nat i)) [0..<length bs] s = Inr t \<and> I (length bs) t"
  proof (rule each_upto)
    show "I 0 s" using inv by (simp add: I_def user_grown_refl)
    show "\<forall>i t. i < length bs \<longrightarrow> I i t \<longrightarrow> (\<exists>u. virt_store 1 (bs ! i) (b + of_nat i) t = Inr u \<and> I (Suc i) u)"
    proof (intro allI impI)
      fix i and t :: "'a sys_state_scheme" assume i: "i < length bs" and It: "I i t"
      have g: "user_grown s t" and invt: "vmm_inv t" using It by (simp_all add: I_def user_grown_def)
      define m where "m = (mem t)(b + of_nat i := bs ! i)"
      let ?u = "t\<lparr>mem := m\<rparr>"
      have "\<forall>a. a \<notin> plain_bytes t \<longrightarrow> m a = mem t a"
        using pl i by (auto simp: m_def user_grown_plain[OF g])
      note w = plain_write[OF invt this]
      have "user_grown t ?u" using w by (simp add: user_grown_def)
      then have "user_grown s ?u" by (rule user_grown_trans[OF g])
      moreover have "virt_store 1 (bs ! i) (b + of_nat i) t = Inr ?u"
        using tr i by (simp add: virt_store_def user_grown_translation[OF inv g] m_def)
      moreover have "mem ?u (b + of_nat k) = bs ! k" if "k < Suc i" for k
        using It ne[OF _ i, of k] that by (cases "k = i") (auto simp: I_def m_def)
      ultimately show "\<exists>u. virt_store 1 (bs ! i) (b + of_nat i) t = Inr u \<and> I (Suc i) u" unfolding I_def by blast
    qed
  qed
  then show ?thesis by (auto simp: copy_to_user_def I_def)
qed

lemma user_code_text: "length user_code = 56" "drop 41 user_code = cstr ''Hello Ring 3!'' @ [10, 0]"
  by code_simp+

lemma user_addresses:
  "push_bit 21 2 = USER_CODE_VADDR" "push_bit 21 4 = USER_STACK_VADDR"
  "PML4_INDEX USER_CODE_VADDR = 0" "PDPT_INDEX USER_CODE_VADDR = 0" "PD_INDEX USER_CODE_VADDR = 2" "PT_INDEX USER_CODE_VADDR = 0"
  "PML4_INDEX USER_STACK_VADDR = 0" "PDPT_INDEX USER_STACK_VADDR = 0" "PD_INDEX USER_STACK_VADDR = 4" "PT_INDEX USER_STACK_VADDR = 0"
  by code_simp+

text \<open>The state before the jump, with everything the memory contributes to it.\<close>

lemma usertest_memory:
  fixes s :: "'a sys_state_scheme"
  assumes inv: "vmm_inv s" and id: "identity_large s 2" "identity_large s 4" and room: "2 \<le> card (free_pages s)"
    and pl: "\<forall>k < 4096. USER_CODE_VADDR + of_nat k \<in> plain_bytes s \<and> USER_STACK_VADDR + of_nat k \<in> plain_bytes s"
  shows "\<exists>p1 t1 p2 t2 w. pmm_alloc_page s = (p1, t1) \<and> pmm_alloc_page t1 = (p2, t2) \<and> p1 \<noteq> 0 \<and> p2 \<noteq> 0 \<and>
    copy_to_user USER_CODE_VADDR user_code (vmm_map_page USER_STACK_VADDR p2 7 (vmm_map_page USER_CODE_VADDR p1 7 t2)) = Inr w \<and>
    vmm_inv w \<and> translation w = translation s \<and> identity_large w 2 \<and> identity_large w 4 \<and> user_large w 2 \<and> user_large w 4 \<and>
    (\<forall>k < length user_code. mem w (USER_CODE_VADDR + of_nat k) = user_code ! k)"
proof -
  have "free_pages s \<noteq> {}" using room by auto
  from alloc_tree[OF inv this] obtain p1 t1 where a1: "pmm_alloc_page s = (p1, t1)" "p1 \<noteq> 0" "vmm_inv t1"
    "pt_tree t1 = pt_tree s" "plain_bytes t1 = plain_bytes s" "card (free_pages t1) + 1 = card (free_pages s)" by blast
  have "free_pages t1 \<noteq> {}" using a1(6) room by auto
  from alloc_tree[OF a1(3) this] obtain p2 t2 where a2: "pmm_alloc_page t1 = (p2, t2)" "p2 \<noteq> 0" "vmm_inv t2"
    "pt_tree t2 = pt_tree t1" "plain_bytes t2 = plain_bytes t1" by blast
  have fl: "ucast (7 :: u32) AND PAGE_USER \<noteq> (0 :: u64)" by simp
  have id2: "identity_large t2 2" "identity_large t2 4" using id unfolding identity_large_def a2(4) a1(4) by blast+
  have pl2: "\<forall>k < 8. push_bit 21 2 + of_nat k \<in> plain_bytes t2" "\<forall>k < 8. push_bit 21 4 + of_nat k \<in> plain_bytes t2"
    using pl by (simp_all add: user_addresses(1,2) a1 a2)
  define t3 where "t3 = vmm_map_page USER_CODE_VADDR p1 7 t2"
  have "(2 :: u64) < 512" "(4 :: u64) < 512" by simp_all
  note m3 = map_user_large[OF a2(3) id2(1) this(1) user_addresses(3-6) fl pl2(1), of p1, folded t3_def]
  have inv3: "vmm_inv t3" using m3(1) by (simp add: user_grown_def)
  have id3: "identity_large t3 4" using id2(2) user_grown_large(1)[OF m3(1)] by simp
  define t4 where "t4 = vmm_map_page USER_STACK_VADDR p2 7 t3"
  note m4 = map_user_large[OF inv3 id3 \<open>(4 :: u64) < 512\<close> user_addresses(7-10) fl
      pl2(2)[folded user_grown_plain[OF m3(1)]], of p2, folded t4_def]
  have g4: "user_grown t2 t4" by (rule user_grown_trans[OF m3(1) m4(1)])
  have inv4: "vmm_inv t4" using g4 by (simp add: user_grown_def)
  have id4: "identity_large t4 (of_nat 2)" using id2(1) user_grown_large(1)[OF g4] by simp
  have tr4: "translation t4 (USER_CODE_VADDR + of_nat k) = Some (USER_CODE_VADDR + of_nat k)" if "k < length user_code" for k
  proof (rule identity_large_translation[OF inv4 _ _ id4])
    have "unat (USER_CODE_VADDR + of_nat k) = unat USER_CODE_VADDR + k" using that by (intro unat_index_add) (simp add: user_code_text)
    then show "unat (USER_CODE_VADDR + of_nat k) div 0x200000 = 2" using that by (simp add: user_code_text)
  qed simp
  have pl4: "\<forall>k < length user_code. USER_CODE_VADDR + of_nat k \<in> plain_bytes t4"
    using pl by (simp add: user_grown_plain[OF g4] a1 a2 user_code_text)
  have "\<forall>k < length user_code. translation t4 (USER_CODE_VADDR + of_nat k) = Some (USER_CODE_VADDR + of_nat k)"
    "length user_code \<le> 4096" using tr4 by (simp_all add: user_code_text)
  from copy_identity[OF inv4 this(1) pl4 this(2)] obtain w where w: "copy_to_user USER_CODE_VADDR user_code t4 = Inr w"
    "user_grown t4 w" "\<forall>k < length user_code. mem w (USER_CODE_VADDR + of_nat k) = user_code ! k" by blast
  have g: "user_grown t2 w" by (rule user_grown_trans[OF g4 w(2)])
  have "translation t2 = translation s" using same_tree(1)[OF inv a2(3)] by (simp add: a1 a2)
  then have "translation w = translation s" using user_grown_translation[OF a2(3) g] by simp
  moreover have "user_large w 2" "user_large w 4"
    using user_grown_large(2)[OF user_grown_trans[OF m4(1) w(2)] m3(2)] user_grown_large(2)[OF w(2) m4(2)] by blast+
  moreover have "identity_large w 2" "identity_large w 4" using id2 user_grown_large(1)[OF g] by simp_all
  moreover have "vmm_inv w" using g by (simp add: user_grown_def)
  ultimately show ?thesis using a1(1,2) a2(1,2) w(1,3) unfolding t4_def t3_def by blast
qed

text \<open>
  C8: on the page tables of the boot loader, whose large pages map the low memory to itself,
  \<^verbatim>\<open>usertest\<close> maps nothing: no translation changes, and the two frames it takes are not used. It
  writes the program to physical memory from 0x400000 on, whoever owns that, and sets the user
  bit for the two large pages, so user mode gets four megabytes of physical memory, among them
  the page with the kernel's boot stack. The system call of the program prints its message.
\<close>

theorem usertest_opens_large_pages:
  fixes s :: "'a sys_state_scheme"
  assumes "vmm_inv s" and "identity_large s 2" and "identity_large s 4" and "2 \<le> card (free_pages s)"
    and "\<forall>k < 4096. USER_CODE_VADDR + of_nat k \<in> plain_bytes s \<and> USER_STACK_VADDR + of_nat k \<in> plain_bytes s"
  shows "\<exists>t. cmd_usertest kst args s = CmdUserMode (USER_STACK_VADDR + 0xFF0) USER_CODE_VADDR t \<and>
    translation t = translation s \<and>
    (\<forall>k < length user_code. mem t (USER_CODE_VADDR + of_nat k) = user_code ! k) \<and>
    (\<forall>va. unat va div 0x200000 \<in> {2, 4} \<longrightarrow> translation t va = Some va) \<and> user_large t 2 \<and> user_large t 4 \<and>
    rsp0 (tss t) = kst + 8192 \<and> kernel_stack (cpu_data t) = kst + 8192 \<and>
    syscall_handler SYS_WRITE 1 (USER_CODE_VADDR + 7 + 0x22) 14 t = Value 14 (vga_print (cstr ''Hello Ring 3!'' @ [10]) t)"
proof -
  from usertest_memory[OF assms] obtain p1 t1 p2 t2 w where w: "pmm_alloc_page s = (p1, t1)" "pmm_alloc_page t1 = (p2, t2)"
    "p1 \<noteq> 0" "p2 \<noteq> 0"
    "copy_to_user USER_CODE_VADDR user_code (vmm_map_page USER_STACK_VADDR p2 7 (vmm_map_page USER_CODE_VADDR p1 7 t2)) = Inr w"
    "vmm_inv w" "translation w = translation s" "identity_large w 2" "identity_large w 4" "user_large w 2" "user_large w 4"
    "\<forall>k < length user_code. mem w (USER_CODE_VADDR + of_nat k) = user_code ! k" by blast
  define u where "u = syscall_set_kernel_stack (kst + 8192) (tss_set_kernel_stack (kst + 8192) w)"
  define t where "t = vmm_set_cr3 (vmm_get_cr3 u) u"
  have "cmd_usertest kst args s = CmdUserMode (USER_STACK_VADDR + 0xFF0) USER_CODE_VADDR t"
    by (simp add: cmd_usertest_def w(1-5) u_def t_def Let_def)
  moreover have f: "mem t = mem w" "current_pml4_phys t = current_pml4_phys w" "rsp0 (tss t) = kst + 8192"
    "kernel_stack (cpu_data t) = kst + 8192"
    by (simp_all add: t_def u_def vmm_set_cr3_def syscall_set_kernel_stack_def tss_set_kernel_stack_def emit_def)
  moreover have tr: "translation t = translation w" by (simp add: fun_eq_iff translation_def f)
  moreover have "user_large t 2" "user_large t 4" using w(10,11) by (simp_all add: user_large_def f)
  moreover have id: "\<forall>va. unat va div 0x200000 \<in> {2, 4} \<longrightarrow> translation t va = Some va"
  proof (intro allI impI)
    fix va :: u64 assume "unat va div 0x200000 \<in> {2, 4}"
    then show "translation t va = Some va"
      using identity_large_translation[OF w(6), of va 2] identity_large_translation[OF w(6), of va 4] w(8,9)
      unfolding tr by auto
  qed
  have tm: "translation t (USER_CODE_VADDR + 7 + 0x22 + of_nat k) = Some (USER_CODE_VADDR + 7 + 0x22 + of_nat k)" if "k < 14" for k
  proof (rule id[rule_format])
    have "unat (USER_CODE_VADDR + 7 + 0x22 + of_nat k) = 0x400029 + k"
      using that unat_index_add[of "USER_CODE_VADDR + 7 + 0x22" k] by simp
    then have "unat (USER_CODE_VADDR + 7 + 0x22 + of_nat k) div 0x200000 = 2" using that by simp
    then show "unat (USER_CODE_VADDR + 7 + 0x22 + of_nat k) div 0x200000 \<in> {2, 4}" by simp
  qed
  have bytes: "virt_bytes t (USER_CODE_VADDR + 7 + 0x22) 14 = take 14 (drop 41 user_code)"
  proof (rule nth_equalityI)
    show "length (virt_bytes t (USER_CODE_VADDR + 7 + 0x22) 14) = length (take 14 (drop 41 user_code))"
      by (simp add: virt_bytes_def user_code_text(1))
    fix k assume "k < length (virt_bytes t (USER_CODE_VADDR + 7 + 0x22) 14)"
    then have k: "k < 14" by (simp add: virt_bytes_def)
    have a: "USER_CODE_VADDR + of_nat (41 + k) = USER_CODE_VADDR + 7 + 0x22 + of_nat k" by simp
    have "virt_bytes t (USER_CODE_VADDR + 7 + 0x22) 14 ! k = mem w (USER_CODE_VADDR + of_nat (41 + k))"
      unfolding a using k tm[OF k] by (simp add: virt_bytes_def f del: One_nat_def)
    also have "\<dots> = user_code ! (41 + k)" using w(12) k by (simp only: user_code_text)
    finally show "virt_bytes t (USER_CODE_VADDR + 7 + 0x22) 14 ! k = take 14 (drop 41 user_code) ! k"
      using k by (simp add: user_code_text(1))
  qed
  have "write_loop 14 0 (USER_CODE_VADDR + 7 + 0x22) t = (Inr (), fold vga_putchar (take 14 (drop 41 user_code)) t)"
    using write_loop_mapped[of 14 t "USER_CODE_VADDR + 7 + 0x22" 0] tm bytes by simp
  moreover have "take 14 (drop 41 user_code) = cstr ''Hello Ring 3!'' @ [10]" by code_simp
  moreover have "vga_print (cstr ''Hello Ring 3!'' @ [10]) t = fold vga_putchar (cstr ''Hello Ring 3!'' @ [10]) t"
    by (simp add: vga_print_fold cstr_def)
  ultimately show ?thesis using w(7,12) id by (intro exI[of _ t]) (simp add: syscall_handler_def)
qed

section \<open>The tables of the boot loader\<close>

text \<open>Eighteen megabytes, and tables at 0x1000, 0x2000 and 0x3000 with two large pages.\<close>

definition loader_map :: "u64 \<Rightarrow> u8" where
  "loader_map = large_memory_map(0x1000 := 3, 0x1001 := 0x20, 0x2000 := 3, 0x2001 := 0x30,
     0x3010 := 0x83, 0x3012 := 0x40, 0x3020 := 0x83, 0x3022 := 0x80)"

lemma loader_zero:
  assumes "unat a < 0x10000"
    and "unat a \<notin> {0x1000, 0x1001, 0x2000, 0x2001, 0x3010, 0x3012, 0x3020, 0x3022}"
  shows "loader_map a = 0"
proof -
  have "a \<noteq> c" if "unat c \<in> {0x1000, 0x1001, 0x2000, 0x2001, 0x3010, 0x3012, 0x3020, 0x3022}" for c using assms that by metis
  then show ?thesis using large_map_low assms(1) by (simp add: loader_map_def)
qed

lemma pte_zero: "(\<And>k. k < 8 \<Longrightarrow> m (t + 8 * i + of_nat k) = 0) \<Longrightarrow> pte_at m t i = 0"
  by (rule bit_word_eqI) (simp add: pte_at_def bit_load_le)

lemma loader_entry_zero:
  assumes t: "unat t \<in> {0x1000, 0x2000, 0x3000}" and i: "i < 512"
    and n: "t = 0x3000 \<and> i \<noteq> 2 \<and> i \<noteq> 4 \<or> t \<noteq> 0x3000 \<and> i \<noteq> 0"
  shows "pte_at loader_map t i = 0"
proof (rule pte_zero, rule loader_zero)
  fix k :: nat assume k: "k < 8"
  have i': "unat i < 512" using i by (simp add: word_less_nat_alt)
  have e: "unat (t + 8 * i) = unat t + 8 * unat i" using t i' by (auto simp: unat_word_ariths)
  have a: "unat (t + 8 * i + of_nat k) = unat t + 8 * unat i + k"
    using unat_index_add[of "t + 8 * i" k] e t i' k by auto
  have n': "unat t = 0x3000 \<and> unat i \<noteq> 2 \<and> unat i \<noteq> 4 \<or> unat t \<noteq> 0x3000 \<and> unat i \<noteq> 0"
    using n by (auto simp: word_unat_eq_iff)
  show "unat (t + 8 * i + of_nat k) < 0x10000" using a t i' k by auto
  show "unat (t + 8 * i + of_nat k) \<notin> {0x1000, 0x1001, 0x2000, 0x2001, 0x3010, 0x3012, 0x3020, 0x3022}"
    unfolding a using t i' k n' by auto
qed

lemma loader_entries:
  "pte_at loader_map 0x1000 0 = 0x2003" "pte_at loader_map 0x2000 0 = 0x3003"
  "pte_at loader_map 0x3000 2 = 0x400083" "pte_at loader_map 0x3000 4 = 0x800083"
  unfolding loader_map_def large_memory_map_def by code_simp+

lemma loader_pte:
  assumes "i < 512"
  shows "pte_at loader_map 0x1000 i = (if i = 0 then 0x2003 else 0)" "pte_at loader_map 0x2000 i = (if i = 0 then 0x3003 else 0)"
    "pte_at loader_map 0x3000 i = (if i = 2 then 0x400083 else if i = 4 then 0x800083 else 0)"
  using loader_entries loader_entry_zero[OF _ assms] by auto

lemma loader_tables:
  "table_of loader_map 0x1000 q =
     (if q = [] then Some 0x1000 else if q = [0] then Some 0x2000 else if q = [0, 0] then Some 0x3000 else None)"
  by (induction q) (auto simp: table_of.simps(2) loader_pte is_table_def split: if_splits)

lemma loader_tree: "tree_of loader_map 0x1000 (i # q) =
    (if q = [] \<and> i = 0 then 0x2003 else if q = [0] \<and> i = 0 then 0x3003
     else if q = [0, 0] \<and> i = 2 then 0x400083 else if q = [0, 0] \<and> i = 4 then 0x800083 else 0)"
  by (auto simp: tree_of.simps(2) loader_tables loader_pte)

lemma loader_tables_ok: "boot_tables_ok loader_map 0x1000"
proof -
  have d: "drop_bit 52 (tree_of loader_map 0x1000 q) = 0" for q by (cases q) (simp_all add: loader_tree)
  show ?thesis
    by (auto simp: boot_tables_ok_def tables_separate_def loader_tables d page_aligned_def absent_def loader_pte split: if_splits)
qed

lemma loader_map_entries:
  "memory_map_entry_count loader_map = 1"
  "map_entry loader_map 0 = \<lparr>e_base = 0x100000, e_length = 0x1100000, e_type = 1, e_reserved = 0\<rparr>"
  unfolding loader_map_def large_memory_map_def by code_simp+

lemma loader_memory_ok:
  defines "t \<equiv> boot_memory example_layout (power_on loader_map 0x1000)"
  shows "vmm_inv t" "identity_large t 2" "identity_large t 4" "2 \<le> card (free_pages t)"
    "0x200000 \<le> unat a \<Longrightarrow> a \<in> plain_bytes t"
proof -
  note L = large_map_ok[OF loader_map_entries]
  have B: "boot_map_ok (l_kernel_start example_layout) (l_kernel_end example_layout) (mem (power_on loader_map 0x1000))"
    "boot_tables_ok (mem (power_on loader_map 0x1000)) (cr3 (power_on loader_map 0x1000))"
    "ram_pages (mem (power_on loader_map 0x1000)) \<le> 2 ^ 40"
    using loader_tables_ok by (simp_all add: power_on_memory L)
  note m = boot_memory_ok[OF B(1) L(3) B(2,3), folded t_def, unfolded power_on_memory]
  show "vmm_inv t" using m(1) by (simp add: heap_ok_def)
  show "identity_large t 2" "identity_large t 4"
    unfolding identity_large_def m(7) by (simp_all add: loader_tree is_table_def absent_def)
  show "2 \<le> card (free_pages t)" by (simp add: m(3) L(4))
  show "a \<in> plain_bytes t" if "0x200000 \<le> unat a"
  proof -
    have "unat (bitmap_start (l_kernel_end example_layout)) = 0x110000" by (simp add: example_layout_def bitmap_start_def)
    then have "a \<notin> bitmap_bytes t" using m(8)[of a] that by (auto simp: L(1))
    moreover have "unat u div 4096 \<noteq> unat a div 4096" if "tables t q = Some u" for q u
    proof -
      have "unat u \<le> 0x3000" using that by (auto simp: m(6) loader_tables split: if_splits)
      then show ?thesis using \<open>0x200000 \<le> unat a\<close> by linarith
    qed
    ultimately show ?thesis by (simp add: plain_bytes_def)
  qed
qed

lemma usertest_opens_large_pages_witness:
  "\<exists>t. cmd_usertest 0x108000 [] (boot_memory example_layout (power_on loader_map 0x1000)) = CmdUserMode 0x800FF0 0x400000 t \<and>
     translation t 0x4FFFF8 = Some 0x4FFFF8 \<and> user_large t 2"
proof -
  define s where "s = boot_memory example_layout (power_on loader_map 0x1000)"
  note m = loader_memory_ok[folded s_def]
  have "USER_CODE_VADDR + of_nat k \<in> plain_bytes s \<and> USER_STACK_VADDR + of_nat k \<in> plain_bytes s" if "k < 4096" for k
  proof (intro conjI m(5))
    show "0x200000 \<le> unat (USER_CODE_VADDR + of_nat k)" "0x200000 \<le> unat (USER_STACK_VADDR + of_nat k)"
      using that unat_index_add[of USER_CODE_VADDR k] unat_index_add[of USER_STACK_VADDR k] by simp_all
  qed
  then obtain t where t: "cmd_usertest 0x108000 [] s = CmdUserMode (USER_STACK_VADDR + 0xFF0) USER_CODE_VADDR t"
    "\<forall>va. unat va div 0x200000 \<in> {2, 4} \<longrightarrow> translation t va = Some va" "user_large t 2"
    using usertest_opens_large_pages[OF m(1-4), of "0x108000" "[]"] by blast
  have "translation t 0x4FFFF8 = Some 0x4FFFF8" using t(2)[rule_format, of "0x4FFFF8"] by simp
  then show ?thesis using t(1,3) unfolding s_def[symmetric] by (intro exI[of _ t]) simp
qed

end
