(* ===== verification/Spec2Isabelle.thy ===== *)
theory Spec2Isabelle
  imports VgaSpec HeapProps Strings TaskInv Syscall ShellSession ShellIrq BootTasks UserTest
begin

text \<open>
  A model of the kernel of KiOS, the C files of \<^verbatim>\<open>src/src/kernel\<close>, and proofs of what its parts
  do. KiOS is a 64-bit hobby operating system for the PC: a boot loader leaves a memory map and
  page tables, \<^verbatim>\<open>kernel_main\<close> sets up the processor and the drivers and creates a shell task, and
  from then on the timer interrupt switches between the idle task and the shell.

  \<^bold>\<open>State and effects.\<close> The state of the kernel is one record, which each component extends by
  its own static variables: \<open>mach\<close> (physical memory as bytes, the trace of privileged
  instructions), \<open>vga_state\<close>, \<open>pmm_state\<close>, \<open>vmm_state\<close>, \<open>heap_state\<close>, \<open>pit_state\<close>,
  \<open>task_state\<close>, \<open>irq_state\<close>, \<open>kbd_state\<close>, \<open>desc_state\<close>, \<open>sys_state\<close>, \<open>shell_state\<close>. A C
  function is a function on any extension of the record it needs, so components compose without
  lifting, and returns the new state. Machine integers are words of their width. A loop of the
  code that may never end gives \<open>None\<close> in that case; code that stops the processor, or raises an
  exception, says so in its result (\<open>control\<close>, \<open>sysret\<close>, \<open>cmd_result\<close>). What a device answers to
  a port read is a function of the trace so far, a parameter of type \<open>device\<close>.

  \<^bold>\<open>Theories and sources.\<close>
  \<^item> \<open>KBase\<close>: integer types (\<^verbatim>\<open>types.h\<close>), C strings, lemma collections. \<open>Machine\<close>: memory, ports
    (\<^verbatim>\<open>io.h\<close>).
  \<^item> \<open>Vga\<close>, \<open>VgaSpec\<close>: the text console (\<^verbatim>\<open>vga.h\<close>, \<^verbatim>\<open>vga.c\<close>). The screen refines an unbounded
    transcript; printed numbers read back.
  \<^item> \<open>Pmm\<close>, \<open>PmmInit\<close>: the frame bitmap (\<^verbatim>\<open>mm/pmm.c\<close>, \<^verbatim>\<open>mm/memory_map.h\<close>) refines a set of free
    frames (locale \<open>frame_source\<close>); which frames \<^verbatim>\<open>pmm_init\<close> frees. For usable entries that start on
    page boundaries (\<open>usable_aligned\<close>) these are the frames inside them; \<open>pmm_init_unaligned\<close> shows
    that for others a frame with foreign bytes becomes free.
  \<^item> \<open>Vmm\<close>, \<open>VmmTree\<close>, \<open>VmmMap\<close>, \<open>VmmProps\<close>: page tables (\<^verbatim>\<open>mm/vmm.c\<close>). \<open>translation\<close> is the walk
    of the processor over the bytes of memory; the invariant \<open>vmm_inv\<close> separates tables, bitmap
    and free frames; mapping and unmapping refine updates of a map of pages (locale
    \<open>address_space\<close>). \<open>VirtMem\<close>: reads and writes through the tables, and the command \<^verbatim>\<open>vmtest\<close>.
    \<open>MemTest\<close>: the command \<^verbatim>\<open>memtest\<close> over both managers and the heap. \<open>UserTest\<close>: the command
    \<^verbatim>\<open>usertest\<close> on tables whose low memory is mapped by large pages, as the loader leaves them.
  \<^item> \<open>Heap\<close>, \<open>HeapProps\<close>: \<^verbatim>\<open>kmalloc\<close> (\<^verbatim>\<open>mm/heap.c\<close>) on top of both managers; \<open>heap_ok\<close> says that
    mapped heap addresses lead to different bytes that nobody else owns.
  \<^item> \<open>Strings\<close>: \<^verbatim>\<open>string.h\<close> on byte memory.
  \<^item> \<open>Task\<close>, \<open>TaskProps\<close>, \<open>TaskInv\<close>: tasks and the round-robin scheduler (\<^verbatim>\<open>task.c\<close>), with the
    reachable task tables as the inductive predicate \<open>task_reach\<close>, for stacks of at least 208 bytes.
  \<^item> \<open>Pic\<close>, \<open>Isr\<close>, \<open>Irq\<close>: the two 8259 controllers (\<^verbatim>\<open>pic.c\<close>, with a model of the chips that
    interprets the port writes), exceptions and the timer (\<^verbatim>\<open>isr.c\<close>, \<^verbatim>\<open>pit.c\<close>), and the interrupt
    dispatcher over all handlers. \<open>sys_run\<close> runs a sequence of interrupts and calls.
  \<^item> \<open>Keyboard\<close>, \<open>KeyboardProps\<close>: scan codes and the ring buffer (\<^verbatim>\<open>keyboard.h\<close>,
    \<^verbatim>\<open>keyboard_irq.c\<close>) as a bounded queue (locale \<open>bounded_fifo\<close>).
  \<^item> \<open>Desc\<close>, \<open>Syscall\<close>: IDT, GDT, TSS (\<^verbatim>\<open>idt.c\<close>, \<^verbatim>\<open>gdt.c\<close>, \<^verbatim>\<open>tss.c\<close>) and system calls (\<^verbatim>\<open>syscall.c\<close>).
  \<^item> \<open>Commands\<close>, \<open>Shell\<close>, \<open>ShellInput\<close>, \<open>ShellProps\<close>, \<open>ShellSession\<close>: the command table and the
    nineteen commands (\<^verbatim>\<open>commands.c\<close>, \<^verbatim>\<open>commands/\<close>), the line editor and the dispatch
    (\<^verbatim>\<open>shell.c\<close>) over a source of typed characters (locales \<open>char_source\<close>, \<open>line_reader\<close>).
    \<open>ShellIrq\<close>: the shell while the keyboard interrupt is served as well.
  \<^item> \<open>Boot\<close>, \<open>BootTrace\<close>, \<open>BootTasks\<close>: \<^verbatim>\<open>kernel_main\<close> (\<^verbatim>\<open>main.c\<close>), what the hardware sees of it, and
    the state it leaves.

  \<^bold>\<open>What is shown.\<close> For the console, both memory managers, the heap, the task table, the
  ring buffer, the controllers, the descriptor tables, the system calls and the line editor: the
  invariant is established and kept, the operations have their effects, failures included, and
  refine a specification stated without the code (transcripts, sets of frames, maps of pages,
  queues, the key positions \<open>us_layout\<close> of scan code set 1). Of \<^verbatim>\<open>isr_handler\<close> it is shown that it
  writes the console and halts. The commands \<^verbatim>\<open>memtest\<close>, \<^verbatim>\<open>vmtest\<close> and \<^verbatim>\<open>usertest\<close> have theorems of
  their own and the dispatch covers all nineteen; what the others print (\<^verbatim>\<open>time\<close>, \<^verbatim>\<open>reboot\<close>,
  \<^verbatim>\<open>fault\<close>, \<^verbatim>\<open>meminfo\<close>, \<^verbatim>\<open>tasks\<close> and so on) is modelled and has no theorem.
  Across components: starting from a well-formed boot memory map and page tables (\<open>boot_ok\<close>, which
  asks for 64 free frames, enough for the 12 + 12 + 28 that the two tasks need in the worst case
  and 12 to spare) \<^verbatim>\<open>kernel_main\<close> ends with all invariants established and the shell ready, which
  then runs within ten timer interrupts; the interrupt path schedules every runnable task within
  a bounded number of ticks. Several theorems state what goes wrong: frames of sleeping tasks, large
  pages, the interrupt handler that takes the shell's input, the test command that unmaps the
  stack it runs on, and the user mode test that opens whole large pages of the kernel to the user.
  The memory test passes on every machine with small pages over its test addresses, 1350 free
  frames and 25600 bytes of heap left.

  \<^bold>\<open>Bounds.\<close> \<open>shell_run\<close> counts the rounds of the endless loop of \<^verbatim>\<open>shell_run\<close>; its correctness is
  that of a round. \<open>for_up\<close> and the mapping loop of \<^verbatim>\<open>kmalloc\<close> take the number of iterations that
  the code's bounds give; the bounds of the loops of \<^verbatim>\<open>memtest\<close> are its constants
  (\<open>TEST_PAGES\<close>, \<open>TEST_HEAP_ALLOCS\<close>). Searches of strings and polls of devices have no bound in
  the code: they are partial functions, and what returns is shown to return.

  \<^bold>\<open>Not modelled.\<close> The assembly files (interrupt stubs, system call entry, the jump to user mode,
  \<^verbatim>\<open>entry.asm\<close>), the boot loader, the linker script and the makefile. What they do to the C side
  enters as parameters: the pushed register frame, the addresses in \<open>layout\<close>, the memory map and
  tables at the start. \<^verbatim>\<open>task_wrapper\<close> of \<^verbatim>\<open>task.c\<close> is never called. Control blocks and register
  frames live in typed stores indexed by their addresses, not in the byte memory; that is faithful as
  long as they do not overlap, which holds for stacks of at least 208 bytes, the size of a frame.
  \<^verbatim>\<open>task_create\<close> does not check this, so \<open>task_reach\<close> requires it, and \<open>task_create_small_stack\<close>
  shows the overlap for smaller ones. \<open>translation\<close> starts at \<^verbatim>\<open>current_pml4_phys\<close>, the copy of CR3
  that \<^verbatim>\<open>vmm_init\<close> takes and nothing in the kernel changes, and uses the low 48 bits of an address:
  the exception for addresses that are not canonical is not modelled. Interrupts arrive between
  calls of kernel functions, not inside them. Accesses to physical memory use the identity
  mapping of the boot loader.
\<close>

end
